(* ===== verification/Prelude.thy ===== *)
theory Prelude
  imports Main "HOL-Library.Word"
begin

text \<open>
  What the components share: the named collections of the development, the functions of Go's
  package strings that the sources call (on byte strings, a Go string being a sequence of bytes),
  and Go's results with an error. The lemmas on splitting and joining carry every path proof.
\<close>

named_theorems wf_rules "the keys of an association list stay distinct under an operation"
named_theorems find_simps "what is found after an operation on a map or a component that keeps one"

text \<open>A Go call that returns \<open>(value, error)\<close>: \<open>Inl\<close> the error, \<open>Inr\<close> the value.\<close>

type_synonym ('e, 'a) result = "'e + 'a"

text \<open>
  Times are nanoseconds since Go's zero time (so \<open>t.IsZero()\<close> is \<open>t = 0\<close>), durations are
  nanoseconds.
\<close>

type_synonym gotime = int
type_synonym duration = int

abbreviation Second :: duration where
  "Second \<equiv> 1000000000"

abbreviation Millisecond :: duration where
  "Millisecond \<equiv> 1000000"

abbreviation Minute :: duration where
  "Minute \<equiv> 60 * Second"

abbreviation Hour :: duration where
  "Hour \<equiv> 60 * Minute"

text \<open>\<open>t.Sub(u)\<close> saturates at the bounds of an int64.\<close>

definition max_i64 :: int where
  "max_i64 = 9223372036854775807"

definition min_i64 :: int where
  "min_i64 = - 9223372036854775808"

definition time_sub :: "gotime \<Rightarrow> gotime \<Rightarrow> duration" where
  "time_sub t u = max min_i64 (min max_i64 (t - u))"

lemma time_sub_gt_iff: "d < max_i64 \<Longrightarrow> min_i64 \<le> d \<Longrightarrow> time_sub t u > d \<longleftrightarrow> t - u > d"
  by (auto simp: time_sub_def max_i64_def min_i64_def)

section \<open>Go strings\<close>

abbreviation slash :: char where
  "slash \<equiv> CHR ''/''"

abbreviation dot :: char where
  "dot \<equiv> CHR ''.''"

text \<open>\<open>strings.HasPrefix\<close>, \<open>strings.HasSuffix\<close>.\<close>

definition has_prefix :: "string \<Rightarrow> string \<Rightarrow> bool" where
  "has_prefix s p \<longleftrightarrow> take (length p) s = p"

definition has_suffix :: "string \<Rightarrow> string \<Rightarrow> bool" where
  "has_suffix s p \<longleftrightarrow> has_prefix (rev s) (rev p)"

lemma has_prefix_Cons [simp]:
  "has_prefix (x # s) (y # p) \<longleftrightarrow> x = y \<and> has_prefix s p"
  by (auto simp: has_prefix_def)

lemma has_prefix_Nil [simp]: "has_prefix s []" "has_prefix [] (y # p) \<longleftrightarrow> False"
  by (auto simp: has_prefix_def)

lemma has_prefix_append [simp]: "has_prefix (p @ s) p"
  by (simp add: has_prefix_def)

lemma has_prefix_iff: "has_prefix s p \<longleftrightarrow> (\<exists>r. s = p @ r)"
  by (metis append_take_drop_id has_prefix_append has_prefix_def)

lemma has_suffix_iff: "has_suffix s p \<longleftrightarrow> (\<exists>r. s = r @ p)"
  by (auto simp: has_suffix_def has_prefix_iff) (metis rev_append rev_rev_ident)

lemma has_suffix_single: "has_suffix s [c] \<longleftrightarrow> s \<noteq> [] \<and> last s = c"
  by (auto simp: has_suffix_iff) (metis append_butlast_last_id)

text \<open>\<open>strings.Split(s, sep)\<close> for a one-byte separator: never empty.\<close>

fun split_on :: "char \<Rightarrow> string \<Rightarrow> string list" where
  "split_on c [] = [[]]"
| "split_on c (x # xs) =
     (if x = c then [] # split_on c xs
      else (case split_on c xs of [] \<Rightarrow> [[x]] | y # ys \<Rightarrow> (x # y) # ys))"

text \<open>\<open>strings.SplitN(s, sep, n)\<close> for \<open>n > 0\<close>: at most \<open>n\<close> parts, the last unsplit.\<close>

fun splitn_on :: "nat \<Rightarrow> char \<Rightarrow> string \<Rightarrow> string list" where
  "splitn_on 0 c s = []"
| "splitn_on (Suc 0) c s = [s]"
| "splitn_on (Suc (Suc n)) c s =
     (if c \<in> set s
      then takeWhile (\<lambda>x. x \<noteq> c) s # splitn_on (Suc n) c (tl (dropWhile (\<lambda>x. x \<noteq> c) s))
      else [s])"

text \<open>\<open>strings.Join\<close>.\<close>

fun join_with :: "string \<Rightarrow> string list \<Rightarrow> string" where
  "join_with sep [] = []"
| "join_with sep [x] = x"
| "join_with sep (x # y # ys) = x @ sep @ join_with sep (y # ys)"

text \<open>\<open>strings.LastIndex(s, c)\<close> and \<open>strings.Index(s, sub)\<close>, \<open>-1\<close> when there is none.\<close>

fun last_index :: "char \<Rightarrow> string \<Rightarrow> int" where
  "last_index c [] = -1"
| "last_index c (x # xs) =
     (let i = last_index c xs in if 0 \<le> i then i + 1 else if x = c then 0 else -1)"

fun index_of :: "string \<Rightarrow> string \<Rightarrow> int" where
  "index_of sub [] = (if sub = [] then 0 else -1)"
| "index_of sub (x # xs) =
     (if has_prefix (x # xs) sub then 0
      else (let i = index_of sub xs in if 0 \<le> i then i + 1 else -1))"

definition contains :: "string \<Rightarrow> string \<Rightarrow> bool" where
  "contains s sub \<longleftrightarrow> 0 \<le> index_of sub s"

text \<open>\<open>strings.TrimRight\<close>, \<open>strings.Trim\<close> for a one-byte cutset, \<open>strings.TrimSuffix\<close>.\<close>

definition trim_left :: "char \<Rightarrow> string \<Rightarrow> string" where
  "trim_left c s = dropWhile (\<lambda>x. x = c) s"

definition trim_right :: "char \<Rightarrow> string \<Rightarrow> string" where
  "trim_right c s = rev (dropWhile (\<lambda>x. x = c) (rev s))"

definition trim_both :: "char \<Rightarrow> string \<Rightarrow> string" where
  "trim_both c s = trim_right c (trim_left c s)"

definition trim_suffix :: "string \<Rightarrow> string \<Rightarrow> string" where
  "trim_suffix s suf = (if has_suffix s suf then take (length s - length suf) s else s)"

text \<open>\<open>strings.ReplaceAll(s, c, d)\<close> for one-byte \<open>c\<close> and \<open>d\<close>.\<close>

definition replace_all :: "char \<Rightarrow> char \<Rightarrow> string \<Rightarrow> string" where
  "replace_all c d s = map (\<lambda>x. if x = c then d else x) s"

subsection \<open>Splitting and joining\<close>

lemma split_on_neq_Nil [simp]: "split_on c s \<noteq> []"
  by (induction s) (auto split: list.splits)

lemma split_on_no_sep: "p \<in> set (split_on c s) \<Longrightarrow> c \<notin> set p"
proof (induction s arbitrary: p)
  case Nil
  then show ?case by simp
next
  case (Cons x xs)
  then show ?case by (cases "split_on c xs") (auto split: if_splits)
qed

lemma split_on_chars: "p \<in> set (split_on c s) \<Longrightarrow> set p \<subseteq> set s"
proof (induction s arbitrary: p)
  case (Cons x xs)
  obtain y ys where y: "split_on c xs = y # ys" by (cases "split_on c xs") auto
  then have "set y \<subseteq> set xs" using Cons.IH by simp
  then show ?case using Cons y by (fastforce split: if_splits)
qed simp

lemma split_on_id [simp]: "c \<notin> set s \<Longrightarrow> split_on c s = [s]"
  by (induction s) auto

lemma split_on_append: "split_on c (a @ c # b) = split_on c a @ split_on c b"
proof (induction a)
  case Nil
  then show ?case by simp
next
  case (Cons x a)
  then show ?case by (cases "split_on c a") auto
qed

lemma split_on_sep_Cons: "c \<notin> set a \<Longrightarrow> split_on c (a @ c # b) = a # split_on c b"
  by (simp add: split_on_append)

lemma join_with_Cons: "xs \<noteq> [] \<Longrightarrow> join_with sep (x # xs) = x @ sep @ join_with sep xs"
  by (cases xs) auto

lemma join_split_on [simp]: "join_with [c] (split_on c s) = s"
proof (induction s)
  case Nil
  then show ?case by simp
next
  case (Cons x xs)
  show ?case
  proof (cases "split_on c xs")
    case Nil
    then show ?thesis by simp
  next
    case (Cons y ys)
    with Cons.IH show ?thesis by (cases ys) auto
  qed
qed

lemma split_join_with:
  assumes "xs \<noteq> []" and "\<forall>x \<in> set xs. c \<notin> set x"
  shows "split_on c (join_with [c] xs) = xs"
  using assms
proof (induction xs rule: induct_list012)
  case (3 x y ys)
  then show ?case by (simp add: split_on_sep_Cons)
qed auto

lemma join_with_append:
  "xs \<noteq> [] \<Longrightarrow> ys \<noteq> [] \<Longrightarrow> join_with sep (xs @ ys) = join_with sep xs @ sep @ join_with sep ys"
  by (induction xs rule: induct_list012) (auto simp: join_with_Cons)

lemma set_join_with: "set (join_with sep xs) \<subseteq> \<Union> (set ` set xs) \<union> set sep"
  by (induction xs rule: induct_list012) auto

lemma join_with_eq_Nil: "(\<forall>x \<in> set xs. x \<noteq> []) \<Longrightarrow> join_with sep xs = [] \<longleftrightarrow> xs = []"
  by (induction xs rule: induct_list012) auto

lemma hd_join_with: "x \<noteq> [] \<Longrightarrow> hd (join_with sep (x # xs)) = hd x"
  by (cases xs) auto

lemma splitn2: "splitn_on 2 c s =
    (if c \<in> set s then [takeWhile (\<lambda>x. x \<noteq> c) s, tl (dropWhile (\<lambda>x. x \<noteq> c) s)] else [s])"
  by (simp add: numeral_2_eq_2)

lemma splitn2_sep: "c \<notin> set a \<Longrightarrow> splitn_on 2 c (a @ c # b) = [a, b]"
  unfolding splitn2 by (induction a) (auto split: if_splits)

lemma last_index_ge: "-1 \<le> last_index c s"
  by (induction s) (auto simp: Let_def)

lemma last_index_no: "c \<notin> set s \<longleftrightarrow> last_index c s = -1"
proof (induction s)
  case Nil
  then show ?case by simp
next
  case (Cons x xs)
  then show ?case using last_index_ge [of c xs] by (auto simp: Let_def)
qed

lemma last_index_append: "c \<notin> set b \<Longrightarrow> last_index c (a @ c # b) = int (length a)"
proof (induction a)
  case Nil
  then have "last_index c b = -1" by (simp add: last_index_no)
  then show ?case by simp
next
  case (Cons x a)
  then show ?case by simp
qed

lemma last_index_lt: "last_index c s < int (length s)"
  by (induction s) (auto simp: Let_def)

lemma trim_right_idem: "s = [] \<or> last s \<noteq> c \<Longrightarrow> trim_right c s = s"
  by (cases s rule: rev_cases) (auto simp: trim_right_def)

lemma trim_left_idem: "s = [] \<or> hd s \<noteq> c \<Longrightarrow> trim_left c s = s"
  by (cases s) (auto simp: trim_left_def)

lemma set_trim_both: "set (trim_both c s) \<subseteq> set s"
  unfolding trim_both_def trim_right_def trim_left_def
  by (metis set_dropWhileD set_rev subsetI)

lemma trim_left_last: "trim_left c s \<noteq> [] \<Longrightarrow> last (trim_left c s) = last s"
  by (induction s) (auto simp: trim_left_def)

lemma length_replace_all [simp]: "length (replace_all c d s) = length s"
  by (simp add: replace_all_def)

lemma replace_all_no: "c \<noteq> d \<Longrightarrow> c \<notin> set (replace_all c d s)"
  by (auto simp: replace_all_def)

end
