(* ===== verification/GoText.thy ===== *)
theory GoText
  imports Prelude
begin

text \<open>
  Text conversions of Go's standard library: strconv's decimal integers, base64's raw URL
  encoding, TrimSpace, ToLower on ASCII, and the percent-encodings of net/url. The lemmas are the
  round trips and the alphabets the callers rely on.
\<close>

section \<open>Decimal integers\<close>

definition is_digit :: "char \<Rightarrow> bool" where
  "is_digit c \<longleftrightarrow> 48 \<le> (of_char c :: nat) \<and> (of_char c :: nat) \<le> 57"

fun digits_val :: "nat \<Rightarrow> string \<Rightarrow> nat option" where
  "digits_val acc [] = Some acc"
| "digits_val acc (c # cs) =
     (if is_digit c then digits_val (10 * acc + (of_char c - 48)) cs else None)"

text \<open>
  \<open>strconv.ParseInt(s, 10, 64)\<close> and, on a 64-bit platform, \<open>strconv.Atoi(s)\<close>: an optional sign,
  at least one digit, nothing else, and a value that fits an int64.
\<close>

definition parse_int :: "string \<Rightarrow> int option" where
  "parse_int s =
     (let neg = (case s of [] \<Rightarrow> False | c # _ \<Rightarrow> c = CHR ''-'');
          ds = (case s of [] \<Rightarrow> [] | c # r \<Rightarrow> if c = CHR ''-'' \<or> c = CHR ''+'' then r else s)
      in if ds = [] then None
         else (case digits_val 0 ds of
                 None \<Rightarrow> None
               | Some n \<Rightarrow>
                   (let v = (if neg then - int n else int n)
                    in if min_i64 \<le> v \<and> v \<le> max_i64 then Some v else None)))"

definition digit_char :: "nat \<Rightarrow> char" where
  "digit_char d = char_of (48 + d)"

fun nat_str :: "nat \<Rightarrow> string" where
  "nat_str n = (if n < 10 then [digit_char n] else nat_str (n div 10) @ [digit_char (n mod 10)])"

declare nat_str.simps [simp del]

text \<open>\<open>strconv.FormatInt(n, 10)\<close>, also the verb \<open>%d\<close>.\<close>

definition int_str :: "int \<Rightarrow> string" where
  "int_str i = (if i < 0 then CHR ''-'' # nat_str (nat (- i)) else nat_str (nat i))"

lemma of_digit_char: "d < 10 \<Longrightarrow> of_char (digit_char d) = (48 + d :: nat)"
  by (simp add: digit_char_def)

lemma is_digit_digit_char: "d < 10 \<Longrightarrow> is_digit (digit_char d)"
  by (simp add: is_digit_def of_digit_char)

lemma digits_val_append:
  "digits_val acc (xs @ ys) =
     (case digits_val acc xs of None \<Rightarrow> None | Some v \<Rightarrow> digits_val v ys)"
  by (induction xs arbitrary: acc) auto

lemma digits_val_nat_str: "digits_val 0 (nat_str n) = Some n"
proof (induction n rule: nat_str.induct)
  case (1 n)
  show ?case
  proof (cases "n < 10")
    case True
    then show ?thesis
      by (simp add: nat_str.simps [of n] is_digit_digit_char of_digit_char)
  next
    case False
    with 1 show ?thesis
      by (simp add: nat_str.simps [of n] digits_val_append is_digit_digit_char of_digit_char)
  qed
qed

lemma nat_str_digits: "c \<in> set (nat_str n) \<Longrightarrow> is_digit c"
proof (induction n rule: nat_str.induct)
  case (1 n)
  show ?case
  proof (cases "n < 10")
    case True
    with "1.prems" show ?thesis by (simp add: nat_str.simps [of n] is_digit_digit_char)
  next
    case False
    with 1 show ?thesis
      by (auto simp: nat_str.simps [of n] is_digit_digit_char)
  qed
qed

lemma nat_str_neq_Nil [simp]: "nat_str n \<noteq> []"
  by (subst nat_str.simps) simp

lemma not_digit_sign: "\<not> is_digit (CHR ''-'')" "\<not> is_digit (CHR ''+'')"
  by (simp_all add: is_digit_def)

lemma nat_str_hd: "hd (nat_str n) \<noteq> CHR ''-''" "hd (nat_str n) \<noteq> CHR ''+''"
  using nat_str_digits [of "hd (nat_str n)" n] not_digit_sign by (metis hd_in_set nat_str_neq_Nil)+

lemma parse_int_str:
  assumes "min_i64 \<le> i" and "i \<le> max_i64"
  shows "parse_int (int_str i) = Some i"
proof (cases "i < 0")
  case True
  with assms show ?thesis by (simp add: parse_int_def int_str_def digits_val_nat_str)
next
  case False
  obtain c cs where n: "nat_str (nat i) = c # cs" by (cases "nat_str (nat i)") auto
  have "c \<noteq> CHR ''-''" "c \<noteq> CHR ''+''" using nat_str_hd [of "nat i"] n by auto
  moreover have "digits_val 0 (c # cs) = Some (nat i)" using digits_val_nat_str n by metis
  ultimately show ?thesis
    using False assms n by (auto simp: parse_int_def int_str_def)
qed

section \<open>Base64, raw URL encoding\<close>

definition b64_char :: "nat \<Rightarrow> char" where
  "b64_char n =
     (if n < 26 then char_of (65 + n)
      else if n < 52 then char_of (71 + n)
      else if n < 62 then char_of (n - 4)
      else if n = 62 then CHR ''-'' else CHR ''_'')"

definition b64_val :: "char \<Rightarrow> nat option" where
  "b64_val c =
     (let n = of_char c :: nat
      in if 65 \<le> n \<and> n \<le> 90 then Some (n - 65)
         else if 97 \<le> n \<and> n \<le> 122 then Some (n - 71)
         else if 48 \<le> n \<and> n \<le> 57 then Some (n + 4)
         else if c = CHR ''-'' then Some 62
         else if c = CHR ''_'' then Some 63 else None)"

text \<open>\<open>base64.RawURLEncoding.EncodeToString\<close>: no padding.\<close>

fun b64_encode :: "string \<Rightarrow> string" where
  "b64_encode [] = []"
| "b64_encode [a] =
     (let v = (of_char a :: nat) in [b64_char (v div 4), b64_char (v mod 4 * 16)])"
| "b64_encode [a, b] =
     (let v = (of_char a :: nat); w = of_char b
      in [b64_char (v div 4), b64_char (v mod 4 * 16 + w div 16), b64_char (w mod 16 * 4)])"
| "b64_encode (a # b # c # r) =
     (let v = (of_char a :: nat); w = of_char b; u = of_char c
      in [b64_char (v div 4), b64_char (v mod 4 * 16 + w div 16),
          b64_char (w mod 16 * 4 + u div 64), b64_char (u mod 64)] @ b64_encode r)"

text \<open>
  \<open>DecodeString\<close>: line breaks are skipped wherever they stand, the bits left over in a final short
  group are not checked, and a group of one character is an error.
\<close>

fun b64_groups :: "nat list \<Rightarrow> string option" where
  "b64_groups [] = Some []"
| "b64_groups [a] = None"
| "b64_groups [a, b] = Some [char_of (a * 4 + b div 16)]"
| "b64_groups [a, b, c] = Some [char_of (a * 4 + b div 16), char_of (b mod 16 * 16 + c div 4)]"
| "b64_groups (a # b # c # d # r) =
     map_option (\<lambda>t. [char_of (a * 4 + b div 16), char_of (b mod 16 * 16 + c div 4),
                      char_of (c mod 4 * 64 + d)] @ t) (b64_groups r)"

fun sequence_opt :: "'a option list \<Rightarrow> 'a list option" where
  "sequence_opt [] = Some []"
| "sequence_opt (None # xs) = None"
| "sequence_opt (Some x # xs) = map_option (\<lambda>ys. x # ys) (sequence_opt xs)"

definition is_newline :: "char \<Rightarrow> bool" where
  "is_newline c \<longleftrightarrow> c = CHR 0x0A \<or> c = CHR 0x0D"

definition b64_decode :: "string \<Rightarrow> string option" where
  "b64_decode s =
     (case sequence_opt (map b64_val (filter (\<lambda>c. \<not> is_newline c) s)) of
        None \<Rightarrow> None
      | Some vs \<Rightarrow> b64_groups vs)"

lemma of_char_lt: "of_char (c :: char) < (256 :: nat)"
  using nat_of_char_less_256 .

lemma of_char_char_of_lt: "n < 256 \<Longrightarrow> of_char (char_of n :: char) = (n :: nat)"
  by simp

lemma b64_val_char:
  assumes "n < 64"
  shows "b64_val (b64_char n) = Some n"
proof -
  consider "n < 26" | "26 \<le> n" "n < 52" | "52 \<le> n" "n < 62" | "n = 62" | "n = 63"
    using assms by linarith
  then show ?thesis
    by cases (simp_all add: b64_char_def b64_val_def Let_def, arith)
qed

lemma b64_char_of_char:
  assumes "n < 64"
  shows "45 \<le> (of_char (b64_char n) :: nat) \<and> (of_char (b64_char n) :: nat) \<noteq> 46"
proof -
  consider "n < 26" | "26 \<le> n" "n < 52" | "52 \<le> n" "n < 62" | "n = 62" | "n = 63"
    using assms by linarith
  then show ?thesis
    by cases (simp_all add: b64_char_def, arith)
qed

lemma b64_char_alphabet: "n < 64 \<Longrightarrow> b64_char n \<noteq> CHR ''.'' \<and> \<not> is_newline (b64_char n)"
  using b64_char_of_char [of n] by (auto simp: is_newline_def)

fun b64_sextets :: "string \<Rightarrow> nat list" where
  "b64_sextets [] = []"
| "b64_sextets [a] =
     (let v = (of_char a :: nat) in [v div 4, v mod 4 * 16])"
| "b64_sextets [a, b] =
     (let v = (of_char a :: nat); w = of_char b
      in [v div 4, v mod 4 * 16 + w div 16, w mod 16 * 4])"
| "b64_sextets (a # b # c # r) =
     (let v = (of_char a :: nat); w = of_char b; u = of_char c
      in [v div 4, v mod 4 * 16 + w div 16, w mod 16 * 4 + u div 64, u mod 64] @ b64_sextets r)"

lemma b64_encode_sextets: "b64_encode s = map b64_char (b64_sextets s)"
  by (induction s rule: b64_encode.induct) (simp_all add: Let_def)

lemma sextet_lt:
  fixes v w u :: nat
  assumes "v < 256" "w < 256" "u < 256"
  shows "v div 4 < 64" "v mod 4 * 16 < 64" "v mod 4 * 16 + w div 16 < 64"
    "w mod 16 * 4 < 64" "w mod 16 * 4 + u div 64 < 64" "u mod 64 < 64"
proof -
  have "w div 16 < 16" "u div 64 < 4" using assms by (simp_all add: less_mult_imp_div_less)
  moreover have "v mod 4 < 4" "w mod 16 < 16" by simp_all
  ultimately show "v mod 4 * 16 < 64" "v mod 4 * 16 + w div 16 < 64"
    "w mod 16 * 4 < 64" "w mod 16 * 4 + u div 64 < 64" by linarith+
  show "v div 4 < 64" using assms by (simp add: less_mult_imp_div_less)
  show "u mod 64 < 64" by simp
qed

lemma b64_sextets_lt: "n \<in> set (b64_sextets s) \<Longrightarrow> n < 64"
proof (induction s rule: b64_sextets.induct)
  case (2 a)
  then show ?case using sextet_lt [OF of_char_lt of_char_lt of_char_lt] by (auto simp: Let_def)
next
  case (3 a b)
  then show ?case using sextet_lt [OF of_char_lt of_char_lt of_char_lt] by (auto simp: Let_def)
next
  case (4 a b c r)
  then show ?case using sextet_lt [OF of_char_lt of_char_lt of_char_lt] by (auto simp: Let_def)
qed simp

lemma pack_div: "(r::nat) < b \<Longrightarrow> (q * b + r) div b = q"
  and pack_mod: "r < b \<Longrightarrow> (q * b + r) mod b = r"
  by simp_all

lemma byte1: "(w::nat) < 256 \<Longrightarrow> v div 4 * 4 + (v mod 4 * 16 + w div 16) div 16 = v"
  by (subst pack_div) (simp_all add: less_mult_imp_div_less)

lemma byte1': "(v::nat) div 4 * 4 + (v mod 4 * 16) div 16 = v"
  by simp

lemma byte2: "(w::nat) < 256 \<Longrightarrow> u < 256 \<Longrightarrow>
    (v mod 4 * 16 + w div 16) mod 16 * 16 + (w mod 16 * 4 + u div 64) div 4 = w"
  by (subst pack_div, simp add: less_mult_imp_div_less, subst pack_mod)
    (simp_all add: less_mult_imp_div_less)

lemma byte2': "(w::nat) < 256 \<Longrightarrow>
    (v mod 4 * 16 + w div 16) mod 16 * 16 + (w mod 16 * 4) div 4 = w"
  by (subst pack_mod) (simp_all add: less_mult_imp_div_less)

lemma byte3: "(u::nat) < 256 \<Longrightarrow> (w mod 16 * 4 + u div 64) mod 4 * 64 + u mod 64 = u"
  by (subst pack_mod) (simp_all add: less_mult_imp_div_less)

lemmas b64_byte_simps =
  byte1 [OF of_char_lt] byte1' byte2 [OF of_char_lt of_char_lt] byte2' [OF of_char_lt]
  byte3 [OF of_char_lt]

lemma b64_groups_sextets: "b64_groups (b64_sextets s) = Some s"
proof (induction s rule: b64_sextets.induct)
  case (4 a b c r)
  show ?case
    by (simp only: b64_sextets.simps Let_def append_Cons append_Nil b64_groups.simps
        b64_byte_simps 4) simp
qed (simp_all only: b64_sextets.simps Let_def b64_groups.simps b64_byte_simps char_of_char)

lemma sequence_opt_Some: "sequence_opt (map Some xs) = Some xs"
  by (induction xs) auto

theorem b64_decode_encode: "b64_decode (b64_encode s) = Some s"
proof -
  have nl: "filter (\<lambda>c. \<not> is_newline c) (b64_encode s) = b64_encode s"
    using b64_sextets_lt b64_char_alphabet by (auto simp: b64_encode_sextets filter_id_conv)
  have "map b64_val (b64_encode s) = map Some (b64_sextets s)"
    using b64_sextets_lt b64_val_char by (auto simp: b64_encode_sextets)
  then show ?thesis
    by (simp add: b64_decode_def nl sequence_opt_Some b64_groups_sextets)
qed

lemma b64_encode_no_dot: "CHR ''.'' \<notin> set (b64_encode s)"
  using b64_sextets_lt b64_char_alphabet by (force simp: b64_encode_sextets)

lemma b64_encode_inj: "b64_encode s = b64_encode t \<longleftrightarrow> s = t"
  by (metis b64_decode_encode option.inject)

section \<open>TrimSpace and ToLower\<close>

text \<open>
  The UTF-8 encodings of the white space of \<open>unicode.IsSpace\<close>. No encoding is a proper prefix or a
  proper suffix of another rune's, so cutting them off byte by byte cuts whole runes.
\<close>

definition space_encodings :: "string list" where
  "space_encodings =
     [[CHR 0x09], [CHR 0x0A], [CHR 0x0B], [CHR 0x0C], [CHR 0x0D], [CHR 0x20],
      [CHR 0xC2, CHR 0x85], [CHR 0xC2, CHR 0xA0], [CHR 0xE1, CHR 0x9A, CHR 0x80],
      [CHR 0xE2, CHR 0x80, CHR 0xA8], [CHR 0xE2, CHR 0x80, CHR 0xA9],
      [CHR 0xE2, CHR 0x80, CHR 0xAF], [CHR 0xE2, CHR 0x81, CHR 0x9F],
      [CHR 0xE3, CHR 0x80, CHR 0x80]] @
     map (\<lambda>n. [CHR 0xE2, CHR 0x80, char_of (128 + n :: nat)]) [0..<11]"

function trim_encodings :: "string list \<Rightarrow> string \<Rightarrow> string" where
  "trim_encodings es s =
     (case find (\<lambda>e. e \<noteq> [] \<and> has_prefix s e) es of
        None \<Rightarrow> s
      | Some e \<Rightarrow> trim_encodings es (drop (length e) s))"
  by pat_completeness auto
termination
proof (relation "measure (\<lambda>(es, s). length s)")
  fix es s e
  assume "find (\<lambda>e. e \<noteq> [] \<and> has_prefix s e) es = Some e"
  then have "e \<noteq> []" "has_prefix s e" by (auto simp: find_Some_iff)
  then show "((es, drop (length e) s), (es, s)) \<in> measure (\<lambda>(es, s). length s)"
    by (auto simp: has_prefix_iff)
qed simp

declare trim_encodings.simps [simp del]

definition trim_space :: "string \<Rightarrow> string" where
  "trim_space s =
     rev (trim_encodings (map rev space_encodings) (rev (trim_encodings space_encodings s)))"

text \<open>Graphic ASCII: no white space starts or ends with such a byte.\<close>

definition graphic :: "char \<Rightarrow> bool" where
  "graphic c \<longleftrightarrow> 33 \<le> (of_char c :: nat) \<and> (of_char c :: nat) \<le> 126"

lemma trim_encodings_id: "\<forall>e \<in> set es. e \<noteq> [] \<longrightarrow> \<not> has_prefix s e \<Longrightarrow> trim_encodings es s = s"
proof -
  assume "\<forall>e \<in> set es. e \<noteq> [] \<longrightarrow> \<not> has_prefix s e"
  then have "find (\<lambda>e. e \<noteq> [] \<and> has_prefix s e) es = None" by (auto simp: find_None_iff)
  then show ?thesis by (simp add: trim_encodings.simps [of es s])
qed

lemma space_encodings_ends:
  "e \<in> set space_encodings \<Longrightarrow> e \<noteq> [] \<and> \<not> graphic (hd e) \<and> \<not> graphic (last e)"
proof -
  assume e: "e \<in> set space_encodings"
  have "\<forall>e \<in> set space_encodings. e \<noteq> [] \<and> \<not> graphic (hd e) \<and> \<not> graphic (last e)"
    unfolding space_encodings_def graphic_def by simp
  with e show ?thesis by blast
qed

lemma trim_space_graphic:
  assumes "s \<noteq> []" and "graphic (hd s)" and "graphic (last s)"
  shows "trim_space s = s"
proof -
  have "trim_encodings space_encodings s = s"
    using assms(1,2) space_encodings_ends
    by (intro trim_encodings_id) (auto simp: has_prefix_iff)
  moreover have "trim_encodings (map rev space_encodings) (rev s) = rev s"
  proof (rule trim_encodings_id, intro ballI impI notI)
    fix e assume e: "e \<in> set (map rev space_encodings)" "e \<noteq> []" "has_prefix (rev s) e"
    then obtain r where r: "rev s = e @ r" by (auto simp: has_prefix_iff)
    then have "hd e = last s" using e(2) by (metis hd_append2 hd_rev)
    moreover have "\<not> graphic (hd e)" using e(1) space_encodings_ends by (auto simp: hd_rev)
    ultimately show False using assms(3) by simp
  qed
  ultimately show ?thesis by (simp add: trim_space_def)
qed

section \<open>Valid UTF-8\<close>

text \<open>
  \<open>utf8.ValidString\<close>: no overlong encoding, no surrogate and nothing above U+10FFFF. \<open>byte_in\<close> is a
  range of bytes.
\<close>

definition byte_in :: "nat \<Rightarrow> nat \<Rightarrow> char \<Rightarrow> bool" where
  "byte_in l h c \<longleftrightarrow> l \<le> of_char c \<and> of_char c \<le> h"

definition cont_byte :: "char \<Rightarrow> bool" where
  "cont_byte c \<longleftrightarrow> byte_in 0x80 0xBF c"

fun valid_utf8 :: "string \<Rightarrow> bool" where
  "valid_utf8 [] = True"
| "valid_utf8 (a # s) =
     (if byte_in 0 0x7F a then valid_utf8 s
      else if byte_in 0xC2 0xDF a then (case s of b # s' \<Rightarrow> cont_byte b \<and> valid_utf8 s' | _ \<Rightarrow> False)
      else if byte_in 0xE0 0xEF a
        then (case s of
                b # c # s' \<Rightarrow>
                  byte_in (if a = CHR 0xE0 then 0xA0 else 0x80) (if a = CHR 0xED then 0x9F else 0xBF) b \<and>
                  cont_byte c \<and> valid_utf8 s'
              | _ \<Rightarrow> False)
      else if byte_in 0xF0 0xF4 a
        then (case s of
                b # c # d # s' \<Rightarrow>
                  byte_in (if a = CHR 0xF0 then 0x90 else 0x80) (if a = CHR 0xF4 then 0x8F else 0xBF) b \<and>
                  cont_byte c \<and> cont_byte d \<and> valid_utf8 s'
              | _ \<Rightarrow> False)
      else False)"

lemma valid_utf8_examples:
  "valid_utf8 [CHR 0xE2, CHR 0x80, CHR 0xA6]" "\<not> valid_utf8 [CHR 0xC0, CHR 0xAF]" "\<not> valid_utf8 [CHR 0xED, CHR 0xA0, CHR 0x80]"
  by code_simp+

lemma valid_utf8_ascii: "\<forall>c \<in> set s. byte_in 0 0x7F c \<Longrightarrow> valid_utf8 s"
  by (induction s) auto

text \<open>
  \<open>strings.ToLower\<close> on ASCII letters; the bytes of other runes are kept. The callers compare the
  result with ASCII words none of whose letters is the lower case of a non-ASCII rune.
\<close>

definition lower_char :: "char \<Rightarrow> char" where
  "lower_char c = (let n = of_char c :: nat in if 65 \<le> n \<and> n \<le> 90 then char_of (n + 32) else c)"

text \<open>The character U+2026 in UTF-8.\<close>

definition ellipsis :: string where
  "ellipsis = [CHR 0xE2, CHR 0x80, CHR 0xA6]"

definition to_lower :: "string \<Rightarrow> string" where
  "to_lower s = map lower_char s"

section \<open>Percent-encoding\<close>

definition is_alnum :: "char \<Rightarrow> bool" where
  "is_alnum c \<longleftrightarrow>
     (let n = of_char c :: nat
      in (97 \<le> n \<and> n \<le> 122) \<or> (65 \<le> n \<and> n \<le> 90) \<or> (48 \<le> n \<and> n \<le> 57))"

definition hex_upper :: "nat \<Rightarrow> char" where
  "hex_upper n = (if n < 10 then char_of (48 + n) else char_of (55 + n))"

definition percent_byte :: "char \<Rightarrow> string" where
  "percent_byte c =
     (let n = of_char c :: nat in [CHR ''%'', hex_upper (n div 16), hex_upper (n mod 16)])"

text \<open>\<open>url.PathEscape\<close>: the bytes a path segment may keep.\<close>

definition path_seg_keep :: "char \<Rightarrow> bool" where
  "path_seg_keep c \<longleftrightarrow> is_alnum c \<or> c \<in> set ''-_.~$&+=:@''"

definition path_escape :: "string \<Rightarrow> string" where
  "path_escape s = concat (map (\<lambda>c. if path_seg_keep c then [c] else percent_byte c) s)"

text \<open>The escaping of a whole path in \<open>url.URL.String\<close>.\<close>

definition url_path_keep :: "char \<Rightarrow> bool" where
  "url_path_keep c \<longleftrightarrow> is_alnum c \<or> c \<in> set ''-_.~$&+,/:;=@''"

definition url_path_escape :: "string \<Rightarrow> string" where
  "url_path_escape s = concat (map (\<lambda>c. if url_path_keep c then [c] else percent_byte c) s)"

text \<open>\<open>url.QueryEscape\<close>: a space becomes a plus sign.\<close>

definition query_escape :: "string \<Rightarrow> string" where
  "query_escape s =
     concat (map (\<lambda>c. if is_alnum c \<or> c \<in> set ''-_.~'' then [c]
                      else if c = CHR '' '' then ''+'' else percent_byte c) s)"

text \<open>The safe bytes of a header value inside and outside a quoted string.\<close>

definition header_safe :: "char \<Rightarrow> bool" where
  "header_safe c \<longleftrightarrow>
     32 \<le> (of_char c :: nat) \<and> (of_char c :: nat) \<le> 126 \<and> c \<noteq> CHR 0x22 \<and> c \<noteq> CHR 0x5C"

lemma hex_upper_safe:
  assumes "n < 16"
  shows "header_safe (hex_upper n)"
proof -
  have "48 \<le> (of_char (hex_upper n) :: nat) \<and> (of_char (hex_upper n) :: nat) \<le> 70"
    using assms by (simp add: hex_upper_def)
  then show ?thesis unfolding header_safe_def by auto
qed

lemma percent_byte_safe: "\<forall>x \<in> set (percent_byte c). header_safe x"
proof -
  have "(of_char c :: nat) div 16 < 16" using of_char_lt by (simp add: less_mult_imp_div_less)
  then show ?thesis
    using hex_upper_safe by (simp add: percent_byte_def Let_def) (simp add: header_safe_def)
qed

lemma percent_byte_no_query: "CHR ''?'' \<notin> set (percent_byte c)"
proof -
  have hex: "hex_upper n \<noteq> CHR ''?''" if "n < 16" for n
  proof
    assume "hex_upper n = CHR ''?''"
    then have "(of_char (hex_upper n) :: nat) = of_char CHR ''?''" by simp
    then show False using that by (simp add: hex_upper_def split: if_splits)
  qed
  have "(of_char c :: nat) div 16 < 16" using of_char_lt by (simp add: less_mult_imp_div_less)
  then have "hex_upper (of_char c div 16) \<noteq> CHR ''?''" "hex_upper (of_char c mod 16) \<noteq> CHR ''?''"
    by (rule hex, intro hex) simp
  then show ?thesis by (simp add: percent_byte_def Let_def)
qed

lemma is_alnum_safe: "is_alnum c \<Longrightarrow> header_safe c"
  by (auto simp: is_alnum_def header_safe_def Let_def)

lemma url_path_keep_safe: "url_path_keep c \<Longrightarrow> header_safe c \<and> c \<noteq> CHR ''?''"
  unfolding url_path_keep_def using is_alnum_safe by (auto simp: header_safe_def is_alnum_def)

lemma url_path_escape_safe: "\<forall>x \<in> set (url_path_escape s). header_safe x \<and> x \<noteq> CHR ''?''"
  using percent_byte_safe percent_byte_no_query url_path_keep_safe
  by (auto simp: url_path_escape_def split: if_splits)

lemma path_seg_keep_safe: "path_seg_keep c \<Longrightarrow> header_safe c"
  unfolding path_seg_keep_def using is_alnum_safe by (auto simp: header_safe_def)

lemma path_escape_safe: "\<forall>x \<in> set (path_escape s). header_safe x"
  using percent_byte_safe path_seg_keep_safe
  by (auto simp: path_escape_def split: if_splits)

text \<open>\<open>url.PathUnescape\<close> on well-formed escapes.\<close>

definition hex_val :: "char \<Rightarrow> nat" where
  "hex_val c = (let n = of_char c in if n \<le> 57 then n - 48 else if n \<le> 70 then n - 55 else n - 87)"

fun percent_decode :: "string \<Rightarrow> string" where
  "percent_decode (c # h # l # s) =
     (if c = CHR ''%'' then char_of (16 * hex_val h + hex_val l) # percent_decode s
      else c # percent_decode (h # l # s))"
| "percent_decode s = s"

lemma hex_val_upper: "n < 16 \<Longrightarrow> hex_val (hex_upper n) = n"
  by (simp add: hex_val_def hex_upper_def)

lemma percent_decode_byte: "percent_decode (percent_byte c @ s) = c # percent_decode s"
proof -
  have lt: "(of_char c :: nat) div 16 < 16" using of_char_lt by (simp add: less_mult_imp_div_less)
  have "hex_val (hex_upper (of_char c div 16)) = of_char c div 16" by (rule hex_val_upper [OF lt])
  moreover have "hex_val (hex_upper (of_char c mod 16)) = of_char c mod 16" by (rule hex_val_upper) simp
  ultimately have "16 * hex_val (hex_upper (of_char c div 16)) + hex_val (hex_upper (of_char c mod 16)) = (of_char c :: nat)"
    by simp
  then show ?thesis by (simp add: percent_byte_def Let_def)
qed

lemma percent_decode_plain: "c \<noteq> CHR ''%'' \<Longrightarrow> percent_decode (c # s) = c # percent_decode s"
proof (cases s)
  case (Cons h t)
  then show "c \<noteq> CHR ''%'' \<Longrightarrow> ?thesis" by (cases t) auto
qed simp

lemma percent_decode_path_escape: "percent_decode (path_escape s) = s"
proof (induction s)
  case (Cons c s)
  have "path_seg_keep c \<Longrightarrow> c \<noteq> CHR ''%''" by (auto simp: path_seg_keep_def is_alnum_def)
  then show ?case using Cons percent_decode_plain [of c] percent_decode_byte [of c]
    by (simp add: path_escape_def)
qed (simp add: path_escape_def)

end
