(* ===== verification/GoPath.thy ===== *)
theory GoPath
  imports Prelude
begin

text \<open>
  Go's packages path and path/filepath on a Unix system, as the sources use them: Clean, Join,
  Base, Dir and IsAbs. Clean is written on the segments of the path instead of byte by byte; the
  lemmas give its normal form, which the proofs about SFTP paths and archive names rest on.
\<close>

section \<open>Clean\<close>

text \<open>One segment of the scan, with the segments kept so far as a stack.\<close>

definition clean_step :: "bool \<Rightarrow> string list \<Rightarrow> string \<Rightarrow> string list" where
  "clean_step rooted stk seg =
     (if seg = [] \<or> seg = ''.'' then stk
      else if seg = ''..'' then
        (case stk of
           [] \<Rightarrow> (if rooted then [] else [''..''])
         | t # ts \<Rightarrow> (if t = ''..'' then ''..'' # stk else ts))
      else seg # stk)"

definition clean_segs :: "bool \<Rightarrow> string list \<Rightarrow> string list" where
  "clean_segs rooted segs = rev (foldl (clean_step rooted) [] segs)"

definition is_abs :: "string \<Rightarrow> bool" where
  "is_abs p \<longleftrightarrow> has_prefix p ''/''"

definition path_clean :: "string \<Rightarrow> string" where
  "path_clean p =
     (if p = [] then ''.''
      else (let out = join_with ''/'' (clean_segs (is_abs p) (split_on slash p))
            in if is_abs p then slash # out else if out = [] then ''.'' else out))"

section \<open>Join, Base, Dir\<close>

text \<open>Leading empty elements are dropped, then the rest is joined and cleaned.\<close>

definition path_join :: "string list \<Rightarrow> string" where
  "path_join elems =
     (let es = dropWhile (\<lambda>e. e = []) elems
      in if es = [] then [] else path_clean (join_with ''/'' es))"

definition path_base :: "string \<Rightarrow> string" where
  "path_base p =
     (if p = [] then ''.''
      else (let q = trim_right slash p; r = drop (nat (last_index slash q + 1)) q
            in if r = [] then ''/'' else r))"

definition path_dir :: "string \<Rightarrow> string" where
  "path_dir p = path_clean (take (nat (last_index slash p + 1)) p)"

section \<open>Normal forms\<close>

text \<open>A normal segment: what Clean leaves in a rooted path.\<close>

definition normal_seg :: "string \<Rightarrow> bool" where
  "normal_seg s \<longleftrightarrow> s \<noteq> [] \<and> s \<noteq> ''.'' \<and> s \<noteq> ''..'' \<and> slash \<notin> set s"

lemma is_abs_Cons [simp]: "is_abs (x # p) \<longleftrightarrow> x = slash"
  by (auto simp: is_abs_def)

lemma is_abs_Nil [simp]: "\<not> is_abs []"
  by (simp add: is_abs_def)

lemma is_abs_iff: "is_abs p \<longleftrightarrow> (\<exists>r. p = slash # r)"
  by (cases p) auto

lemma is_abs_append: "is_abs a \<Longrightarrow> is_abs (a @ b)"
  by (auto simp: is_abs_iff)

lemma clean_step_normal:
  assumes "\<forall>s \<in> set stk. normal_seg s" and "slash \<notin> set seg"
  shows "\<forall>s \<in> set (clean_step True stk seg). normal_seg s"
proof (cases "seg = [] \<or> seg = ''.'' \<or> seg = ''..''")
  case True
  with assms(1) show ?thesis by (cases stk) (auto simp: clean_step_def)
next
  case False
  then have "clean_step True stk seg = seg # stk" by (simp add: clean_step_def)
  with False assms show ?thesis by (simp add: normal_seg_def)
qed

lemma foldl_clean_normal:
  assumes "\<forall>s \<in> set stk. normal_seg s" and "\<forall>s \<in> set segs. slash \<notin> set s"
  shows "\<forall>s \<in> set (foldl (clean_step True) stk segs). normal_seg s"
  using assms
proof (induction segs arbitrary: stk)
  case Nil
  then show ?case by simp
next
  case (Cons seg segs)
  have "\<forall>s \<in> set (clean_step True stk seg). normal_seg s"
    using Cons.prems by (intro clean_step_normal) auto
  with Cons.IH Cons.prems show ?case by simp
qed

lemma clean_segs_normal:
  "s \<in> set (clean_segs True (split_on slash p)) \<Longrightarrow> normal_seg s"
  using foldl_clean_normal [of "[]" "split_on slash p"] split_on_no_sep
  by (auto simp: clean_segs_def)

lemma foldl_clean_id:
  "\<forall>s \<in> set segs. normal_seg s \<Longrightarrow> foldl (clean_step r) stk segs = rev segs @ stk"
  by (induction segs arbitrary: stk) (auto simp: clean_step_def normal_seg_def)

lemma clean_segs_id: "\<forall>s \<in> set segs. normal_seg s \<Longrightarrow> clean_segs r segs = segs"
  by (simp add: clean_segs_def foldl_clean_id)

lemma clean_segs_skip: "clean_segs r ([] # segs) = clean_segs r segs"
  by (simp add: clean_segs_def clean_step_def)

lemma path_clean_abs:
  "is_abs p \<Longrightarrow> path_clean p = slash # join_with ''/'' (clean_segs True (split_on slash p))"
  by (auto simp: path_clean_def is_abs_iff Let_def)

lemma is_abs_path_clean: "is_abs p \<Longrightarrow> is_abs (path_clean p)"
  by (simp add: path_clean_abs)

text \<open>The segments of a cleaned rooted path: an empty one for the root, then normal ones.\<close>

lemma split_path_clean:
  assumes "is_abs p"
  shows "split_on slash (path_clean p) =
    [] # (if clean_segs True (split_on slash p) = [] then [[]]
          else clean_segs True (split_on slash p))"
proof (cases "clean_segs True (split_on slash p) = []")
  case True
  with assms show ?thesis by (simp add: path_clean_abs)
next
  case False
  have "split_on slash (join_with ''/'' (clean_segs True (split_on slash p))) =
      clean_segs True (split_on slash p)"
    using False clean_segs_normal by (intro split_join_with) (auto simp: normal_seg_def)
  with False assms show ?thesis by (simp add: path_clean_abs)
qed

lemma normal_path_clean_id:
  assumes "\<forall>s \<in> set segs. normal_seg s"
  shows "path_clean (slash # join_with ''/'' segs) = slash # join_with ''/'' segs"
proof (cases "segs = []")
  case True
  then show ?thesis by (simp add: path_clean_def clean_segs_def clean_step_def)
next
  case False
  with assms have "split_on slash (join_with ''/'' segs) = segs"
    by (intro split_join_with) (auto simp: normal_seg_def)
  with assms show ?thesis
    by (simp add: path_clean_def clean_segs_skip clean_segs_id Let_def)
qed

lemma foldl_clean_subset: "set (foldl (clean_step True) stk segs) \<subseteq> set stk \<union> set segs"
proof (induction segs arbitrary: stk)
  case (Cons seg segs)
  have "set (clean_step True stk seg) \<subseteq> set stk \<union> {seg}" by (cases stk) (auto simp: clean_step_def)
  then show ?case using Cons [of "clean_step True stk seg"] by auto
qed simp

text \<open>A rooted path is cleaned to one that starts with a single slash, and no byte is made up.\<close>

lemma path_clean_rooted:
  assumes "is_abs p"
  obtains r where "path_clean p = slash # r" "r = [] \<or> hd r \<noteq> slash" "set r \<subseteq> set p"
proof
  let ?segs = "clean_segs True (split_on slash p)"
  show "path_clean p = slash # join_with ''/'' ?segs" using path_clean_abs [OF assms] .
  have normal: "\<forall>s \<in> set ?segs. normal_seg s" using clean_segs_normal by blast
  show "join_with ''/'' ?segs = [] \<or> hd (join_with ''/'' ?segs) \<noteq> slash"
  proof (cases ?segs)
    case (Cons seg segs)
    then have "seg \<noteq> []" "slash \<notin> set seg" using normal by (simp_all add: normal_seg_def)
    then show ?thesis unfolding Cons using hd_join_with [of seg "''/''" segs] by (cases seg) auto
  qed simp
  have "set ?segs \<subseteq> set (split_on slash p)"
    using foldl_clean_subset [of "[]" "split_on slash p"] by (simp add: clean_segs_def)
  moreover have "\<Union> (set ` set (split_on slash p)) \<subseteq> set p" using split_on_chars [of _ slash p] by auto
  moreover have "slash \<in> set p" using assms by (auto simp: is_abs_iff)
  ultimately show "set (join_with ''/'' ?segs) \<subseteq> set p"
    using set_join_with [of "''/''" ?segs] by simp blast
qed

lemma path_clean_idem_abs: "is_abs p \<Longrightarrow> path_clean (path_clean p) = path_clean p"
  using normal_path_clean_id [of "clean_segs True (split_on slash p)"] clean_segs_normal
  by (simp add: path_clean_abs)

lemma path_clean_no_dotdot:
  "is_abs p \<Longrightarrow> ''..'' \<notin> set (split_on slash (path_clean p))"
  using clean_segs_normal by (auto simp: split_path_clean normal_seg_def)

lemma path_join2_abs:
  "is_abs a \<Longrightarrow> path_join [a, b] = path_clean (a @ slash # b)"
  by (auto simp: path_join_def is_abs_iff)

lemma is_abs_path_join2: "is_abs a \<Longrightarrow> is_abs (path_join [a, b])"
  by (simp add: path_join2_abs is_abs_path_clean is_abs_append)

lemma path_join2_no_dotdot:
  "is_abs a \<Longrightarrow> ''..'' \<notin> set (split_on slash (path_join [a, b]))"
  by (simp add: path_join2_abs path_clean_no_dotdot is_abs_append)

lemma is_abs_path_dir:
  assumes "is_abs p"
  shows "is_abs (path_dir p)"
proof -
  obtain r where p: "p = slash # r" using assms by (auto simp: is_abs_iff)
  have "0 \<le> last_index slash p" using p last_index_ge [of slash r] by (auto simp: Let_def)
  then have "is_abs (take (nat (last_index slash p + 1)) p)"
    using p by (cases "nat (last_index slash p + 1)") auto
  then show ?thesis by (simp add: path_dir_def is_abs_path_clean)
qed

text \<open>Joining a child below a cleaned path, on segments.\<close>

lemma clean_segs_append:
  assumes "\<forall>s \<in> set xs. normal_seg s"
  shows "clean_segs r (xs @ ys) = rev (foldl (clean_step r) (rev xs) ys)"
  using assms by (simp add: clean_segs_def foldl_clean_id)

lemma path_join_normal:
  assumes "\<forall>s \<in> set segs. normal_seg s" and "normal_seg n"
  shows "path_join [slash # join_with ''/'' segs, n] = slash # join_with ''/'' (segs @ [n])"
proof -
  have "split_on slash (join_with ''/'' segs @ slash # n) =
      (if segs = [] then [[]] else segs) @ [n]"
    using assms by (auto simp: split_on_append normal_seg_def split_join_with)
  then have "clean_segs True (split_on slash (slash # join_with ''/'' segs @ slash # n)) =
      segs @ [n]"
    using assms by (auto simp: clean_segs_skip clean_segs_id)
  then show ?thesis
    by (simp add: path_join2_abs path_clean_abs)
qed

section \<open>Absolute paths by their segments\<close>

abbreviation abs_path :: "string list \<Rightarrow> string" where
  "abs_path segs \<equiv> slash # join_with ''/'' segs"

lemma split_abs_path:
  assumes "\<forall>s \<in> set segs. normal_seg s"
  shows "split_on slash (abs_path segs) = [] # (if segs = [] then [[]] else segs)"
  using assms by (auto simp: split_join_with normal_seg_def)

lemma join_normal_neq_Nil: "segs \<noteq> [] \<Longrightarrow> \<forall>s \<in> set segs. normal_seg s \<Longrightarrow> join_with sep segs \<noteq> []"
  using join_with_eq_Nil [of segs sep] by (auto simp: normal_seg_def)

lemma abs_path_root: "\<forall>s \<in> set segs. normal_seg s \<Longrightarrow> abs_path segs = ''/'' \<longleftrightarrow> segs = []"
  using join_normal_neq_Nil by auto

lemma path_dir_snoc:
  assumes "\<forall>s \<in> set segs. normal_seg s" and "normal_seg x"
  shows "path_dir (abs_path (segs @ [x])) = abs_path segs"
proof -
  have x: "slash \<notin> set x" using assms(2) by (simp add: normal_seg_def)
  show ?thesis
  proof (cases "segs = []")
    case True
    have "last_index slash (slash # x) = 0" using last_index_append [OF x, of "[]"] by simp
    then have "path_dir (slash # x) = path_clean ''/''" by (simp add: path_dir_def)
    also have "path_clean ''/'' = ''/''" by code_simp
    finally show ?thesis using True by simp
  next
    case False
    then have p: "abs_path (segs @ [x]) = abs_path segs @ slash # x"
      by (simp add: join_with_append)
    have "last_index slash (abs_path segs @ slash # x) = int (length (abs_path segs))"
      by (rule last_index_append [OF x])
    then have "path_dir (abs_path (segs @ [x])) = path_clean (abs_path segs @ ''/'')"
      by (simp add: path_dir_def p nat_add_distrib)
    also have "\<dots> = slash # join_with ''/'' (clean_segs True (split_on slash (abs_path segs) @ [[]]))"
      using split_on_append [of slash "abs_path segs" "[]"] by (simp add: path_clean_abs)
    also have "clean_segs True (split_on slash (abs_path segs) @ [[]]) = segs"
    proof -
      have "split_on slash (abs_path segs) = [] # segs"
        using split_abs_path [OF assms(1)] False by simp
      then show ?thesis
        using assms(1) by (simp only:) (simp add: clean_segs_def clean_step_def foldl_clean_id)
    qed
    finally show ?thesis .
  qed
qed

end
