(* ===== verification/Http.thy ===== *)
theory Http
  imports GoText GoPath
begin

text \<open>
  What the handlers use of net/http: a parsed request, the response written through a
  ResponseWriter, redirects and errors, and a handler as a function of the request and of the state
  behind it. Rendered pages are a type parameter.
\<close>

section \<open>Requests\<close>

text \<open>
  The query, body form, header and cookie pairs in the order of the request; \<open>rq_formErr\<close> is the
  error \<open>ParseForm\<close> returns; \<open>rq_pathValues\<close> are the wildcards the mux has matched.
\<close>

record request =
  rq_method :: string
  rq_path :: string
  rq_rawQuery :: string
  rq_query :: "(string \<times> string) list"
  rq_post :: "(string \<times> string) list"
  rq_formErr :: "string option"
  rq_header :: "(string \<times> string) list"
  rq_cookies :: "(string \<times> string) list"
  rq_pathValues :: "(string \<times> string) list"

definition first_value :: "(string \<times> string) list \<Rightarrow> string \<Rightarrow> string" where
  "first_value ps k = (case map_of ps k of None \<Rightarrow> [] | Some v \<Rightarrow> v)"

text \<open>\<open>r.Form\<close>: the body's values before those of the query.\<close>

definition form_values :: "request \<Rightarrow> (string \<times> string) list" where
  "form_values r = rq_post r @ rq_query r"

definition FormValue :: "request \<Rightarrow> string \<Rightarrow> string" where
  "FormValue r k = first_value (form_values r) k"

definition FormAll :: "request \<Rightarrow> string \<Rightarrow> string list" where
  "FormAll r k = map snd (filter (\<lambda>(k', v). k' = k) (form_values r))"

definition QueryGet :: "request \<Rightarrow> string \<Rightarrow> string" where
  "QueryGet r k = first_value (rq_query r) k"

definition HeaderGet :: "request \<Rightarrow> string \<Rightarrow> string" where
  "HeaderGet r k = first_value (rq_header r) k"

definition PathValue :: "request \<Rightarrow> string \<Rightarrow> string" where
  "PathValue r k = first_value (rq_pathValues r) k"

definition Cookie :: "request \<Rightarrow> string \<Rightarrow> string option" where
  "Cookie r name = map_of (rq_cookies r) name"

section \<open>Responses\<close>

record set_cookie =
  ck_name :: string
  ck_value :: string
  ck_path :: string
  ck_maxAge :: int
  ck_httpOnly :: bool
  ck_secure :: bool
  ck_sameSiteStrict :: bool

text \<open>
  The body is what the handler writes; in the answer to a HEAD request the server does not send it
  (\<open>write_bytes\<close> in Middleware.thy).
\<close>

datatype 'p body =
    NoBody
  | Text string
  | Page 'p

record 'p response =
  rs_status :: int
  rs_header :: "(string \<times> string) list"
  rs_cookies :: "set_cookie list"
  rs_body :: "'p body"

text \<open>A pattern with a method GET also matches HEAD.\<close>

definition is_get :: "string \<Rightarrow> bool" where
  "is_get m \<longleftrightarrow> m = ''GET'' \<or> m = ''HEAD''"

subsection \<open>Redirects\<close>

text \<open>
  \<open>http.Redirect\<close>, for the rooted locations without a host that are all the program gives it. Where
  \<open>url.Parse\<close> accepts the location, its path is cleaned, with a trailing slash kept; it refuses control
  characters, and percent signs that do not start an escape in the path or in the fragment.
\<close>

definition url_control :: "char \<Rightarrow> bool" where
  "url_control c \<longleftrightarrow> of_char c < (32 :: nat) \<or> of_char c = (127 :: nat)"

definition is_hex :: "char \<Rightarrow> bool" where
  "is_hex c \<longleftrightarrow> c \<in> set ''0123456789abcdefABCDEF''"

fun escapes_ok :: "string \<Rightarrow> bool" where
  "escapes_ok [] = True"
| "escapes_ok (c # s) =
     (if c = CHR ''%''
      then (case s of a # b # s' \<Rightarrow> is_hex a \<and> is_hex b \<and> escapes_ok s' | _ \<Rightarrow> False)
      else escapes_ok s)"

definition until_char :: "char \<Rightarrow> string \<Rightarrow> string" where
  "until_char c s = takeWhile (\<lambda>x. x \<noteq> c) s"

definition from_char :: "char \<Rightarrow> string \<Rightarrow> string" where
  "from_char c s = dropWhile (\<lambda>x. x \<noteq> c) s"

definition url_parses :: "string \<Rightarrow> bool" where
  "url_parses url \<longleftrightarrow>
     (\<forall>c \<in> set url. \<not> url_control c) \<and>
     escapes_ok (until_char CHR ''?'' (until_char CHR ''#'' url)) \<and> escapes_ok (from_char CHR ''#'' url)"

definition redirect_location :: "string \<Rightarrow> string" where
  "redirect_location url =
     (if url_parses url
      then (let p = until_char CHR ''?'' url; clean = path_clean p in
            (if has_suffix p ''/'' \<and> \<not> has_suffix clean ''/'' then clean @ ''/'' else clean) @ from_char CHR ''?'' url)
      else url)"

text \<open>Bytes that are not ASCII are escaped with small digits.\<close>

definition hex_lower :: "nat \<Rightarrow> char" where
  "hex_lower n = ''0123456789abcdef'' ! n"

definition hexEscapeNonASCII :: "string \<Rightarrow> string" where
  "hexEscapeNonASCII s =
     concat (map (\<lambda>c. let n = of_char c :: nat in
       if 128 \<le> n then [CHR ''%'', hex_lower (n div 16), hex_lower (n mod 16)] else [c]) s)"

definition htmlEscape :: "string \<Rightarrow> string" where
  "htmlEscape s =
     concat (map (\<lambda>c. if c = CHR ''&'' then ''&amp;'' else if c = CHR ''<'' then ''&lt;'' else if c = CHR ''>'' then ''&gt;''
       else if c = CHR 0x22 then ''&#34;'' else if c = CHR 0x27 then ''&#39;'' else [c]) s)"

definition StatusText :: "int \<Rightarrow> string" where
  "StatusText code =
     (if code = 303 then ''See Other'' else if code = 307 then ''Temporary Redirect'' else [])"

definition redirect :: "request \<Rightarrow> int \<Rightarrow> string \<Rightarrow> 'p response" where
  "redirect r code url =
     (let loc = redirect_location url in
      \<lparr>rs_status = code,
       rs_header = (''Location'', hexEscapeNonASCII loc) #
         (if is_get (rq_method r) then [(''Content-Type'', ''text/html; charset=utf-8'')] else []),
       rs_cookies = [],
       rs_body = (if rq_method r = ''GET''
         then Text (''<a href='' @ [CHR 0x22] @ htmlEscape loc @ [CHR 0x22] @ ''>'' @ StatusText code @ ''</a>.'' @ [CHR 0x0A, CHR 0x0A])
         else NoBody)\<rparr>)"

text \<open>\<open>http.Error\<close> writes the message as a line.\<close>

definition http_error :: "int \<Rightarrow> string \<Rightarrow> 'p response" where
  "http_error status msg =
     \<lparr>rs_status = status, rs_header = [(''Content-Type'', ''text/plain; charset=utf-8''), (''X-Content-Type-Options'', ''nosniff'')],
      rs_cookies = [], rs_body = Text (msg @ [CHR 0x0A])\<rparr>"

type_synonym ('p, 'w) handler = "request \<Rightarrow> 'w \<Rightarrow> 'p response \<times> 'w"

lemma redirect_simps [simp]:
  "rs_status (redirect r code url) = code" "rs_cookies (redirect r code url) = []" "rs_body (redirect r code url) \<noteq> Page p"
  "map_of (rs_header (redirect r code url)) ''Location'' = Some (hexEscapeNonASCII (redirect_location url))"
  by (simp_all add: redirect_def Let_def)

lemma redirect_cong: "rq_method r = rq_method r' \<Longrightarrow> redirect r code url = redirect r' code url"
  by (simp add: redirect_def)

lemma http_error_simps [simp]:
  "rs_status (http_error status msg) = status" "rs_body (http_error status msg) = Text (msg @ [CHR 0x0A])"
  "rs_cookies (http_error status msg) = []"
  by (simp_all add: http_error_def)

end
