(* ===== verification/Auth.thy ===== *)
theory Auth
  imports Http
begin

text \<open>
  internal/auth: HMAC-signed session cookies (session.go), the login handler and the gate in front
  of every authenticated route (auth.go). HMAC-SHA256 is a parameter, a function of the secret and
  the message; the random bytes and the clock are arguments.
\<close>

section \<open>Sessions\<close>

record session_store =
  ss_secret :: string
  ss_ttl :: duration

type_synonym mac = "string \<Rightarrow> string \<Rightarrow> string"

definition minSecretBytes :: nat where
  "minSecretBytes = 16"

text \<open>\<open>None\<close> is the panic on a short secret.\<close>

definition NewSessionStore :: "string \<Rightarrow> duration \<Rightarrow> session_store option" where
  "NewSessionStore secret ttl =
     (if length secret < minSecretBytes then None else Some \<lparr>ss_secret = secret, ss_ttl = ttl\<rparr>)"

definition sign :: "mac \<Rightarrow> session_store \<Rightarrow> string \<Rightarrow> string \<Rightarrow> string" where
  "sign hmac s idB64 tsB64 = hmac (ss_secret s) (idB64 @ ''.'' @ tsB64)"

text \<open>
  Go's time zero is the year 1; \<open>t.Unix()\<close> counts seconds from 1970. \<open>time.Unix(sec, 0)\<close> wraps the
  seconds to an int64, \<open>Add\<close> saturates them.
\<close>

definition unix_to_internal :: int where
  "unix_to_internal = 62135596800"

definition unix_of :: "gotime \<Rightarrow> int" where
  "unix_of t = t div Second - unix_to_internal"

definition wrap_i64 :: "int \<Rightarrow> int" where
  "wrap_i64 x = (x + 2 ^ 63) mod 2 ^ 64 - 2 ^ 63"

definition time_unix :: "int \<Rightarrow> gotime" where
  "time_unix sec = wrap_i64 (sec + unix_to_internal) * Second"

definition time_add :: "gotime \<Rightarrow> duration \<Rightarrow> gotime" where
  "time_add t d =
     (let sec = t div Second + (t mod Second + d) div Second
      in max min_i64 (min max_i64 sec) * Second + (t mod Second + d) mod Second)"

definition Issue :: "mac \<Rightarrow> session_store \<Rightarrow> string option \<Rightarrow> gotime \<Rightarrow> (string \<times> string) option" where
  "Issue hmac s rand now =
     (case rand of
        None \<Rightarrow> None
      | Some idBytes \<Rightarrow>
          (let idB64 = b64_encode idBytes; tsB64 = b64_encode (int_str (unix_of now))
           in Some (idB64, idB64 @ ''.'' @ tsB64 @ ''.'' @ b64_encode (sign hmac s idB64 tsB64))))"

definition expired :: "session_store \<Rightarrow> gotime \<Rightarrow> int \<Rightarrow> bool" where
  "expired s now issuedUnix \<longleftrightarrow> ss_ttl s > 0 \<and> now > time_add (time_unix issuedUnix) (ss_ttl s)"

definition Verify :: "mac \<Rightarrow> session_store \<Rightarrow> gotime \<Rightarrow> string \<Rightarrow> bool" where
  "Verify hmac s now cookie =
     (case split_on dot cookie of
        [idB64, tsB64, sigB64] \<Rightarrow>
          (case b64_decode sigB64 of
             None \<Rightarrow> False
           | Some gotSig \<Rightarrow>
               if gotSig \<noteq> sign hmac s idB64 tsB64 then False
               else (case b64_decode tsB64 of
                       None \<Rightarrow> False
                     | Some tsRaw \<Rightarrow>
                         (case parse_int tsRaw of
                            None \<Rightarrow> False
                          | Some issuedUnix \<Rightarrow> \<not> expired s now issuedUnix)))
      | _ \<Rightarrow> False)"

definition CSRFToken :: "mac \<Rightarrow> session_store \<Rightarrow> string \<Rightarrow> string" where
  "CSRFToken hmac s cookieValue = b64_encode (hmac (ss_secret s) (''csrf:'' @ cookieValue))"

definition VerifyCSRF :: "mac \<Rightarrow> session_store \<Rightarrow> string \<Rightarrow> string \<Rightarrow> bool" where
  "VerifyCSRF hmac s cookieValue token \<longleftrightarrow> CSRFToken hmac s cookieValue = token"

section \<open>Authenticator\<close>

record authenticator =
  au_username :: string
  au_password :: string
  au_sessions :: session_store
  au_cookieName :: string

definition NewAuthenticator :: "string \<Rightarrow> string \<Rightarrow> session_store \<Rightarrow> string \<Rightarrow> authenticator" where
  "NewAuthenticator username password sessions cookieName =
     \<lparr>au_username = username, au_password = password, au_sessions = sessions, au_cookieName = cookieName\<rparr>"

text \<open>\<open>int(d.Seconds())\<close>: whole seconds, towards zero.\<close>

definition int_seconds :: "duration \<Rightarrow> int" where
  "int_seconds d = (if d \<ge> 0 then d div Second else - ((- d) div Second))"

text \<open>The response, and the label of \<open>LoginAttemptsTotal\<close> that is incremented, if any.\<close>

definition HandleLogin ::
  "mac \<Rightarrow> authenticator \<Rightarrow> string option \<Rightarrow> gotime \<Rightarrow> request \<Rightarrow> 'p response \<times> string option" where
  "HandleLogin hmac a rand now r =
     (case rq_formErr r of
        Some e \<Rightarrow> (http_error 400 ''bad form'', None)
      | None \<Rightarrow>
          (if FormValue r ''username'' \<noteq> au_username a \<or> FormValue r ''password'' \<noteq> au_password a
           then (http_error 401 ''invalid credentials'', Some ''failure'')
           else (case Issue hmac (au_sessions a) rand now of
                   None \<Rightarrow> (http_error 500 ''internal'', Some ''error'')
                 | Some (sid, cookie) \<Rightarrow>
                     ((redirect r 303 ''/sessions'')\<lparr>rs_cookies :=
                        [\<lparr>ck_name = au_cookieName a, ck_value = cookie, ck_path = ''/'',
                          ck_maxAge = int_seconds (ss_ttl (au_sessions a)), ck_httpOnly = True, ck_secure = True,
                          ck_sameSiteStrict = True\<rparr>]\<rparr>,
                      Some ''success''))))"

definition isUnsafeMethod :: "string \<Rightarrow> bool" where
  "isUnsafeMethod m \<longleftrightarrow> m \<in> {''POST'', ''PUT'', ''PATCH'', ''DELETE''}"

text \<open>The token of a request: the header, or the form field when the header is empty.\<close>

definition csrf_of :: "request \<Rightarrow> string" where
  "csrf_of r =
     (let token = HeaderGet r ''X-CSRF-Token'' in if token = [] then FormValue r ''csrf_token'' else token)"

text \<open>
  Looking for the token in the form parses it. A later \<open>ParseForm\<close> of the same request finds the form
  there and returns no error.
\<close>

definition csrf_parsed :: "request \<Rightarrow> request" where
  "csrf_parsed r =
     (if isUnsafeMethod (rq_method r) \<and> HeaderGet r ''X-CSRF-Token'' = [] then r\<lparr>rq_formErr := None\<rparr> else r)"

definition RequireAuth ::
  "mac \<Rightarrow> authenticator \<Rightarrow> gotime \<Rightarrow> ('p, 'w) handler \<Rightarrow> ('p, 'w) handler" where
  "RequireAuth hmac a now next_handler r w =
     (case Cookie r (au_cookieName a) of
        None \<Rightarrow> (redirect r 303 ''/login'', w)
      | Some c \<Rightarrow>
          (if \<not> Verify hmac (au_sessions a) now c then (redirect r 303 ''/login'', w)
           else if isUnsafeMethod (rq_method r) \<and> \<not> VerifyCSRF hmac (au_sessions a) c (csrf_of r)
           then (http_error 403 ''invalid or missing CSRF token'', w)
           else next_handler (csrf_parsed r) w))"

definition RequestCSRFToken :: "mac \<Rightarrow> authenticator \<Rightarrow> request \<Rightarrow> string" where
  "RequestCSRFToken hmac a r =
     (case Cookie r (au_cookieName a) of
        None \<Rightarrow> []
      | Some c \<Rightarrow> CSRFToken hmac (au_sessions a) c)"

section \<open>Cookies\<close>

lemma split_three:
  "dot \<notin> set a \<Longrightarrow> dot \<notin> set b \<Longrightarrow> dot \<notin> set c \<Longrightarrow> split_on dot (a @ ''.'' @ b @ ''.'' @ c) = [a, b, c]"
  by (simp add: split_on_sep_Cons)

text \<open>The shape of a cookie: three parts without a dot, the last the encoding of the MAC of the others.\<close>

lemma Verify_cookie:
  assumes "dot \<notin> set i" "dot \<notin> set ts"
  shows "Verify hmac s now (i @ ''.'' @ ts @ ''.'' @ b64_encode (sign hmac s i ts)) \<longleftrightarrow>
    (\<exists>raw n. b64_decode ts = Some raw \<and> parse_int raw = Some n \<and> \<not> expired s now n)"
  using split_three [OF assms b64_encode_no_dot] 
  by (simp add: Verify_def b64_decode_encode split: option.splits)

lemma VerifyE:
  assumes "Verify hmac s now cookie"
  obtains i ts sg raw n where "cookie = i @ ''.'' @ ts @ ''.'' @ sg" "dot \<notin> set i" "dot \<notin> set ts" "dot \<notin> set sg"
    "b64_decode sg = Some (hmac (ss_secret s) (i @ ''.'' @ ts))"
    "b64_decode ts = Some raw" "parse_int raw = Some n" "\<not> expired s now n"
proof -
  from assms obtain i ts sg where sp: "split_on dot cookie = [i, ts, sg]"
    by (auto simp: Verify_def split: list.splits)
  have "cookie = join_with [dot] [i, ts, sg]" using join_split_on [of dot cookie] sp by simp
  then have c: "cookie = i @ ''.'' @ ts @ ''.'' @ sg" by simp
  have "dot \<notin> set p" if "p \<in> {i, ts, sg}" for p
    using split_on_no_sep [of p dot cookie] that sp by auto
  moreover from assms sp obtain raw n where "b64_decode sg = Some (hmac (ss_secret s) (i @ ''.'' @ ts))"
    "b64_decode ts = Some raw" "parse_int raw = Some n" "\<not> expired s now n"
    by (auto simp: Verify_def sign_def split: option.splits if_splits)
  ultimately show thesis using that [of i ts sg raw n] c by auto
qed

lemma unix_of_range: "min_i64 \<le> unix_of t" "unix_of t \<le> max_i64"
  if "0 \<le> t" "t \<le> max_i64 * Second" for t
  using that by (auto simp: unix_of_def unix_to_internal_def min_i64_def max_i64_def)

lemma time_unix_of:
  assumes "0 \<le> t" "t \<le> max_i64 * Second"
  shows "time_unix (unix_of t) = t div Second * Second"
proof -
  have "0 \<le> t div Second" "t div Second \<le> max_i64" using assms by (auto simp: max_i64_def)
  then have "wrap_i64 (t div Second) = t div Second" by (simp add: wrap_i64_def max_i64_def)
  then show ?thesis by (simp add: time_unix_def unix_of_def)
qed

lemma time_add_seconds:
  assumes "0 \<le> k" "k \<le> 2 ^ 62" "0 < d" "d \<le> max_i64"
  shows "time_add (k * Second) d = k * Second + d"
proof -
  have "d div Second \<le> max_i64 div Second" using assms(4) by (intro zdiv_mono1) auto
  then have le: "k + d div Second \<le> max_i64" using assms(2) by (simp add: max_i64_def)
  have ge: "min_i64 \<le> k + d div Second" using assms(1,3) by (simp add: min_i64_def pos_imp_zdiv_nonneg_iff)
  have "time_add (k * Second) d = (k + d div Second) * Second + d mod Second"
    using le ge by (simp add: time_add_def Let_def)
  then show ?thesis by (simp add: distrib_right)
qed

text \<open>Expiry of a cookie issued at \<open>t\<close>, a time whose seconds lie well inside an int64.\<close>

definition sane_time :: "gotime \<Rightarrow> bool" where
  "sane_time t \<longleftrightarrow> 0 \<le> t \<and> t \<le> 2 ^ 62 * Second"

definition alive :: "session_store \<Rightarrow> gotime \<Rightarrow> gotime \<Rightarrow> bool" where
  "alive s issued now \<longleftrightarrow> ss_ttl s \<le> 0 \<or> now \<le> issued div Second * Second + ss_ttl s"

lemma expired_iff:
  assumes "sane_time t" "ss_ttl s \<le> max_i64"
  shows "expired s now (unix_of t) \<longleftrightarrow> \<not> alive s t now"
proof -
  have "time_unix (unix_of t) = t div Second * Second"
    using assms(1) by (intro time_unix_of) (auto simp: sane_time_def max_i64_def)
  moreover have "0 \<le> t div Second" "t div Second \<le> 2 ^ 62" using assms(1) by (auto simp: sane_time_def)
  ultimately show ?thesis
    using time_add_seconds [of "t div Second" "ss_ttl s"] assms(2) by (auto simp: expired_def alive_def)
qed

lemma parse_timestamp:
  "sane_time t \<Longrightarrow> b64_decode (b64_encode (int_str (unix_of t))) = Some (int_str (unix_of t)) \<and>
     parse_int (int_str (unix_of t)) = Some (unix_of t)"
  using unix_of_range [of t] by (simp add: b64_decode_encode parse_int_str sane_time_def max_i64_def)

lemma Issue_cookie:
  "Issue hmac s (Some idb) t =
     Some (b64_encode idb, b64_encode idb @ ''.'' @ b64_encode (int_str (unix_of t)) @ ''.'' @
       b64_encode (sign hmac s (b64_encode idb) (b64_encode (int_str (unix_of t)))))"
  by (simp add: Issue_def Let_def)

lemma Verify_timestamp:
  assumes "dot \<notin> set i" "sane_time t" "ss_ttl s \<le> max_i64"
  shows "Verify hmac s now (i @ ''.'' @ b64_encode (int_str (unix_of t)) @ ''.'' @
      b64_encode (sign hmac s i (b64_encode (int_str (unix_of t))))) \<longleftrightarrow> alive s t now"
  using Verify_cookie [OF assms(1) b64_encode_no_dot, of hmac s now "int_str (unix_of t)"]
    parse_timestamp [OF assms(2)] expired_iff [OF assms(2,3)] by simp

lemma Verify_issued:
  assumes "sane_time t" "ss_ttl s \<le> max_i64" "Issue hmac s (Some idb) t = Some (sid, cookie)"
  shows "Verify hmac s now cookie \<longleftrightarrow> alive s t now"
  using Verify_timestamp [OF b64_encode_no_dot assms(1,2)] assms(3) by (simp add: Issue_cookie) blast

section \<open>The gate\<close>

text \<open>
  A gate in front of handlers: it passes the requests it allows, in the form it has \<open>seen\<close> them, and
  answers the others itself, without touching the state. Requests that are not allowed then have no
  effect on the others.
\<close>

fun serve_all :: "('p, 'w) handler \<Rightarrow> request list \<Rightarrow> 'w \<Rightarrow> 'w" where
  "serve_all h [] w = w"
| "serve_all h (r # rs) w = serve_all h rs (snd (h r w))"

locale request_gate =
  fixes gate :: "('p, 'w) handler \<Rightarrow> ('p, 'w) handler"
    and allowed :: "request \<Rightarrow> bool"
    and seen :: "request \<Rightarrow> request"
  assumes passes: "allowed r \<Longrightarrow> gate h r w = h (seen r) w"
    and stops: "\<not> allowed r \<Longrightarrow> snd (gate h r w) = w \<and> fst (gate h r w) = fst (gate h' r w')"
begin

lemma stopped_invisible: "serve_all (gate h) rs w = serve_all h (map seen (filter allowed rs)) w"
  by (induction rs arbitrary: w) (simp_all add: passes stops)

lemma gate_preserves:
  "(\<And>r w. allowed r \<Longrightarrow> I w \<Longrightarrow> I (snd (h (seen r) w))) \<Longrightarrow> I w \<Longrightarrow> I (serve_all (gate h) rs w)"
  unfolding stopped_invisible by (induction rs arbitrary: w) auto

end

definition authorized :: "mac \<Rightarrow> authenticator \<Rightarrow> gotime \<Rightarrow> request \<Rightarrow> bool" where
  "authorized hmac a now r \<longleftrightarrow>
     (case Cookie r (au_cookieName a) of
        None \<Rightarrow> False
      | Some c \<Rightarrow> Verify hmac (au_sessions a) now c \<and>
          (isUnsafeMethod (rq_method r) \<longrightarrow> CSRFToken hmac (au_sessions a) c = csrf_of r))"

interpretation auth_gate: request_gate "RequireAuth hmac a now" "authorized hmac a now" csrf_parsed for hmac a now
  by unfold_locales (auto simp: RequireAuth_def authorized_def VerifyCSRF_def split: option.splits)

section \<open>Properties\<close>

text \<open>
  A cookie the store has issued is accepted exactly until its lifetime is over, counted from
  the whole second of its issue; with a lifetime that is not positive it never expires.
\<close>

lemma issued_cookie_lifetime:
  assumes "0 \<le> t" "t \<le> 2 ^ 62 * Second" "ss_ttl s \<le> max_i64"
    and "Issue hmac s (Some idb) t = Some (sid, cookie)"
  shows "Verify hmac s now cookie \<longleftrightarrow> ss_ttl s \<le> 0 \<or> now \<le> t div Second * Second + ss_ttl s"
  using Verify_issued [OF _ assms(3,4)] assms(1,2) by (simp add: sane_time_def alive_def)

definition demo_store :: session_store where
  "demo_store = \<lparr>ss_secret = ''0123456789abcdef'', ss_ttl = 8 * Hour\<rparr>"

lemma issued_cookie_lifetime_witness:
  "Verify (\<lambda>k m. k @ m) demo_store (70 * Second + 8 * Hour)
     (snd (the (Issue (\<lambda>k m. k @ m) demo_store (Some ''id'') (70 * Second + 5)))) \<and>
   \<not> Verify (\<lambda>k m. k @ m) demo_store (71 * Second + 8 * Hour)
     (snd (the (Issue (\<lambda>k m. k @ m) demo_store (Some ''id'') (70 * Second + 5))))"
proof -
  have i: "Issue (\<lambda>k m. k @ m) demo_store (Some ''id'') (70 * Second + 5) =
      Some (fst (the (Issue (\<lambda>k m. k @ m) demo_store (Some ''id'') (70 * Second + 5))),
            snd (the (Issue (\<lambda>k m. k @ m) demo_store (Some ''id'') (70 * Second + 5))))"
    by (simp add: Issue_cookie)
  show ?thesis
    using issued_cookie_lifetime [OF _ _ _ i, of "70 * Second + 8 * Hour"]
      issued_cookie_lifetime [OF _ _ _ i, of "71 * Second + 8 * Hour"]
    by (simp add: demo_store_def max_i64_def)
qed

definition signed_messages :: "(string \<times> gotime) set \<Rightarrow> string set \<Rightarrow> string set" where
  "signed_messages issued shown =
     {b64_encode idb @ ''.'' @ b64_encode (int_str (unix_of t)) | idb t. (idb, t) \<in> issued} \<union>
     {''csrf:'' @ c | c. c \<in> shown}"

lemma split_two: "dot \<notin> set a \<Longrightarrow> dot \<notin> set b \<Longrightarrow> split_on dot (a @ ''.'' @ b) = [a, b]"
  by (simp add: split_on_sep_Cons)

lemma message_inj:
  "dot \<notin> set a \<Longrightarrow> dot \<notin> set b \<Longrightarrow> dot \<notin> set a' \<Longrightarrow> dot \<notin> set b' \<Longrightarrow>
     a @ ''.'' @ b = a' @ ''.'' @ b' \<Longrightarrow> a = a' \<and> b = b'"
  using split_two [of a b] split_two [of a' b'] by simp

text \<open>A message signed for a cookie has one dot, one signed for the token of an accepted cookie has two.\<close>

lemma csrf_message_differs:
  assumes "Verify hmac s now c" "dot \<notin> set i" "dot \<notin> set ts"
  shows "''csrf:'' @ c \<noteq> i @ ''.'' @ ts"
proof
  assume eq: "''csrf:'' @ c = i @ ''.'' @ ts"
  obtain i' ts' sg where c: "c = i' @ ''.'' @ ts' @ ''.'' @ sg" "dot \<notin> set i'" "dot \<notin> set ts'" "dot \<notin> set sg"
    using assms(1) by (rule VerifyE)
  have "''csrf:'' @ c = (''csrf:'' @ i') @ ''.'' @ ts' @ ''.'' @ sg" using c(1) by simp
  moreover have "dot \<notin> set (''csrf:'' @ i')" using c(2) by simp
  ultimately have "split_on dot (''csrf:'' @ c) = [''csrf:'' @ i', ts', sg]"
    using split_three [OF _ c(3,4)] by (simp only:)
  then show False unfolding eq split_two [OF assms(2,3)] by (simp only: list.inject list.distinct simp_thms)
qed

lemma split_three_inv:
  assumes "split_on dot (i @ ''.'' @ ts @ ''.'' @ sg) = [a, b, c]"
  shows "i = a" "ts = b" "sg = c"
proof -
  have e: "split_on dot i @ split_on dot ts @ split_on dot sg = [a, b, c]"
    using assms by (simp add: split_on_append)
  obtain x xs y ys z zs where p: "split_on dot i = x # xs" "split_on dot ts = y # ys" "split_on dot sg = z # zs"
    by (metis neq_Nil_conv split_on_neq_Nil)
  have "xs = []" "ys = []" "zs = []" "x = a" "y = b" "z = c"
    using e unfolding p by (auto simp: append_eq_Cons_conv Cons_eq_append_conv)
  then show "i = a" "ts = b" "sg = c"
    using p join_split_on [of dot i] join_split_on [of dot ts] join_split_on [of dot sg] by simp_all
qed

text \<open>
  C6: whoever cannot compute the MAC of a message the server has not signed has no other session
  than an issued one. If the MAC in an accepted cookie is that of a message signed for an issued
  cookie or for the CSRF token of a cookie accepted before, then the cookie carries the identifier
  and the issue time of an issued cookie, and its lifetime is not over: CSRF tokens are of no use.
\<close>

theorem accepted_cookie_was_issued:
  assumes "Verify hmac s now cookie"
    and "\<And>i ts sg. cookie = i @ ''.'' @ ts @ ''.'' @ sg \<Longrightarrow>
      b64_decode sg = Some (hmac (ss_secret s) (i @ ''.'' @ ts)) \<Longrightarrow> i @ ''.'' @ ts \<in> signed_messages issued shown"
    and "\<forall>(idb, t) \<in> issued. sane_time t" and "\<forall>c \<in> shown. \<exists>t. Verify hmac s t c" and "ss_ttl s \<le> max_i64"
  shows "\<exists>idb t sg. (idb, t) \<in> issued \<and>
    cookie = b64_encode idb @ ''.'' @ b64_encode (int_str (unix_of t)) @ ''.'' @ sg \<and> alive s t now"
proof -
  obtain i ts sg raw n where c: "cookie = i @ ''.'' @ ts @ ''.'' @ sg" "dot \<notin> set i" "dot \<notin> set ts"
    "b64_decode sg = Some (hmac (ss_secret s) (i @ ''.'' @ ts))"
    "b64_decode ts = Some raw" "parse_int raw = Some n" "\<not> expired s now n"
    using assms(1) by (rule VerifyE)
  have "i @ ''.'' @ ts \<notin> {''csrf:'' @ c | c. c \<in> shown}"
    using assms(4) csrf_message_differs [OF _ c(2,3)] by fastforce
  then obtain idb t where it: "(idb, t) \<in> issued" "i @ ''.'' @ ts = b64_encode idb @ ''.'' @ b64_encode (int_str (unix_of t))"
    using assms(2) [OF c(1,4)] unfolding signed_messages_def by blast
  have eqs: "i = b64_encode idb" "ts = b64_encode (int_str (unix_of t))"
    using message_inj [OF c(2,3) b64_encode_no_dot b64_encode_no_dot it(2)] by auto
  have sane: "sane_time t" using assms(3) it(1) by auto
  have "n = unix_of t" using c(5,6) parse_timestamp [OF sane] unfolding eqs by simp
  then have "alive s t now" using c(7) expired_iff [OF sane assms(5)] by simp
  then show ?thesis using it(1) c(1) unfolding eqs by blast
qed

theorem accepted_cookie_was_issued_witness:
  "\<exists>idb t sg. (idb, t) \<in> {(''id'', 0)} \<and>
    snd (the (Issue (\<lambda>k m. k @ m) demo_store (Some ''id'') 0)) =
      b64_encode idb @ ''.'' @ b64_encode (int_str (unix_of t)) @ ''.'' @ sg \<and> alive demo_store t 0"
proof (rule accepted_cookie_was_issued [where hmac = "\<lambda>k m. k @ m" and shown = "{}"])
  let ?cookie = "snd (the (Issue (\<lambda>k m. k @ m) demo_store (Some ''id'') 0))"
  show "Verify (\<lambda>k m. k @ m) demo_store 0 ?cookie"
    using Verify_issued [of 0 demo_store "\<lambda>k m. k @ m" "''id''" _ _ 0]
    by (simp add: Issue_cookie sane_time_def alive_def demo_store_def max_i64_def)
next
  fix i ts sg
  assume h: "snd (the (Issue (\<lambda>k m. k @ m) demo_store (Some ''id'') 0)) = i @ ''.'' @ ts @ ''.'' @ sg"
  have "split_on dot (i @ ''.'' @ ts @ ''.'' @ sg) =
      [b64_encode ''id'', b64_encode (int_str (unix_of 0)),
       b64_encode (sign (\<lambda>k m. k @ m) demo_store (b64_encode ''id'') (b64_encode (int_str (unix_of 0))))]"
    unfolding h [symmetric] Issue_cookie option.sel snd_conv by (rule split_three) (rule b64_encode_no_dot)+
  then show "i @ ''.'' @ ts \<in> signed_messages {(''id'', 0)} {}"
    using split_three_inv unfolding signed_messages_def by blast
qed (simp_all add: sane_time_def demo_store_def max_i64_def)

text \<open>
  The CSRF token of a string that is not a session cookie can be the signature of one. For every
  \<open>x\<close> without a dot, the token of \<open>x.ts\<close>, which the store derives without checking its argument,
  completes an accepted cookie of the identifier \<open>csrf:x\<close> and any chosen issue time; only the gate,
  which refuses \<open>x.ts\<close> as a cookie, keeps such tokens from being shown.
\<close>

lemma unchecked_csrf_token_forges:
  assumes "dot \<notin> set x" "0 \<le> t" "t \<le> 2 ^ 62 * Second" "ss_ttl s \<le> max_i64"
  shows "(Verify hmac s now ((''csrf:'' @ x) @ ''.'' @ b64_encode (int_str (unix_of t)) @ ''.'' @
        CSRFToken hmac s (x @ ''.'' @ b64_encode (int_str (unix_of t)))) \<longleftrightarrow>
      ss_ttl s \<le> 0 \<or> now \<le> t div Second * Second + ss_ttl s) \<and>
    \<not> Verify hmac s now' (x @ ''.'' @ b64_encode (int_str (unix_of t)))"
proof
  have "CSRFToken hmac s (x @ ''.'' @ b64_encode (int_str (unix_of t))) =
      b64_encode (sign hmac s (''csrf:'' @ x) (b64_encode (int_str (unix_of t))))"
    by (simp add: CSRFToken_def sign_def)
  moreover have "dot \<notin> set (''csrf:'' @ x)" using assms(1) by simp
  ultimately show "Verify hmac s now ((''csrf:'' @ x) @ ''.'' @ b64_encode (int_str (unix_of t)) @ ''.'' @
        CSRFToken hmac s (x @ ''.'' @ b64_encode (int_str (unix_of t)))) \<longleftrightarrow>
      ss_ttl s \<le> 0 \<or> now \<le> t div Second * Second + ss_ttl s"
    using Verify_timestamp [of "''csrf:'' @ x" t s hmac now] assms(2-4) unfolding sane_time_def alive_def by simp
  show "\<not> Verify hmac s now' (x @ ''.'' @ b64_encode (int_str (unix_of t)))"
    using split_two [OF assms(1) b64_encode_no_dot] by (simp add: Verify_def)
qed

lemma unchecked_csrf_token_forges_witness:
  "Verify (\<lambda>k m. k @ m) demo_store Hour ((''csrf:'' @ ''me'') @ ''.'' @ b64_encode (int_str (unix_of 0)) @ ''.'' @
     CSRFToken (\<lambda>k m. k @ m) demo_store (''me'' @ ''.'' @ b64_encode (int_str (unix_of 0)))) = (Hour \<le> 8 * Hour)"
  using unchecked_csrf_token_forges [of "''me''" 0 demo_store "\<lambda>k m. k @ m" Hour Hour]
  by (simp add: demo_store_def max_i64_def)

text \<open>
  C7: signing in with the configured account gives one cookie, HttpOnly, Secure and SameSite strict,
  with which every safe request reaches the handlers behind the gate until the session's lifetime is
  over and is sent to the login page afterwards; any other credentials give no cookie and status 401.
\<close>

theorem login_opens_gate:
  assumes "rq_formErr r = None" "0 \<le> t" "t \<le> 2 ^ 62 * Second" "ss_ttl (au_sessions a) \<le> max_i64"
  shows "if FormValue r ''username'' = au_username a \<and> FormValue r ''password'' = au_password a
    then \<exists>ck. rs_cookies (fst (HandleLogin hmac a (Some idb) t r)) = [ck] \<and> ck_name ck = au_cookieName a \<and>
           ck_httpOnly ck \<and> ck_secure ck \<and> ck_sameSiteStrict ck \<and>
           (\<forall>r' now next_handler w.
              Cookie r' (au_cookieName a) = Some (ck_value ck) \<and> \<not> isUnsafeMethod (rq_method r') \<longrightarrow>
              RequireAuth hmac a now next_handler r' w =
                (if ss_ttl (au_sessions a) \<le> 0 \<or> now \<le> t div Second * Second + ss_ttl (au_sessions a)
                 then next_handler r' w else (redirect r' 303 ''/login'', w)))
    else rs_cookies (fst (HandleLogin hmac a (Some idb) t r)) = [] \<and>
         rs_status (fst (HandleLogin hmac a (Some idb) t r)) = 401"
proof (cases "FormValue r ''username'' = au_username a \<and> FormValue r ''password'' = au_password a")
  case True
  obtain sid c where i: "Issue hmac (au_sessions a) (Some idb) t = Some (sid, c)" by (simp add: Issue_cookie)
  have v: "Verify hmac (au_sessions a) now c \<longleftrightarrow>
      ss_ttl (au_sessions a) \<le> 0 \<or> now \<le> t div Second * Second + ss_ttl (au_sessions a)" for now
    using Verify_issued [OF _ assms(4) i, of now] assms(2,3) by (simp add: sane_time_def alive_def)
  show ?thesis using True assms(1) i by (simp add: HandleLogin_def RequireAuth_def csrf_parsed_def v)
next
  case False
  then show ?thesis unfolding if_not_P [OF False] using assms(1) by (auto simp: HandleLogin_def)
qed

definition demo_auth :: authenticator where
  "demo_auth = NewAuthenticator ''admin'' ''pw'' demo_store ''kfrs_sid''"

definition demo_request :: request where
  "demo_request = \<lparr>rq_method = ''GET'', rq_path = ''/'', rq_rawQuery = [], rq_query = [], rq_post = [], rq_formErr = None,
     rq_header = [], rq_cookies = [], rq_pathValues = []\<rparr>"

theorem login_opens_gate_witness:
  "\<exists>ck. rs_cookies (fst (HandleLogin (\<lambda>k m. k @ m) demo_auth (Some ''id'') 0
     (demo_request\<lparr>rq_post := [(''username'', ''admin''), (''password'', ''pw'')]\<rparr>))) = [ck] \<and> ck_secure ck"
  using login_opens_gate [of "demo_request\<lparr>rq_post := [(''username'', ''admin''), (''password'', ''pw'')]\<rparr>" 0 demo_auth
      "\<lambda>k m. k @ m" "''id''"]
  by (simp add: demo_auth_def demo_request_def demo_store_def NewAuthenticator_def FormValue_def form_values_def
      first_value_def max_i64_def) blast

end
