(* ===== verification/SftpClient.thy ===== *)
theory SftpClient
  imports GoPath GoText
begin

unbundle bit_operations_syntax

text \<open>
  internal/sftpclient/client.go: path validation, the host key signature of a
  FileRecoverySession, dialling, and the directory listing that resolves the Windows junctions an
  SFTP server reports as symbolic links. The SFTP server is a parameter (its replies are
  functions of the request); a session keeps the learned chroot depth and a log of the requests it
  has sent, so that costs can be stated.
\<close>

section \<open>Path validation\<close>

datatype sftp_error =
    PathEmpty
  | PathNotAbsolute
  | PathParentSegment
  | PathNotRooted
  | Remote string

text \<open>\<open>None\<close> is Go's nil error.\<close>

definition validatePath :: "string \<Rightarrow> sftp_error option" where
  "validatePath p =
     (if p = [] then Some PathEmpty
      else if \<not> has_prefix p ''/'' then Some PathNotAbsolute
      else if list_ex (\<lambda>seg. seg = ''..'') (split_on slash p) then Some PathParentSegment
      else if \<not> has_prefix (path_clean p) ''/'' then Some PathNotRooted
      else None)"

lemma validatePath_None_iff:
  "validatePath p = None \<longleftrightarrow> is_abs p \<and> ''..'' \<notin> set (split_on slash p)"
proof -
  have "is_abs p \<Longrightarrow> has_prefix (path_clean p) ''/''"
    using is_abs_path_clean by (simp add: is_abs_def)
  then show ?thesis
    by (cases p) (auto simp: validatePath_def list_ex_iff is_abs_def)
qed

lemma validatePath_clean: "is_abs p \<Longrightarrow> validatePath (path_clean p) = None"
  by (simp add: validatePath_None_iff is_abs_path_clean path_clean_no_dotdot)

lemma validatePath_join: "is_abs a \<Longrightarrow> validatePath (path_join [a, b]) = None"
  by (simp add: validatePath_None_iff is_abs_path_join2 path_join2_no_dotdot)

lemma validatePath_normal:
  assumes "\<forall>s \<in> set segs. normal_seg s"
  shows "validatePath (slash # join_with ''/'' segs) = None"
  using validatePath_clean [of "slash # join_with ''/'' segs"] normal_path_clean_id [OF assms]
  by simp

section \<open>File information\<close>

type_synonym filemode = "32 word"

definition ModeDir :: filemode where
  "ModeDir = push_bit 31 1"

definition ModeSymlink :: filemode where
  "ModeSymlink = push_bit 27 1"

record finfo =
  fi_name :: string
  fi_size :: int
  fi_mode :: filemode
  fi_modtime :: gotime

text \<open>
  What ListDir returns: the server's own \<open>os.FileInfo\<close>, or \<open>&fileInfoWithDir{info, isDir,
  resolvedPath}\<close>.
\<close>

datatype entry =
    Plain finfo
  | WithDir finfo bool string

fun entry_info :: "entry \<Rightarrow> finfo" where
  "entry_info (Plain i) = i"
| "entry_info (WithDir i d r) = i"

definition entry_name :: "entry \<Rightarrow> string" where
  "entry_name e = fi_name (entry_info e)"

text \<open>\<open>Mode\<close>: the wrapper keeps the directory bit in step with \<open>isDir\<close>.\<close>

fun entry_mode :: "entry \<Rightarrow> filemode" where
  "entry_mode (Plain i) = fi_mode i"
| "entry_mode (WithDir i d r) =
     (if d then fi_mode i OR ModeDir else fi_mode i AND NOT ModeDir)"

fun entry_is_dir :: "entry \<Rightarrow> bool" where
  "entry_is_dir (Plain i) = (fi_mode i AND ModeDir \<noteq> 0)"
| "entry_is_dir (WithDir i d r) = d"

fun entry_resolved :: "entry \<Rightarrow> string" where
  "entry_resolved (Plain i) = []"
| "entry_resolved (WithDir i d r) = r"

lemma bit_ModeDir: "bit ModeDir n \<longleftrightarrow> n = 31"
  unfolding ModeDir_def bit_push_bit_iff bit_1_iff by auto

lemma word_and_ModeDir: "(m AND ModeDir \<noteq> 0) \<longleftrightarrow> bit m 31"
proof
  assume "m AND ModeDir \<noteq> 0"
  then obtain n where "bit (m AND ModeDir) n" by (metis bit_0_eq bit_eqI bot_apply bot_bool_def)
  then show "bit m 31" by (auto simp: bit_and_iff bit_ModeDir)
next
  assume "bit m 31"
  then have "bit (m AND ModeDir) 31" by (simp add: bit_and_iff bit_ModeDir)
  then show "m AND ModeDir \<noteq> 0" by auto
qed

lemma entry_mode_is_dir: "entry_mode e AND ModeDir \<noteq> 0 \<longleftrightarrow> entry_is_dir e"
  by (cases e) (simp_all add: word_and_ModeDir bit_simps bit_ModeDir)

section \<open>Sessions\<close>

text \<open>The SFTP server behind a connection, as the client sees it.\<close>

record sftp_server =
  srv_readdir :: "string \<Rightarrow> (string, finfo list) result"
  srv_readlink :: "string \<Rightarrow> (string, string) result"
  srv_open :: "string \<Rightarrow> (string, string) result"
  srv_stat :: "string \<Rightarrow> (string, finfo) result"

datatype sftp_request =
    ReqReadDir string
  | ReqReadLink string
  | ReqOpen string
  | ReqStat string

text \<open>\<open>chrootDepth\<close> is 0 until it is learned; \<open>sent\<close> is the log of requests.\<close>

record session =
  chrootDepth :: nat
  sent :: "sftp_request list"

definition new_session :: session where
  "new_session = \<lparr>chrootDepth = 0, sent = []\<rparr>"

definition send :: "sftp_request \<Rightarrow> session \<Rightarrow> session" where
  "send q s = s\<lparr>sent := sent s @ [q]\<rparr>"

lemma send_simps [simp]:
  "chrootDepth (send q s) = chrootDepth s"
  "sent (send q s) = sent s @ [q]"
  by (simp_all add: send_def)

definition listable :: "sftp_server \<Rightarrow> string \<Rightarrow> bool" where
  "listable srv p \<longleftrightarrow> (case srv_readdir srv p of Inl _ \<Rightarrow> False | Inr _ \<Rightarrow> True)"

text \<open>\<open>_, err := s.sftp.ReadDir(p); err == nil\<close>\<close>

definition probe_dir :: "sftp_server \<Rightarrow> string \<Rightarrow> session \<Rightarrow> bool \<times> session" where
  "probe_dir srv p s = (listable srv p, send (ReqReadDir p) s)"

definition maxChrootDepth :: nat where
  "maxChrootDepth = 5"

definition maxJunctionDepth :: nat where
  "maxJunctionDepth = 4"

text \<open>The path left of an absolute target's components when the first \<open>n\<close> are dropped.\<close>

definition strip_path :: "nat \<Rightarrow> string list \<Rightarrow> string" where
  "strip_path n parts = slash # join_with ''/'' (drop (n + 1) parts)"

text \<open>The discovery loop of resolveAbsoluteTarget.\<close>

function discover :: "sftp_server \<Rightarrow> string list \<Rightarrow> nat \<Rightarrow> session \<Rightarrow> string \<times> session" where
  "discover srv parts depth s =
     (if depth \<le> maxChrootDepth then
        (if length parts \<le> depth + 1 then ([], s)
         else if join_with ''/'' (drop (depth + 1) parts) = []
         then discover srv parts (depth + 1) s
         else (let (ok, s1) = probe_dir srv (strip_path depth parts) s
               in if ok then (strip_path depth parts, s1\<lparr>chrootDepth := depth\<rparr>)
                  else discover srv parts (depth + 1) s1))
      else ([], s))"
  by pat_completeness auto
termination
  by (relation "measure (\<lambda>(srv, parts, depth, s). Suc maxChrootDepth - depth)") auto

declare discover.simps [simp del]

definition resolveAbsoluteTarget :: "sftp_server \<Rightarrow> string \<Rightarrow> session \<Rightarrow> string \<times> session" where
  "resolveAbsoluteTarget srv target s =
     (let parts = split_on slash (path_clean target); n = chrootDepth s in
      if 0 < n then
        (if n + 1 < length parts \<and> join_with ''/'' (drop (n + 1) parts) \<noteq> [] then
           (let (ok, s1) = probe_dir srv (strip_path n parts) s
            in if ok then (strip_path n parts, s1)
               else discover srv parts 1 (s1\<lparr>chrootDepth := 0\<rparr>))
         else discover srv parts 1 (s\<lparr>chrootDepth := 0\<rparr>))
      else discover srv parts 1 s)"

function ancestorWalkResolve ::
  "sftp_server \<Rightarrow> string \<Rightarrow> string \<Rightarrow> nat \<Rightarrow> session \<Rightarrow> (string \<times> nat) \<times> session" where
  "ancestorWalkResolve srv candidate base depth s =
     (if depth \<le> maxJunctionDepth then
        (let resolved = path_join [candidate, base];
             (ok, s1) = probe_dir srv resolved s
         in if ok then ((resolved, depth), s1)
            else if candidate = ''/'' \<or> candidate = ''.'' then (([], 0), s1)
            else if path_dir candidate = candidate then (([], 0), s1)
            else ancestorWalkResolve srv (path_dir candidate) base (depth + 1) s1)
      else (([], 0), s))"
  by pat_completeness auto
termination
  by (relation "measure (\<lambda>(srv, c, b, depth, s). Suc maxJunctionDepth - depth)") auto

declare ancestorWalkResolve.simps [simp del]

text \<open>The fallback of ListDir: the walk from the listed directory with the target's base name.\<close>

definition walk_from :: "sftp_server \<Rightarrow> string \<times> string \<Rightarrow> session \<Rightarrow> string \<times> session" where
  "walk_from srv a s =
     (let base = path_base (snd a) in
      if base \<noteq> [] \<and> base \<noteq> ''.'' \<and> base \<noteq> ''/'' \<and> base \<noteq> ''..''
      then (let (r, s1) = ancestorWalkResolve srv (fst a) base 0 s in (fst r, s1))
      else ([], s))"

text \<open>What becomes of a non-empty READLINK target of a link in directory \<open>path\<close>.\<close>

definition resolve_target :: "sftp_server \<Rightarrow> string \<times> string \<Rightarrow> session \<Rightarrow> string \<times> session" where
  "resolve_target srv a s =
     (if is_abs (snd a) then
        (let (r, s1) = resolveAbsoluteTarget srv (snd a) s
         in if r \<noteq> [] then (r, s1) else walk_from srv a s1)
      else walk_from srv a s)"

text \<open>One round of ListDir's loop, over the way targets are resolved.\<close>

type_synonym resolver = "sftp_server \<Rightarrow> string \<times> string \<Rightarrow> session \<Rightarrow> string \<times> session"

definition list_entry_with ::
  "resolver \<Rightarrow> sftp_server \<Rightarrow> string \<Rightarrow> finfo \<Rightarrow> session \<Rightarrow> entry \<times> session" where
  "list_entry_with resolve srv path info s =
     (if fi_mode info AND ModeSymlink = 0 then (Plain info, s)
      else (let joined = path_join [path, fi_name info];
                (ok, s1) = probe_dir srv joined s
            in if ok then (WithDir info True [], s1)
               else (let s2 = send (ReqReadLink joined) s1
                     in case srv_readlink srv joined of
                          Inl _ \<Rightarrow> (Plain info, s2)
                        | Inr target \<Rightarrow>
                            (if target = [] then (Plain info, s2)
                             else (let (r, s3) = resolve srv (path, target) s2
                                   in if r \<noteq> [] then (WithDir info True r, s3)
                                      else (Plain info, s3))))))"

fun list_entries_with ::
  "resolver \<Rightarrow> sftp_server \<Rightarrow> string \<Rightarrow> finfo list \<Rightarrow> session \<Rightarrow> entry list \<times> session" where
  "list_entries_with resolve srv path [] s = ([], s)"
| "list_entries_with resolve srv path (i # is) s =
     (let (e, s1) = list_entry_with resolve srv path i s;
          (es, s2) = list_entries_with resolve srv path is s1
      in (e # es, s2))"

definition ListDir ::
  "sftp_server \<Rightarrow> string \<Rightarrow> session \<Rightarrow> (sftp_error, entry list) result \<times> session" where
  "ListDir srv path s =
     (case validatePath path of
        Some e \<Rightarrow> (Inl e, s)
      | None \<Rightarrow>
          (let s1 = send (ReqReadDir path) s
           in case srv_readdir srv path of
                Inl e \<Rightarrow> (Inl (Remote e), s1)
              | Inr infos \<Rightarrow>
                  (let (es, s2) = list_entries_with resolve_target srv path infos s1
                   in (Inr es, s2))))"

text \<open>Open yields the file's content, which the handlers copy out; Stat its information.\<close>

definition Open ::
  "sftp_server \<Rightarrow> string \<Rightarrow> session \<Rightarrow> (sftp_error, string) result \<times> session" where
  "Open srv path s =
     (case validatePath path of
        Some e \<Rightarrow> (Inl e, s)
      | None \<Rightarrow>
          (case srv_open srv path of
             Inl e \<Rightarrow> (Inl (Remote e), send (ReqOpen path) s)
           | Inr c \<Rightarrow> (Inr c, send (ReqOpen path) s)))"

definition Stat ::
  "sftp_server \<Rightarrow> string \<Rightarrow> session \<Rightarrow> (sftp_error, finfo) result \<times> session" where
  "Stat srv path s =
     (case validatePath path of
        Some e \<Rightarrow> (Inl e, s)
      | None \<Rightarrow>
          (case srv_stat srv path of
             Inl e \<Rightarrow> (Inl (Remote e), send (ReqStat path) s)
           | Inr i \<Rightarrow> (Inr i, send (ReqStat path) s)))"

section \<open>The contract of a link resolver\<close>

text \<open>
  What ListDir relies on, whichever probe answers: a resolved path is a directory the server
  lists, it is a path the session's own validation accepts, it costs a bounded number of requests,
  and the learned depth stays in range.
\<close>

locale link_resolver =
  fixes resolve :: "sftp_server \<Rightarrow> 'a \<Rightarrow> session \<Rightarrow> string \<times> session"
    and pre :: "'a \<Rightarrow> bool"
    and cost :: nat
  assumes hit_listable: "resolve srv a s = (r, s') \<Longrightarrow> r \<noteq> [] \<Longrightarrow> listable srv r"
    and hit_valid: "pre a \<Longrightarrow> resolve srv a s = (r, s') \<Longrightarrow> r \<noteq> [] \<Longrightarrow> validatePath r = None"
    and cost_bound: "resolve srv a s = (r, s') \<Longrightarrow> length (sent s') \<le> length (sent s) + cost"
    and depth_bound: "resolve srv a s = (r, s') \<Longrightarrow> chrootDepth s \<le> maxChrootDepth \<Longrightarrow>
      chrootDepth s' \<le> maxChrootDepth"
begin

lemma session_after:
  assumes "resolve srv a s = (r, s')" and "chrootDepth s \<le> maxChrootDepth"
  shows "chrootDepth s' \<le> maxChrootDepth \<and> length (sent s') \<le> length (sent s) + cost"
  using assms cost_bound depth_bound by blast

end

definition or_else ::
  "(sftp_server \<Rightarrow> 'a \<Rightarrow> session \<Rightarrow> string \<times> session) \<Rightarrow>
   (sftp_server \<Rightarrow> 'a \<Rightarrow> session \<Rightarrow> string \<times> session) \<Rightarrow>
   sftp_server \<Rightarrow> 'a \<Rightarrow> session \<Rightarrow> string \<times> session" where
  "or_else f g srv a s = (let (r, s1) = f srv a s in if r \<noteq> [] then (r, s1) else g srv a s1)"

lemma or_else_cases:
  assumes "or_else f g srv a s = (r, s')"
  obtains "f srv a s = (r, s')" "r \<noteq> []"
  | s1 where "f srv a s = ([], s1)" "g srv a s1 = (r, s')"
  using assms by (cases "f srv a s") (auto simp: or_else_def split: if_splits)

text \<open>Trying one resolver after another is a resolver again.\<close>

locale resolver_chain =
  first: link_resolver resolve1 pre cost1 + second: link_resolver resolve2 pre cost2
  for resolve1 resolve2 :: "sftp_server \<Rightarrow> 'a \<Rightarrow> session \<Rightarrow> string \<times> session"
    and pre cost1 cost2

sublocale resolver_chain \<subseteq> chain: link_resolver "or_else resolve1 resolve2" pre "cost1 + cost2"
proof (unfold_locales, goal_cases)
  case (1 srv a s r s')
  then show ?case by (metis or_else_cases first.hit_listable second.hit_listable)
next
  case (2 a srv s r s')
  then show ?case by (metis or_else_cases first.hit_valid second.hit_valid)
next
  case (3 srv a s r s')
  then show ?case
    by (rule or_else_cases) (use first.cost_bound second.cost_bound in fastforce)+
next
  case (4 srv a s r s')
  from 4(1) show ?case
    by (rule or_else_cases) (use 4(2) first.depth_bound second.depth_bound in blast)+
qed

text \<open>The listing loop over any resolver of link targets.\<close>

definition is_symlink :: "finfo \<Rightarrow> bool" where
  "is_symlink i \<longleftrightarrow> fi_mode i AND ModeSymlink \<noteq> 0"

locale dir_lister = link_resolver resolve pre cost
  for resolve :: resolver and pre and cost
begin

lemma entry_info_kept: "list_entry_with resolve srv path i s = (e, s') \<Longrightarrow> entry_info e = i"
  by (auto simp: list_entry_with_def probe_dir_def Let_def split: if_splits sum.splits prod.splits)

lemma entry_regular:
  "\<not> is_symlink i \<Longrightarrow> list_entry_with resolve srv path i s = (Plain i, s)"
  by (simp add: list_entry_with_def is_symlink_def)

lemma entry_cases:
  assumes "list_entry_with resolve srv path i s = (e, s')"
  obtains "e = Plain i" "\<not> is_symlink i" "s' = s"
  | "e = WithDir i True []" "listable srv (path_join [path, fi_name i])"
    "s' = send (ReqReadDir (path_join [path, fi_name i])) s"
  | "e = Plain i" "s' = send (ReqReadLink (path_join [path, fi_name i]))
      (send (ReqReadDir (path_join [path, fi_name i])) s)"
  | r t s2 where "resolve srv (path, t) s2 = (r, s')" "t \<noteq> []"
    "s2 = send (ReqReadLink (path_join [path, fi_name i]))
      (send (ReqReadDir (path_join [path, fi_name i])) s)"
    "e = (if r \<noteq> [] then WithDir i True r else Plain i)"
    "srv_readlink srv (path_join [path, fi_name i]) = Inr t"
  using assms
  by (auto simp: list_entry_with_def is_symlink_def probe_dir_def Let_def
      split: if_splits sum.splits prod.splits)

lemma entry_resolved_ok:
  assumes "list_entry_with resolve srv path i s = (e, s')" and "entry_resolved e \<noteq> []"
  shows "entry_is_dir e \<and> listable srv (entry_resolved e) \<and>
    ((\<forall>t. pre (path, t)) \<longrightarrow> validatePath (entry_resolved e) = None)"
  using assms(1)
proof (cases rule: entry_cases)
  case (4 r t s2)
  with assms(2) have r: "r \<noteq> []" "entry_resolved e = r" "entry_is_dir e"
    by (auto split: if_splits)
  with 4(1) hit_listable hit_valid show ?thesis by blast
qed (use assms(2) in auto)

lemma entry_session:
  assumes "list_entry_with resolve srv path i s = (e, s')" and "chrootDepth s \<le> maxChrootDepth"
  shows "chrootDepth s' \<le> maxChrootDepth \<and>
    length (sent s') \<le> length (sent s) + (if is_symlink i then 2 + cost else 0)"
proof (cases "is_symlink i")
  case False
  with assms entry_regular show ?thesis by auto
next
  case True
  from assms(1) show ?thesis
  proof (cases rule: entry_cases)
    case (4 r t s2)
    from 4(3) assms(2) have "chrootDepth s2 \<le> maxChrootDepth" by simp
    with session_after [OF 4(1)] 4(3) True show ?thesis by simp
  qed (use True assms(2) in auto)
qed

lemma entries_infos: "list_entries_with resolve srv path is s = (es, s') \<Longrightarrow> map entry_info es = is"
  by (induction "is" arbitrary: s es s') (auto simp: entry_info_kept Let_def split: prod.splits)

lemma entries_resolved_ok:
  assumes "list_entries_with resolve srv path is s = (es, s')" "e \<in> set es" "entry_resolved e \<noteq> []"
  shows "entry_is_dir e \<and> listable srv (entry_resolved e) \<and>
    ((\<forall>t. pre (path, t)) \<longrightarrow> validatePath (entry_resolved e) = None)"
  using assms
proof (induction "is" arbitrary: s es)
  case (Cons i "is")
  then show ?case using entry_resolved_ok by (auto simp: Let_def split: prod.splits)
qed simp

lemma entries_session:
  assumes "list_entries_with resolve srv path is s = (es, s')" and "chrootDepth s \<le> maxChrootDepth"
  shows "chrootDepth s' \<le> maxChrootDepth \<and>
    length (sent s') \<le> length (sent s) + (2 + cost) * length (filter is_symlink is)"
  using assms
proof (induction "is" arbitrary: s es)
  case (Cons i "is")
  obtain e s1 es1 where e: "list_entry_with resolve srv path i s = (e, s1)"
    and es: "list_entries_with resolve srv path is s1 = (es1, s')"
    using Cons.prems(1) by (auto simp: Let_def split: prod.splits)
  from entry_session [OF e Cons.prems(2)] Cons.IH [OF es] show ?case
    by (auto split: if_splits)
qed simp

lemma entries_plain:
  "\<forall>i \<in> set is. \<not> is_symlink i \<Longrightarrow> list_entries_with resolve srv path is s = (map Plain is, s)"
  by (induction "is" arbitrary: s) (auto simp: entry_regular)

end

section \<open>The two resolvers keep the contract\<close>

lemma discover_stop:
  "maxChrootDepth < d \<or> length parts \<le> d + 1 \<Longrightarrow> discover srv parts d s = ([], s)"
  by (subst discover.simps) auto

lemma discover_empty:
  "d \<le> maxChrootDepth \<Longrightarrow> d + 1 < length parts \<Longrightarrow> join_with ''/'' (drop (d + 1) parts) = [] \<Longrightarrow>
   discover srv parts d s = discover srv parts (d + 1) s"
  by (subst discover.simps) simp

lemma discover_hit:
  "d \<le> maxChrootDepth \<Longrightarrow> d + 1 < length parts \<Longrightarrow> join_with ''/'' (drop (d + 1) parts) \<noteq> [] \<Longrightarrow>
   listable srv (strip_path d parts) \<Longrightarrow>
   discover srv parts d s =
     (strip_path d parts, (send (ReqReadDir (strip_path d parts)) s)\<lparr>chrootDepth := d\<rparr>)"
  by (subst discover.simps) (simp add: probe_dir_def)

lemma discover_miss:
  "d \<le> maxChrootDepth \<Longrightarrow> d + 1 < length parts \<Longrightarrow> join_with ''/'' (drop (d + 1) parts) \<noteq> [] \<Longrightarrow>
   \<not> listable srv (strip_path d parts) \<Longrightarrow>
   discover srv parts d s = discover srv parts (d + 1) (send (ReqReadDir (strip_path d parts)) s)"
  by (subst discover.simps) (simp add: probe_dir_def)

lemma discover_rounds [consumes 0, case_names stop empty hit miss]:
  obtains "maxChrootDepth < d \<or> length parts \<le> d + 1"
  | "d \<le> maxChrootDepth" "d + 1 < length parts" "join_with ''/'' (drop (d + 1) parts) = []"
  | "d \<le> maxChrootDepth" "d + 1 < length parts" "join_with ''/'' (drop (d + 1) parts) \<noteq> []"
    "listable srv (strip_path d parts)"
  | "d \<le> maxChrootDepth" "d + 1 < length parts" "join_with ''/'' (drop (d + 1) parts) \<noteq> []"
    "\<not> listable srv (strip_path d parts)"
  by linarith

text \<open>Depth \<open>m\<close> does not answer: nothing is left of the target, or the server does not list it.\<close>

definition dead_depth :: "sftp_server \<Rightarrow> string list \<Rightarrow> nat \<Rightarrow> bool" where
  "dead_depth srv parts m \<longleftrightarrow>
     maxChrootDepth < m \<or> length parts \<le> m + 1 \<or> join_with ''/'' (drop (m + 1) parts) = [] \<or>
     \<not> listable srv (strip_path m parts)"

definition live_depth :: "sftp_server \<Rightarrow> string list \<Rightarrow> nat \<Rightarrow> bool" where
  "live_depth srv parts m \<longleftrightarrow> \<not> dead_depth srv parts m"

text \<open>
  A hit of the discovery loop from depth \<open>d\<close> is the least depth that lists; a miss has tried them
  all and leaves the learned depth alone.
\<close>

definition discovered :: "sftp_server \<Rightarrow> string list \<Rightarrow> nat \<Rightarrow> nat \<Rightarrow> string \<Rightarrow> nat \<Rightarrow> bool" where
  "discovered srv parts d old r new \<longleftrightarrow>
     (r = [] \<and> new = old \<and> (\<forall>m \<ge> d. dead_depth srv parts m)) \<or>
     (d \<le> new \<and> live_depth srv parts new \<and> r = strip_path new parts \<and>
       (\<forall>m. d \<le> m \<and> m < new \<longrightarrow> dead_depth srv parts m))"

lemma discovered_extend:
  assumes "discovered srv parts (d + 1) old r new" and "dead_depth srv parts d"
  shows "discovered srv parts d old r new"
proof -
  have iff: "d \<le> m \<longleftrightarrow> m = d \<or> d + 1 \<le> m" for m by auto
  show ?thesis using assms unfolding discovered_def iff by blast
qed

lemma discover_result:
  "discover srv parts d s = (r, s') \<Longrightarrow> discovered srv parts d (chrootDepth s) r (chrootDepth s')"
proof (induction srv parts d s rule: discover.induct)
  case (1 srv parts d s)
  show ?case
  proof (cases rule: discover_rounds [where d = d and parts = parts and srv = srv])
    case stop
    with "1.prems" show ?thesis by (auto simp: discover_stop dead_depth_def discovered_def)
  next
    case empty
    with "1.IH"(1) "1.prems"
    have "discovered srv parts (d + 1) (chrootDepth s) r (chrootDepth s')"
      by (simp add: discover_empty)
    moreover from empty have "dead_depth srv parts d" by (simp add: dead_depth_def)
    ultimately show ?thesis by (rule discovered_extend)
  next
    case hit
    with "1.prems" show ?thesis
      by (auto simp: discover_hit live_depth_def dead_depth_def discovered_def)
  next
    case miss
    with "1.IH"(2) "1.prems"
    have "discovered srv parts (d + 1) (chrootDepth s) r (chrootDepth s')"
      by (simp add: discover_miss probe_dir_def)
    moreover from miss have "dead_depth srv parts d" by (simp add: dead_depth_def)
    ultimately show ?thesis by (rule discovered_extend)
  qed
qed

lemma discover_sent:
  "discover srv parts d s = (r, s') \<Longrightarrow> length (sent s') \<le> length (sent s) + (Suc maxChrootDepth - d)"
proof (induction srv parts d s rule: discover.induct)
  case (1 srv parts d s)
  show ?case
  proof (cases rule: discover_rounds [where d = d and parts = parts and srv = srv])
    case stop
    with "1.prems" show ?thesis by (auto simp: discover_stop)
  next
    case empty
    with "1.IH"(1) "1.prems" show ?thesis by (simp add: discover_empty)
  next
    case hit
    with "1.prems" show ?thesis by (auto simp: discover_hit)
  next
    case miss
    with "1.IH"(2) "1.prems" show ?thesis by (fastforce simp: discover_miss probe_dir_def)
  qed
qed

lemma live_depth_bounds:
  "live_depth srv parts n \<Longrightarrow> n \<le> maxChrootDepth \<and> n + 1 < length parts \<and> listable srv (strip_path n parts)"
  by (auto simp: live_depth_def dead_depth_def)

lemma discover_depth:
  "discover srv parts d s = (r, s') \<Longrightarrow> chrootDepth s \<le> maxChrootDepth \<Longrightarrow>
   chrootDepth s' \<le> maxChrootDepth"
  using discover_result live_depth_bounds by (fastforce simp: discovered_def)

lemma discover_listable: "discover srv parts d s = (r, s') \<Longrightarrow> r \<noteq> [] \<Longrightarrow> listable srv r"
  using discover_result live_depth_bounds by (fastforce simp: discovered_def)

text \<open>The components of a target, and what is left when \<open>n\<close> of them go.\<close>

lemma target_parts_normal:
  assumes "is_abs t" and "2 \<le> k" and "x \<in> set (drop k (split_on slash (path_clean t)))"
  shows "normal_seg x"
proof (cases "clean_segs True (split_on slash t) = []")
  case True
  with assms show ?thesis by (simp add: split_path_clean)
next
  case False
  with assms have "x \<in> set (clean_segs True (split_on slash t))"
    by (cases k) (auto simp: split_path_clean dest: in_set_dropD)
  then show ?thesis by (rule clean_segs_normal)
qed

lemma strip_path_valid:
  "is_abs t \<Longrightarrow> 1 \<le> n \<Longrightarrow> validatePath (strip_path n (split_on slash (path_clean t))) = None"
  unfolding strip_path_def
  using target_parts_normal [where k = "n + 1"] by (intro validatePath_normal) auto

lemma discover_valid:
  assumes "discover srv (split_on slash (path_clean t)) 1 s = (r, s')" "is_abs t" "r \<noteq> []"
  shows "validatePath r = None"
  using discover_result [OF assms(1)] assms(2,3) by (auto simp: discovered_def intro: strip_path_valid)

text \<open>The cached depth: one probe, and the discovery loop only if it fails.\<close>

lemma resolveAbsoluteTarget_cases [consumes 1, case_names cached redo]:
  assumes "resolveAbsoluteTarget srv t s = (r, s')"
  obtains "0 < chrootDepth s" "chrootDepth s + 1 < length (split_on slash (path_clean t))"
    "r = strip_path (chrootDepth s) (split_on slash (path_clean t))" "listable srv r"
    "s' = send (ReqReadDir r) s"
  | s1 where "discover srv (split_on slash (path_clean t)) 1 s1 = (r, s')"
    "chrootDepth s1 = 0" "length (sent s1) \<le> length (sent s) + 1"
    "chrootDepth s = 0 \<longrightarrow> s1 = s"
proof -
  let ?parts = "split_on slash (path_clean t)" and ?n = "chrootDepth s"
  let ?usable = "?n + 1 < length ?parts \<and> join_with ''/'' (drop (?n + 1) ?parts) \<noteq> []"
  let ?p = "strip_path ?n ?parts"
  consider (hit) "0 < ?n" "?usable" "listable srv ?p" | (miss) "0 < ?n" "?usable" "\<not> listable srv ?p"
    | (short) "0 < ?n" "\<not> ?usable" | (fresh) "?n = 0"
    by blast
  then show thesis
  proof cases
    case hit
    with assms have "r = ?p" "s' = send (ReqReadDir ?p) s"
      by (auto simp: resolveAbsoluteTarget_def probe_dir_def Let_def)
    with hit show ?thesis by (intro that(1)) simp_all
  next
    case miss
    with assms have "discover srv ?parts 1 ((send (ReqReadDir ?p) s)\<lparr>chrootDepth := 0\<rparr>) = (r, s')"
      by (simp add: resolveAbsoluteTarget_def probe_dir_def Let_def)
    from that(2) [OF this] miss show ?thesis by simp
  next
    case short
    with assms have "discover srv ?parts 1 (s\<lparr>chrootDepth := 0\<rparr>) = (r, s')"
      by (auto simp: resolveAbsoluteTarget_def Let_def split: if_splits)
    from that(2) [OF this] short show ?thesis by simp
  next
    case fresh
    with assms have "discover srv ?parts 1 s = (r, s')"
      by (simp add: resolveAbsoluteTarget_def Let_def)
    from that(2) [OF this] fresh show ?thesis by simp
  qed
qed

definition abs_target :: "sftp_server \<Rightarrow> string \<times> string \<Rightarrow> session \<Rightarrow> string \<times> session" where
  "abs_target srv a s = (if is_abs (snd a) then resolveAbsoluteTarget srv (snd a) s else ([], s))"

interpretation abs: link_resolver abs_target "\<lambda>a. is_abs (fst a)" 6
proof (unfold_locales, goal_cases)
  case (1 srv a s r s')
  then have "resolveAbsoluteTarget srv (snd a) s = (r, s')"
    by (auto simp: abs_target_def split: if_splits)
  then show ?case
    by (cases rule: resolveAbsoluteTarget_cases) (use 1 discover_listable in auto)
next
  case (2 a srv s r s')
  then have t: "resolveAbsoluteTarget srv (snd a) s = (r, s')" "is_abs (snd a)"
    by (auto simp: abs_target_def split: if_splits)
  from t(1) show ?case
    by (cases rule: resolveAbsoluteTarget_cases) (use t 2 discover_valid strip_path_valid in auto)
next
  case (3 srv a s r s')
  show ?case
  proof (cases "is_abs (snd a)")
    case True
    with 3 have "resolveAbsoluteTarget srv (snd a) s = (r, s')" by (simp add: abs_target_def)
    then show ?thesis
      by (cases rule: resolveAbsoluteTarget_cases)
        (use discover_sent in \<open>fastforce simp: maxChrootDepth_def\<close>)+
  qed (use 3 in \<open>simp add: abs_target_def\<close>)
next
  case (4 srv a s r s')
  show ?case
  proof (cases "is_abs (snd a)")
    case True
    with 4 have "resolveAbsoluteTarget srv (snd a) s = (r, s')" by (simp add: abs_target_def)
    then show ?thesis
      by (cases rule: resolveAbsoluteTarget_cases) (use 4 discover_depth in fastforce)+
  qed (use 4 in \<open>simp add: abs_target_def\<close>)
qed

subsection \<open>The ancestor walk\<close>

text \<open>The directories the walk tries from \<open>candidate\<close>, \<open>n\<close> rounds at most.\<close>

fun ancestors :: "nat \<Rightarrow> string \<Rightarrow> string list" where
  "ancestors 0 c = []"
| "ancestors (Suc n) c =
     c # (if c = ''/'' \<or> c = ''.'' \<or> path_dir c = c then [] else ancestors n (path_dir c))"

text \<open>The first of some directories that has a listable child, with its position.\<close>

fun first_listable :: "sftp_server \<Rightarrow> string \<Rightarrow> nat \<Rightarrow> string list \<Rightarrow> string \<times> nat" where
  "first_listable srv base k [] = ([], 0)"
| "first_listable srv base k (c # cs) =
     (if listable srv (path_join [c, base]) then (path_join [c, base], k)
      else first_listable srv base (k + 1) cs)"

fun tried :: "sftp_server \<Rightarrow> string \<Rightarrow> string list \<Rightarrow> string list" where
  "tried srv base [] = []"
| "tried srv base (c # cs) =
     path_join [c, base] # (if listable srv (path_join [c, base]) then [] else tried srv base cs)"

lemma ancestorWalk_rounds:
  "Suc maxJunctionDepth - d = n \<Longrightarrow>
   ancestorWalkResolve srv c base d s =
     (first_listable srv base d (ancestors n c),
      s\<lparr>sent := sent s @ map ReqReadDir (tried srv base (ancestors n c))\<rparr>)"
proof (induction n arbitrary: c d s)
  case 0
  then show ?case by (subst ancestorWalkResolve.simps) simp
next
  case (Suc n)
  then have d: "d \<le> maxJunctionDepth" and n: "Suc maxJunctionDepth - (d + 1) = n" by simp_all
  show ?case
  proof (cases "listable srv (path_join [c, base]) \<or> c = ''/'' \<or> c = ''.'' \<or> path_dir c = c")
    case True
    with d show ?thesis
      by (subst ancestorWalkResolve.simps) (auto simp: probe_dir_def send_def Let_def)
  next
    case False
    with d Suc.IH [OF n] show ?thesis
      by (subst ancestorWalkResolve.simps) (simp add: probe_dir_def send_def Let_def)
  qed
qed

lemma ancestorWalk_search:
  "ancestorWalkResolve srv c base 0 s =
     (first_listable srv base 0 (ancestors (Suc maxJunctionDepth) c),
      s\<lparr>sent := sent s @ map ReqReadDir (tried srv base (ancestors (Suc maxJunctionDepth) c))\<rparr>)"
  by (rule ancestorWalk_rounds) simp

lemma first_listable_hit:
  "first_listable srv base k cs = (r, n) \<Longrightarrow> r \<noteq> [] \<Longrightarrow>
   listable srv r \<and> (\<exists>c \<in> set cs. r = path_join [c, base])"
  by (induction cs arbitrary: k) (auto split: if_splits)

lemma length_tried: "length (tried srv base cs) \<le> length cs"
  by (induction cs) auto

lemma tried_all: "\<forall>c \<in> set cs. \<not> listable srv (path_join [c, base]) \<Longrightarrow>
    tried srv base cs = map (\<lambda>c. path_join [c, base]) cs"
  by (induction cs) auto

lemma length_ancestors: "length (ancestors n c) \<le> n"
  by (induction n arbitrary: c) auto

lemma ancestors_abs: "is_abs c \<Longrightarrow> x \<in> set (ancestors n c) \<Longrightarrow> is_abs x"
  by (induction n arbitrary: c) (auto split: if_splits intro: is_abs_path_dir)

lemma walk_from_hit:
  assumes "walk_from srv a s = (r, s')" and "r \<noteq> []"
  shows "listable srv r \<and>
    (\<exists>c \<in> set (ancestors (Suc maxJunctionDepth) (fst a)). r = path_join [c, path_base (snd a)])"
proof -
  from assms obtain n where "first_listable srv (path_base (snd a)) 0
      (ancestors (Suc maxJunctionDepth) (fst a)) = (r, n)"
    by (cases "first_listable srv (path_base (snd a)) 0 (ancestors (Suc maxJunctionDepth) (fst a))")
      (auto simp: walk_from_def ancestorWalk_search Let_def split: if_splits)
  from first_listable_hit [OF this assms(2)] show ?thesis .
qed

interpretation walk: link_resolver walk_from "\<lambda>a. is_abs (fst a)" 5
proof (unfold_locales, goal_cases)
  case (1 srv a s r s')
  from walk_from_hit [OF this] show ?case by blast
next
  case (2 a srv s r s')
  then obtain c where c: "c \<in> set (ancestors (Suc maxJunctionDepth) (fst a))"
    and r: "r = path_join [c, path_base (snd a)]"
    using walk_from_hit [OF 2(2,3)] by auto
  have "is_abs c" using c by (rule ancestors_abs [OF 2(1)])
  then show ?case unfolding r by (rule validatePath_join)
next
  case (3 srv a s r s')
  have "length (tried srv (path_base (snd a)) (ancestors (Suc maxJunctionDepth) (fst a))) \<le>
      Suc maxJunctionDepth"
    using length_tried length_ancestors by (rule le_trans)
  with 3 show ?case by (auto simp: walk_from_def ancestorWalk_search Let_def maxJunctionDepth_def
        split: if_splits)
next
  case (4 srv a s r s')
  then show ?case by (auto simp: walk_from_def ancestorWalk_search Let_def split: if_splits)
qed

subsection \<open>Both in turn\<close>

interpretation probes: resolver_chain abs_target walk_from "\<lambda>a. is_abs (fst a)" 6 5
  by unfold_locales

lemma resolve_target_chain: "resolve_target = or_else abs_target walk_from"
  by (intro ext) (simp add: resolve_target_def or_else_def abs_target_def Let_def)

interpretation listing: dir_lister resolve_target "\<lambda>a. is_abs (fst a)" 11
  unfolding resolve_target_chain dir_lister_def
  using probes.chain.link_resolver_axioms by simp

section \<open>What a listing promises\<close>

lemma ListDir_cases:
  assumes "ListDir srv path s = (Inr es, s')"
  obtains infos where "validatePath path = None" "srv_readdir srv path = Inr infos"
    "list_entries_with resolve_target srv path infos (send (ReqReadDir path) s) = (es, s')"
  using assms by (auto simp: ListDir_def Let_def split: option.splits sum.splits prod.splits)

lemma ListDir_error:
  "ListDir srv path s = (Inl e, s') \<Longrightarrow>
   validatePath path = Some e \<and> s' = s \<or>
   validatePath path = None \<and> s' = send (ReqReadDir path) s \<and>
     (\<exists>m. srv_readdir srv path = Inl m \<and> e = Remote m)"
  by (auto simp: ListDir_def Let_def split: option.splits sum.splits prod.splits)

lemma discovered_abs:
  assumes "is_abs t" and "1 \<le> m"
  shows "dead_depth srv (split_on slash (path_clean t)) m \<longleftrightarrow>
    maxChrootDepth < m \<or> length (split_on slash (path_clean t)) \<le> m + 1 \<or>
    \<not> listable srv (strip_path m (split_on slash (path_clean t)))"
proof -
  let ?parts = "split_on slash (path_clean t)"
  have "join_with ''/'' (drop (m + 1) ?parts) \<noteq> []" if "m + 1 < length ?parts"
    using that assms target_parts_normal [OF assms(1), of "m + 1"]
    by (intro join_normal_neq_Nil) auto
  then show ?thesis unfolding dead_depth_def by auto
qed

lemma length_ancestors_abs:
  assumes "\<forall>s \<in> set segs. normal_seg s"
  shows "length (ancestors n (abs_path segs)) = min n (length segs + 1)"
  using assms
proof (induction n arbitrary: segs)
  case 0
  then show ?case by simp
next
  case (Suc n)
  show ?case
  proof (cases segs rule: rev_cases)
    case Nil
    then show ?thesis by simp
  next
    case (snoc ys x)
    then have ys: "\<forall>s \<in> set ys. normal_seg s" and x: "normal_seg x" using Suc.prems by auto
    have "path_dir (abs_path segs) = abs_path ys" using path_dir_snoc [OF ys x] snoc by simp
    moreover have "abs_path segs \<noteq> ''/''" "abs_path segs \<noteq> ''.''"
      using abs_path_root Suc.prems snoc by auto
    moreover have "abs_path ys \<noteq> abs_path segs"
    proof
      assume "abs_path ys = abs_path segs"
      then have "split_on slash (abs_path ys) = split_on slash (abs_path segs)" by simp
      then show False
        using split_abs_path [OF ys] split_abs_path [OF Suc.prems] snoc x
        by (auto simp: normal_seg_def split: if_splits)
    qed
    ultimately show ?thesis using Suc.IH [OF ys] snoc by simp
  qed
qed

lemma first_listable_miss:
  "\<forall>c \<in> set cs. \<not> listable srv (path_join [c, base]) \<Longrightarrow> first_listable srv base k cs = ([], 0)"
  by (induction cs arbitrary: k) auto

section \<open>Concrete servers\<close>

text \<open>A server that is a fixed set of directories and links, for the concrete instances below.\<close>

definition table_server ::
  "(string \<times> finfo list) list \<Rightarrow> (string \<times> string) list \<Rightarrow> (string \<times> string) list \<Rightarrow> sftp_server" where
  "table_server dirs links files =
     \<lparr>srv_readdir = (\<lambda>p. case map_of dirs p of None \<Rightarrow> Inl ''not exist'' | Some l \<Rightarrow> Inr l),
      srv_readlink = (\<lambda>p. case map_of links p of None \<Rightarrow> Inl ''not exist'' | Some l \<Rightarrow> Inr l),
      srv_open = (\<lambda>p. case map_of files p of None \<Rightarrow> Inl ''not exist'' | Some l \<Rightarrow> Inr l),
      srv_stat = (\<lambda>p. case map_of files p of
         Some l \<Rightarrow> Inr \<lparr>fi_name = path_base p, fi_size = int (length l), fi_mode = 0, fi_modtime = 0\<rparr>
       | None \<Rightarrow> (case map_of dirs p of
           Some l \<Rightarrow> Inr \<lparr>fi_name = path_base p, fi_size = 0, fi_mode = ModeDir, fi_modtime = 0\<rparr>
         | None \<Rightarrow> Inl ''not exist''))\<rparr>"

definition junction :: "string \<Rightarrow> finfo" where
  "junction n = \<lparr>fi_name = n, fi_size = 0, fi_mode = ModeSymlink, fi_modtime = 0\<rparr>"

definition demo_server :: sftp_server where
  "demo_server = table_server
     [(''/Users'', [junction ''All Users'']), (''/Data'', [])]
     [(''/Users/All Users'', ''/mnt/export/Data'')] []"

section \<open>Properties\<close>

text \<open>
  C15: a path passes validation exactly when it is absolute and none of its segments is
  \<open>..\<close>; a name that merely contains dots is fine, and the final check on the normalised form
  never rejects anything more.
\<close>

theorem validatePath_exact:
  "validatePath p = None \<longleftrightarrow> (\<exists>r. p = slash # r) \<and> ''..'' \<notin> set (split_on slash p)"
  by (simp add: validatePath_None_iff is_abs_iff)

text \<open>
  C9: a listing keeps every entry of the server, in order and with its own file information,
  and a link that is given a resolved path is shown as a directory, at a path the server lists and
  that this client's validation accepts.
\<close>

theorem listdir_sound:
  assumes "ListDir srv path s = (Inr es, s')"
  shows "\<exists>infos. srv_readdir srv path = Inr infos \<and> map entry_info es = infos \<and>
    (\<forall>e \<in> set es. entry_resolved e \<noteq> [] \<longrightarrow>
       entry_is_dir e \<and> listable srv (entry_resolved e) \<and>
       validatePath (entry_resolved e) = None)"
  using assms
proof (cases rule: ListDir_cases)
  case (1 infos)
  then have "is_abs path" by (simp add: validatePath_None_iff)
  with 1 show ?thesis
    using listing.entries_infos [OF 1(3)] listing.entries_resolved_ok [OF 1(3)] by auto
qed

lemma demo_listing:
  "fst (ListDir demo_server ''/Users'' new_session) =
     Inr [WithDir (junction ''All Users'') True ''/Data'']"
  by code_simp

theorem listdir_sound_witness:
  "\<exists>es s'. ListDir demo_server ''/Users'' new_session = (Inr es, s') \<and>
     map entry_resolved es = [''/Data''] \<and> map entry_info es = [junction ''All Users''] \<and>
     listable demo_server ''/Data''"
proof -
  obtain s' where l: "ListDir demo_server ''/Users'' new_session =
      (Inr [WithDir (junction ''All Users'') True ''/Data''], s')"
    using demo_listing by (cases "ListDir demo_server ''/Users'' new_session") auto
  from listdir_sound [OF l] have "listable demo_server ''/Data''" by auto
  with l show ?thesis by auto
qed

text \<open>
  What a listing costs: one request, and at most thirteen more for each entry the server
  reports as a symbolic link; other entries are free, and the learned chroot depth stays at most
  five.
\<close>

lemma listdir_cost:
  assumes "srv_readdir srv path = Inr infos" and "ListDir srv path s = (res, s')"
    and "chrootDepth s \<le> maxChrootDepth"
  shows "length (sent s') \<le> length (sent s) + 1 + 13 * length (filter is_symlink infos) \<and>
    chrootDepth s' \<le> maxChrootDepth"
proof (cases res)
  case (Inl e)
  with ListDir_error assms have "s' = s" by fastforce
  with assms(3) show ?thesis by simp
next
  case (Inr es)
  with assms(2) have "ListDir srv path s = (Inr es, s')" by simp
  then have "list_entries_with resolve_target srv path infos (send (ReqReadDir path) s) = (es, s')"
    using assms(1) by (elim ListDir_cases) auto
  from listing.entries_session [OF this] assms(3) show ?thesis by simp
qed

lemma listdir_cost_witness:
  "length (sent (snd (ListDir demo_server ''/Users'' new_session))) \<le> 14"
proof -
  have r: "srv_readdir demo_server ''/Users'' = Inr [junction ''All Users'']"
    by (simp add: demo_server_def table_server_def)
  have f: "length (filter is_symlink [junction ''All Users'']) = 1" by code_simp
  show ?thesis
    using listdir_cost [OF r surjective_pairing, of new_session]
    unfolding f by (simp add: new_session_def)
qed

text \<open>
  C12: with nothing learned yet, an absolute link target is resolved by the least number of leading
  components, between one and five, whose removal leaves a directory the server lists; that number
  becomes the session's chroot depth, and a failure means that no number works.
\<close>

theorem resolve_least_depth:
  assumes "is_abs t" and "chrootDepth s = 0" and "resolveAbsoluteTarget srv t s = (r, s')"
  shows "let parts = split_on slash (path_clean t); n = chrootDepth s' in
    if r = [] then
      n = 0 \<and> (\<forall>m. 1 \<le> m \<and> m \<le> 5 \<and> m + 1 < length parts \<longrightarrow> \<not> listable srv (strip_path m parts))
    else 1 \<le> n \<and> n \<le> 5 \<and> n + 1 < length parts \<and> r = strip_path n parts \<and> listable srv r \<and>
      (\<forall>m. 1 \<le> m \<and> m < n \<longrightarrow> \<not> listable srv (strip_path m parts))"
  using assms(3)
proof (cases rule: resolveAbsoluteTarget_cases)
  case cached
  with assms(2) show ?thesis by simp
next
  case (redo s1)
  with assms(2) have d: "discover srv (split_on slash (path_clean t)) 1 s = (r, s')" by simp
  from discover_result [OF d] assms(1,2) show ?thesis
    by (auto simp: discovered_def Let_def live_depth_def discovered_abs maxChrootDepth_def
        strip_path_def)
qed

theorem resolve_least_depth_witness:
  "resolveAbsoluteTarget demo_server ''/mnt/export/Data'' new_session =
     (''/Data'', \<lparr>chrootDepth = 2, sent = [ReqReadDir ''/export/Data'', ReqReadDir ''/Data'']\<rparr>) \<and>
   \<not> listable demo_server (strip_path 1 (split_on slash ''/mnt/export/Data''))"
proof -
  have r: "resolveAbsoluteTarget demo_server ''/mnt/export/Data'' new_session =
     (''/Data'', \<lparr>chrootDepth = 2, sent = [ReqReadDir ''/export/Data'', ReqReadDir ''/Data'']\<rparr>)"
    by code_simp
  have c: "path_clean ''/mnt/export/Data'' = ''/mnt/export/Data''" by code_simp
  have "is_abs ''/mnt/export/Data''" "chrootDepth new_session = 0"
    by (simp_all add: new_session_def)
  from resolve_least_depth [OF this r]
  have "\<forall>m. 1 \<le> m \<and> m < 2 \<longrightarrow> \<not> listable demo_server (strip_path m (split_on slash ''/mnt/export/Data''))"
    unfolding c Let_def session.simps by (simp only: list.distinct if_False simp_thms) blast
  then have "\<not> listable demo_server (strip_path 1 (split_on slash ''/mnt/export/Data''))"
    by (metis one_less_numeral_iff order_refl semiring_norm(76))
  with r show ?thesis by blast
qed

text \<open>
  Once a session has learned the chroot depth, a target below the same mount point costs
  a single request when what is left of it is a directory the server lists, and the depth stays.
\<close>

lemma cached_depth_one_request:
  assumes "\<forall>x \<in> set (mount @ rest). normal_seg x" and "rest \<noteq> []" and "mount \<noteq> []"
    and "chrootDepth s = length mount" and "listable srv (abs_path rest)"
  shows "resolveAbsoluteTarget srv (abs_path (mount @ rest)) s =
    (abs_path rest, send (ReqReadDir (abs_path rest)) s)"
proof -
  have parts: "split_on slash (path_clean (abs_path (mount @ rest))) = [] # mount @ rest"
    using normal_path_clean_id [OF assms(1)] split_abs_path [OF assms(1)] assms(2) by simp
  have "join_with ''/'' rest \<noteq> []" using assms by (intro join_normal_neq_Nil) auto
  then show ?thesis
    unfolding resolveAbsoluteTarget_def parts
    using assms by (simp add: Let_def strip_path_def probe_dir_def)
qed

lemma cached_depth_one_request_witness:
  "resolveAbsoluteTarget demo_server ''/mnt/export/Data'' \<lparr>chrootDepth = 2, sent = []\<rparr> =
     (''/Data'', \<lparr>chrootDepth = 2, sent = [ReqReadDir ''/Data'']\<rparr>)"
proof -
  have "listable demo_server (abs_path [''Data''])" by code_simp
  with cached_depth_one_request [of "[''mnt'', ''export'']" "[''Data'']" "\<lparr>chrootDepth = 2, sent = []\<rparr>"
      demo_server]
  show ?thesis by (simp add: normal_seg_def send_def)
qed

text \<open>
  When no ancestor of a link's directory has a child of the target's name, the walk
  up the parents sends one request per level, the directory itself and the root included, and five
  at most.
\<close>

lemma ancestor_walk_miss_cost:
  assumes "\<forall>x \<in> set segs. normal_seg x"
    and "\<forall>c. \<not> listable srv (path_join [c, base])"
  shows "fst (ancestorWalkResolve srv (abs_path segs) base 0 s) = ([], 0) \<and>
    length (sent (snd (ancestorWalkResolve srv (abs_path segs) base 0 s))) =
      length (sent s) + min 5 (length segs + 1)"
  using assms length_ancestors_abs [OF assms(1), of "Suc maxJunctionDepth"]
  by (simp add: ancestorWalk_search first_listable_miss tried_all maxJunctionDepth_def)

lemma ancestor_walk_miss_cost_witness:
  "length (sent (snd (ancestorWalkResolve (table_server [] [] []) ''/a/b/c/d/e'' ''X'' 0 new_session))) = 5"
  using ancestor_walk_miss_cost [of "[''a'', ''b'', ''c'', ''d'', ''e'']" "table_server [] [] []" "''X''" new_session]
  by (simp add: normal_seg_def listable_def table_server_def new_session_def)

end
