(* ===== verification/Dial.thy ===== *)
theory Dial
  imports SftpClient
begin

text \<open>
  internal/sftpclient/client.go: the client's configuration, the host key signature a
  FileRecoverySession publishes, and Dial. The ssh and sftp packages are parameters: the parser of
  authorized_keys lines, the SSH dial and the SFTP subsystem.
\<close>

section \<open>Host key signatures\<close>

datatype hostkey_error =
    SigEmpty
  | SigMalformed string
  | SigHostPort string
  | SigKey string

definition netSplitHostPort :: "string \<Rightarrow> (string \<times> string) option" where
  "netSplitHostPort s =
     (let i = last_index (CHR '':'') s in
      if i < 0 then None
      else (let host = take (nat i) s; port = drop (nat i + 1) s
            in case parse_int port of None \<Rightarrow> None | Some _ \<Rightarrow> Some (host, port)))"

text \<open>The class \<open>\\s\<close> of Go's regular expressions.\<close>

definition re_space :: "char \<Rightarrow> bool" where
  "re_space c \<longleftrightarrow> c \<in> {CHR 0x09, CHR 0x0A, CHR 0x0C, CHR 0x0D, CHR '' ''}"

text \<open>
  The match of \<open>hostKeySigRe\<close>: a bracketed host, an optional colon and digits, and two words. Each
  part of the expression stops where the next must begin, so the match is unique: the bracket's
  content runs to the first closing bracket, a colon after it must start the port, and the words
  are separated by white space.
\<close>

definition re_words :: "string \<Rightarrow> (string \<times> string) option" where
  "re_words r =
     (let w1 = takeWhile (\<lambda>c. \<not> re_space c) (dropWhile re_space r);
          r1 = dropWhile (\<lambda>c. \<not> re_space c) (dropWhile re_space r);
          w2 = takeWhile (\<lambda>c. \<not> re_space c) (dropWhile re_space r1);
          r2 = dropWhile (\<lambda>c. \<not> re_space c) (dropWhile re_space r1)
      in if (r \<noteq> [] \<and> re_space (hd r)) \<and> w1 \<noteq> [] \<and> w2 \<noteq> [] \<and> dropWhile re_space r2 = []
         then Some (w1, w2) else None)"

definition hostKeySig_match :: "string \<Rightarrow> (string \<times> string \<times> string \<times> string) option" where
  "hostKeySig_match t =
     (case t of
        [] \<Rightarrow> None
      | c # u \<Rightarrow>
          (let host = takeWhile (\<lambda>x. x \<noteq> CHR '']'') u; rest = dropWhile (\<lambda>x. x \<noteq> CHR '']'') u
           in if c \<noteq> CHR ''['' \<or> host = [] \<or> rest = [] then None
              else (let after = tl rest;
                        has_port = (case after of [] \<Rightarrow> False | d # v \<Rightarrow> d = CHR '':'');
                        port = (if has_port then takeWhile is_digit (tl after) else []);
                        words = (if has_port then dropWhile is_digit (tl after) else after)
                    in if has_port \<and> port = [] then None
                       else map_option (\<lambda>(w1, w2). (host, port, w1, w2)) (re_words words))))"

definition ParseHostKeySignature ::
  "(string \<Rightarrow> (string, 'k) result) \<Rightarrow> string \<Rightarrow> (hostkey_error, 'k) result" where
  "ParseHostKeySignature parse_key sig =
     (if sig = [] then Inl SigEmpty
      else (case hostKeySig_match (trim_space sig) of
              None \<Rightarrow> Inl (SigMalformed sig)
            | Some (host, port, alg, key) \<Rightarrow>
                (let hostPort = (if port \<noteq> [] then host @ '':'' @ port else host) in
                 case netSplitHostPort hostPort of
                   None \<Rightarrow> Inl (SigHostPort hostPort)
                 | Some _ \<Rightarrow>
                     (case parse_key (alg @ '' '' @ key) of
                        Inl e \<Rightarrow> Inl (SigKey e)
                      | Inr k \<Rightarrow> Inr k))))"

text \<open>The host part of a signature, for the logs.\<close>

definition shortHostKeySig :: "string \<Rightarrow> string" where
  "shortHostKeySig sig =
     (if sig = [] then []
      else (let close_at = index_of '']'' sig in
            if close_at < 0 \<or> int (length sig) \<le> close_at + 1
            then (if 64 < length sig then take 64 sig @ ellipsis else sig)
            else take (nat close_at + 1) sig))"

section \<open>Client\<close>

record 'g client_config =
  cfg_username :: string
  cfg_signer :: "'g option"
  cfg_hostKeySig :: string
  cfg_connectTimeout :: duration

record 'g client =
  cl_username :: string
  cl_signer :: 'g
  cl_timeout :: duration

datatype new_client_error =
    SignerRequired
  | UsernameRequired
  | BadHostKey hostkey_error

definition NewClient ::
  "(string \<Rightarrow> (string, 'k) result) \<Rightarrow> 'g client_config \<Rightarrow> (new_client_error, 'g client) result" where
  "NewClient parse_key cfg =
     (case cfg_signer cfg of
        None \<Rightarrow> Inl SignerRequired
      | Some g \<Rightarrow>
          (if cfg_username cfg = [] then Inl UsernameRequired
           else (let c = \<lparr>cl_username = cfg_username cfg, cl_signer = g,
                          cl_timeout = cfg_connectTimeout cfg\<rparr>
                 in if cfg_hostKeySig cfg \<noteq> [] then
                      (case ParseHostKeySignature parse_key (cfg_hostKeySig cfg) of
                         Inl e \<Rightarrow> Inl (BadHostKey e)
                       | Inr _ \<Rightarrow> Inr c)
                    else Inr c)))"

section \<open>Dial\<close>

text \<open>\<open>ssh.ClientConfig\<close>, with the fixed host key its callback accepts.\<close>

record ('g, 'k) ssh_config =
  ssh_user :: string
  ssh_signer :: 'g
  ssh_hostKey :: 'k
  ssh_timeout :: duration

datatype dial_error =
    DialHostKey hostkey_error
  | DialSSH string
  | DialSFTP string

text \<open>
  The result, and the SSH connections closed on the way. A live session is the pair of the SFTP
  client and the connection under it.
\<close>

definition Dial ::
  "(string \<Rightarrow> (string, 'k) result) \<Rightarrow> (string \<Rightarrow> ('g, 'k) ssh_config \<Rightarrow> (string, 'c) result) \<Rightarrow>
   ('c \<Rightarrow> (string, 's) result) \<Rightarrow> 'g client \<Rightarrow> string \<Rightarrow> string \<Rightarrow>
   (dial_error, 's \<times> 'c) result \<times> 'c list" where
  "Dial parse_key ssh_dial sftp_new c addr hostKeySig =
     (case ParseHostKeySignature parse_key hostKeySig of
        Inl e \<Rightarrow> (Inl (DialHostKey e), [])
      | Inr hostKey \<Rightarrow>
          (case ssh_dial addr \<lparr>ssh_user = cl_username c, ssh_signer = cl_signer c,
                               ssh_hostKey = hostKey, ssh_timeout = cl_timeout c\<rparr> of
             Inl e \<Rightarrow> (Inl (DialSSH e), [])
           | Inr conn \<Rightarrow>
               (case sftp_new conn of
                  Inl e \<Rightarrow> (Inl (DialSFTP e), [conn])
                | Inr sc \<Rightarrow> (Inr (sc, conn), []))))"

text \<open>\<open>Session.Close\<close>: what it closes, for a session that may lack either layer.\<close>

datatype ('s, 'c) closed_layer =
    ClosedSFTP 's
  | ClosedSSH 'c

definition Close :: "('s option \<times> 'c option) option \<Rightarrow> ('s, 'c) closed_layer list" where
  "Close s =
     (case s of
        None \<Rightarrow> []
      | Some (sftp, ssh) \<Rightarrow>
          (case sftp of None \<Rightarrow> [] | Some x \<Rightarrow> [ClosedSFTP x]) @
          (case ssh of None \<Rightarrow> [] | Some x \<Rightarrow> [ClosedSSH x]))"

section \<open>Parsing lemmas\<close>

lemma takeWhile_sep: "\<forall>x \<in> set a. P x \<Longrightarrow> \<not> P c \<Longrightarrow> takeWhile P (a @ c # b) = a"
  and dropWhile_sep: "\<forall>x \<in> set a. P x \<Longrightarrow> \<not> P c \<Longrightarrow> dropWhile P (a @ c # b) = c # b"
  by (induction a) auto

text \<open>A word: not empty, no white space of either kind.\<close>

definition word_like :: "string \<Rightarrow> bool" where
  "word_like w \<longleftrightarrow> w \<noteq> [] \<and> (\<forall>c \<in> set w. \<not> re_space c)"

lemma dropWhile_sp_word:
  "word_like w \<Longrightarrow> dropWhile re_space (CHR '' '' # w @ r) = w @ r"
  by (cases w) (auto simp: word_like_def re_space_def)

lemma re_words_two:
  assumes "word_like a" and "word_like k"
  shows "re_words ('' '' @ a @ '' '' @ k) = Some (a, k)"
proof -
  have sp: "re_space (CHR '' '')" by (simp add: re_space_def)
  have "dropWhile re_space (CHR '' '' # a @ CHR '' '' # k) = a @ CHR '' '' # k"
    "dropWhile re_space (CHR '' '' # k) = k"
    using dropWhile_sp_word [OF assms(1)] dropWhile_sp_word [OF assms(2), of "[]"] by auto
  moreover have "takeWhile (\<lambda>c. \<not> re_space c) (a @ CHR '' '' # k) = a"
    using assms(1) sp by (intro takeWhile_sep) (auto simp: word_like_def)
  moreover have "dropWhile (\<lambda>c. \<not> re_space c) (a @ CHR '' '' # k) = CHR '' '' # k"
    using assms(1) sp by (intro dropWhile_sep) (auto simp: word_like_def)
  moreover have "takeWhile (\<lambda>c. \<not> re_space c) k = k" "dropWhile (\<lambda>c. \<not> re_space c) k = []"
    using assms(2) by (auto simp: word_like_def)
  moreover have "a \<noteq> []" "k \<noteq> []" using assms by (auto simp: word_like_def)
  ultimately show ?thesis
    using sp by (simp add: re_words_def Let_def del: takeWhile_eq_all_conv dropWhile_eq_Nil_conv)
qed

lemma netSplitHostPort_join:
  assumes "CHR '':'' \<notin> set p" and "parse_int p = Some v"
  shows "netSplitHostPort (h @ '':'' @ p) = Some (h, p)"
  using assms last_index_append [of "CHR '':''" p h]
  by (simp add: netSplitHostPort_def Let_def nat_add_distrib)

lemma digits_no_colon: "\<forall>c \<in> set p. is_digit c \<Longrightarrow> CHR '':'' \<notin> set p"
  by (auto simp: is_digit_def)

lemma hostKeySig_match_port:
  assumes "CHR '']'' \<notin> set h" "h \<noteq> []" "p \<noteq> []" "\<forall>c \<in> set p. is_digit c"
    and "word_like a" "word_like k"
  shows "hostKeySig_match (''['' @ h @ '']:'' @ p @ '' '' @ a @ '' '' @ k) = Some (h, p, a, k)"
proof -
  have h: "takeWhile (\<lambda>x. x \<noteq> CHR '']'') (h @ CHR '']'' # r) = h"
    "dropWhile (\<lambda>x. x \<noteq> CHR '']'') (h @ CHR '']'' # r) = CHR '']'' # r" for r
    using assms(1) by (auto intro!: takeWhile_sep dropWhile_sep)
  have nd: "\<not> is_digit (CHR '' '')" by (simp add: is_digit_def)
  have "takeWhile is_digit (p @ CHR '' '' # a @ '' '' @ k) = p"
    "dropWhile is_digit (p @ CHR '' '' # a @ '' '' @ k) = CHR '' '' # a @ '' '' @ k"
    using assms(4) nd by (auto intro!: takeWhile_sep dropWhile_sep)
  with h assms(2,3) re_words_two [OF assms(5,6)] show ?thesis
    by (simp add: hostKeySig_match_def Let_def)
qed

lemma hostKeySig_match_plain:
  assumes "CHR '']'' \<notin> set h" "h \<noteq> []" "word_like a" "word_like k"
  shows "hostKeySig_match (''['' @ h @ '']'' @ '' '' @ a @ '' '' @ k) = Some (h, [], a, k)"
proof -
  have "takeWhile (\<lambda>x. x \<noteq> CHR '']'') (h @ CHR '']'' # r) = h"
    "dropWhile (\<lambda>x. x \<noteq> CHR '']'') (h @ CHR '']'' # r) = CHR '']'' # r" for r
    using assms(1) by (auto intro!: takeWhile_sep dropWhile_sep)
  with assms(2) re_words_two [OF assms(3,4)] show ?thesis
    by (simp add: hostKeySig_match_def Let_def)
qed

lemma word_like_graphic: "w \<noteq> [] \<Longrightarrow> \<forall>c \<in> set w. graphic c \<Longrightarrow> word_like w"
  unfolding word_like_def re_space_def graphic_def by auto

lemma ParseHostKeySignature_forms:
  assumes "h \<noteq> []" "CHR '']'' \<notin> set h" "p \<noteq> []" "\<forall>c \<in> set p. is_digit c" "parse_int p \<noteq> None"
    and "a \<noteq> []" "\<forall>c \<in> set a. graphic c" "k \<noteq> []" "\<forall>c \<in> set k. graphic c"
  shows "ParseHostKeySignature pk (''['' @ h @ '']:'' @ p @ '' '' @ a @ '' '' @ k) =
      map_sum SigKey id (pk (a @ '' '' @ k))"
    and "ParseHostKeySignature pk (''['' @ h @ '':'' @ p @ ''] '' @ a @ '' '' @ k) =
      map_sum SigKey id (pk (a @ '' '' @ k))"
proof -
  have w: "word_like a" "word_like k" using assms word_like_graphic by auto
  have last_k: "graphic (last k)" using assms(8,9) by simp
  have open_graphic: "graphic (CHR ''['')" by (simp add: graphic_def)
  have col: "CHR '':'' \<notin> set p" using digits_no_colon assms(4) by blast
  obtain v where v: "parse_int p = Some v" using assms(5) by auto
  have "trim_space (''['' @ h @ '']:'' @ p @ '' '' @ a @ '' '' @ k) = ''['' @ h @ '']:'' @ p @ '' '' @ a @ '' '' @ k"
    using last_k open_graphic assms(8) by (intro trim_space_graphic) auto
  then show "ParseHostKeySignature pk (''['' @ h @ '']:'' @ p @ '' '' @ a @ '' '' @ k) =
      map_sum SigKey id (pk (a @ '' '' @ k))"
    using hostKeySig_match_port [OF assms(2,1,3,4) w] netSplitHostPort_join [OF col v, of h] assms(3)
    by (cases "pk (a @ '' '' @ k)") (simp_all add: ParseHostKeySignature_def)
  have "trim_space (''['' @ (h @ '':'' @ p) @ '']'' @ '' '' @ a @ '' '' @ k) =
      ''['' @ (h @ '':'' @ p) @ '']'' @ '' '' @ a @ '' '' @ k"
    using last_k open_graphic assms(8) by (intro trim_space_graphic) auto
  moreover have "CHR '']'' \<notin> set (h @ '':'' @ p)" using assms(2,4) by (auto simp: is_digit_def)
  ultimately show "ParseHostKeySignature pk (''['' @ h @ '':'' @ p @ ''] '' @ a @ '' '' @ k) =
      map_sum SigKey id (pk (a @ '' '' @ k))"
    using hostKeySig_match_plain [of "h @ '':'' @ p", OF _ _ w] netSplitHostPort_join [OF col v, of h]
    by (cases "pk (a @ '' '' @ k)") (simp_all add: ParseHostKeySignature_def)
qed

section \<open>Properties\<close>

text \<open>
  C22: Both spellings of a host key signature, \<open>[host]:port alg key\<close> as the
  FileRecoverySession publishes it and \<open>[host:port] alg key\<close>, are accepted for every host
  without a closing bracket and every port that is a number, and both yield the key written in
  \<open>alg key\<close>.
\<close>

theorem hostkey_both_forms:
  assumes "h \<noteq> []" "CHR '']'' \<notin> set h" "p \<noteq> []" "\<forall>c \<in> set p. is_digit c" "parse_int p \<noteq> None"
    and "a \<noteq> []" "\<forall>c \<in> set a. graphic c" "k \<noteq> []" "\<forall>c \<in> set k. graphic c"
  shows "ParseHostKeySignature pk (''['' @ h @ '']:'' @ p @ '' '' @ a @ '' '' @ k) =
      map_sum SigKey id (pk (a @ '' '' @ k)) \<and>
    ParseHostKeySignature pk (''['' @ h @ '':'' @ p @ ''] '' @ a @ '' '' @ k) =
      map_sum SigKey id (pk (a @ '' '' @ k))"
  using ParseHostKeySignature_forms [OF assms] by (intro conjI)

theorem hostkey_both_forms_witness:
  "ParseHostKeySignature (\<lambda>s. Inr s) ''[frs-x.kasten-io]:2222 ssh-ed25519 AAAA'' = Inr ''ssh-ed25519 AAAA'' \<and>
   ParseHostKeySignature (\<lambda>s. Inr s) ''[frs-x.kasten-io:2222] ssh-ed25519 AAAA'' = Inr ''ssh-ed25519 AAAA''"
proof -
  have p: "parse_int ''2222'' \<noteq> None" by code_simp
  show ?thesis
    using hostkey_both_forms [of "''frs-x.kasten-io''" "''2222''" "''ssh-ed25519''" "''AAAA''" "\<lambda>s. Inr s"] p
    by (simp add: is_digit_def graphic_def)
qed

text \<open>
  A dial that succeeds has gone through an SSH handshake given the host key parsed from the signature, as
  the client's user with its signer; no signature that fails to parse reaches the network, and a connection
  without an SFTP session on it is closed.
\<close>

lemma Dial_ok:
  assumes "fst (Dial pk ssh_dial sftp_new c addr sig) = Inr (sc, conn)"
  shows "\<exists>key. ParseHostKeySignature pk sig = Inr key \<and> sftp_new conn = Inr sc \<and>
    ssh_dial addr \<lparr>ssh_user = cl_username c, ssh_signer = cl_signer c, ssh_hostKey = key, ssh_timeout = cl_timeout c\<rparr> = Inr conn"
  using assms by (auto simp: Dial_def split: sum.splits)

lemma Dial_closes:
  "snd (Dial pk ssh_dial sftp_new c addr sig) = (case fst (Dial pk ssh_dial sftp_new c addr sig) of
     Inl (DialSFTP e) \<Rightarrow> snd (Dial pk ssh_dial sftp_new c addr sig) | _ \<Rightarrow> [])"
  by (auto simp: Dial_def split: sum.splits)

end
