(* ===== verification/ExpiringMap.thy ===== *)
theory ExpiringMap
  imports Prelude "HOL-Library.AList" "HOL-Library.Multiset"
begin

text \<open>
  Go maps as association lists with distinct keys (the order of the list standing for the order in
  which a range loop meets the entries), and the contract of a map whose entries age: what is found
  after an insertion, a removal and an eviction. The SFTP pool and the wizard's watch map both
  provide it.
\<close>

section \<open>Go maps\<close>

type_synonym ('k, 'v) gomap = "('k \<times> 'v) list"

abbreviation keys :: "('k, 'v) gomap \<Rightarrow> 'k list" where
  "keys m \<equiv> map fst m"

abbreviation wf_map :: "('k, 'v) gomap \<Rightarrow> bool" where
  "wf_map m \<equiv> distinct (keys m)"

lemma wf_update [wf_rules]: "wf_map m \<Longrightarrow> wf_map (AList.update k v m)"
  by (rule distinct_update)

lemma wf_delete [wf_rules]: "wf_map m \<Longrightarrow> wf_map (AList.delete k m)"
  by (rule distinct_delete)

lemma wf_filter [wf_rules]: "wf_map m \<Longrightarrow> wf_map (filter P m)"
  by (simp add: distinct_map_filter)

lemma map_of_filter_wf:
  "wf_map m \<Longrightarrow>
     map_of (filter P m) k = (case map_of m k of None \<Rightarrow> None | Some v \<Rightarrow> if P (k, v) then Some v else None)"
proof (induction m)
  case (Cons kv m)
  obtain k0 v0 where kv: "kv = (k0, v0)" by (cases kv)
  have "k0 \<notin> set (keys m)" using Cons.prems kv by simp
  then have "map_of m k0 = None" "map_of (filter P m) k0 = None"
    by (auto simp: map_of_eq_None_iff)
  then show ?case using Cons kv by (cases "k0 = k") auto
qed simp

lemmas [find_simps] = update_conv' delete_conv' map_of_filter_wf

lemma delete_none: "map_of m k = None \<Longrightarrow> AList.delete k m = m"
  by (induction m) (auto simp: AList.delete_eq split: if_splits)

lemma mset_delete:
  "wf_map m \<Longrightarrow> map_of m k = Some v \<Longrightarrow> mset m = add_mset (k, v) (mset (AList.delete k m))"
proof (induction m)
  case (Cons kv m)
  obtain k0 v0 where kv: "kv = (k0, v0)" by (cases kv)
  show ?case
  proof (cases "k0 = k")
    case True
    then have "map_of m k = None" using Cons.prems(1) kv by (simp add: map_of_eq_None_iff)
    then show ?thesis using True kv Cons.prems(2) delete_none [of m k] by simp
  next
    case False
    then show ?thesis using Cons kv by simp
  qed
qed simp

lemma mset_update:
  "wf_map m \<Longrightarrow> mset (AList.update k v m) = add_mset (k, v) (mset (AList.delete k m))"
proof (induction m)
  case (Cons kv m)
  obtain k0 v0 where kv: "kv = (k0, v0)" by (cases kv)
  show ?case
  proof (cases "k0 = k")
    case True
    then have "map_of m k = None" using Cons.prems kv by (simp add: map_of_eq_None_iff)
    then show ?thesis using True kv delete_none [of m k] by simp
  next
    case False
    then show ?thesis using Cons kv by simp
  qed
qed simp

lemma mset_filter_split: "mset m = mset (filter P m) + mset (filter (\<lambda>x. \<not> P x) m)"
  by simp

section \<open>Ageing entries\<close>

lemma time_sub_mono: "t \<le> t' \<Longrightarrow> time_sub t u \<le> time_sub t' u"
  by (auto simp: time_sub_def)

locale expiring_store =
  fixes find :: "'s \<Rightarrow> 'k \<Rightarrow> 'v option"
    and insert :: "'k \<Rightarrow> 'v \<Rightarrow> 's \<Rightarrow> 's"
    and remove :: "'k \<Rightarrow> 's \<Rightarrow> 's"
    and evict :: "gotime \<Rightarrow> 's \<Rightarrow> 's"
    and stamp :: "'v \<Rightarrow> gotime"
    and age :: duration
    and ok :: "'s \<Rightarrow> bool"
  assumes ok_insert: "ok s \<Longrightarrow> ok (insert k v s)"
    and ok_remove: "ok s \<Longrightarrow> ok (remove k s)"
    and ok_evict: "ok s \<Longrightarrow> ok (evict now s)"
    and find_insert: "ok s \<Longrightarrow> find (insert k v s) k' = (if k' = k then Some v else find s k')"
    and find_remove: "ok s \<Longrightarrow> find (remove k s) k' = (if k' = k then None else find s k')"
    and find_evict: "ok s \<Longrightarrow> find (evict now s) k' =
      (case find s k' of None \<Rightarrow> None
       | Some v \<Rightarrow> if time_sub now (stamp v) > age then None else Some v)"
begin

lemma survivor_young:
  "ok s \<Longrightarrow> find (evict now s) k = Some v \<Longrightarrow> time_sub now (stamp v) \<le> age \<and> find s k = Some v"
  by (auto simp: find_evict split: option.splits if_splits)

lemma young_survives:
  "ok s \<Longrightarrow> find s k = Some v \<Longrightarrow> time_sub now (stamp v) \<le> age \<Longrightarrow> find (evict now s) k = Some v"
  by (simp add: find_evict)

lemma ok_evicts: "ok s \<Longrightarrow> ok (fold (evict) ts s)"
  by (induction ts arbitrary: s) (auto intro: ok_evict)

text \<open>Sweeping at each tick leaves what one sweep at the last tick would.\<close>

lemma evict_evict:
  assumes "ok s" and "t \<le> t'"
  shows "find (evict t' (evict t s)) k = find (evict t' s) k"
proof -
  have "time_sub t (stamp v) > age \<Longrightarrow> time_sub t' (stamp v) > age" for v
    using time_sub_mono [OF assms(2), of "stamp v"] by simp
  then show ?thesis using assms(1) by (auto simp: find_evict ok_evict split: option.splits)
qed

lemma evicts_last:
  "ok s \<Longrightarrow> sorted (ts @ [t]) \<Longrightarrow> find (fold (evict) (ts @ [t]) s) k = find (evict t s) k"
proof (induction ts arbitrary: s)
  case (Cons u ts)
  then have "find (fold (evict) (ts @ [t]) (evict u s)) k = find (evict t (evict u s)) k"
    using ok_evict by simp
  then show ?case using Cons.prems evict_evict [of s u t] by simp
qed simp

lemma insert_then_evicts:
  assumes "ok s" "sorted (ts @ [t])" "time_sub t (stamp v) \<le> age"
  shows "find (fold (evict) (ts @ [t]) (insert k v s)) k = Some v"
  using assms young_survives [of "insert k v s" k v t]
  by (simp only: evicts_last ok_insert) (simp add: find_insert ok_insert)

end

end
