(* ===== verification/Pool.thy ===== *)
theory Pool
  imports ExpiringMap
begin

text \<open>
  internal/sftpclient/pool.go: the pool of SFTP sessions keyed by cookie and FileRecoverySession.
  A session is a handle; \<open>pool_closed\<close> lists the handles whose Close the pool has called, in the
  order of the calls (a \<open>go sess.Close()\<close> counts when it is started). The time each operation reads
  from the clock is an argument.
\<close>

section \<open>State and operations\<close>

record nsname =
  nn_ns :: string
  nn_name :: string

record session_key =
  sk_user :: string
  sk_frs :: nsname

record 'h pool_entry =
  pe_sess :: 'h
  pe_lastUsedAt :: gotime

record 'h pool =
  pool_entries :: "(session_key, 'h pool_entry) gomap"
  pool_ttl :: duration
  pool_closed :: "'h list"

definition NewPool :: "duration \<Rightarrow> 'h pool" where
  "NewPool ttl = \<lparr>pool_entries = [], pool_ttl = ttl, pool_closed = []\<rparr>"

definition Store :: "session_key \<Rightarrow> 'h \<Rightarrow> gotime \<Rightarrow> 'h pool \<Rightarrow> 'h pool" where
  "Store key sess now p =
     p\<lparr>pool_entries := AList.update key \<lparr>pe_sess = sess, pe_lastUsedAt = now\<rparr> (pool_entries p)\<rparr>"

text \<open>\<open>now\<close> is the clock at the expiry check, \<open>bump\<close> the clock at the update after it.\<close>

definition Get :: "session_key \<Rightarrow> gotime \<Rightarrow> gotime \<Rightarrow> 'h pool \<Rightarrow> 'h option \<times> 'h pool" where
  "Get key now bump p =
     (case map_of (pool_entries p) key of
        None \<Rightarrow> (None, p)
      | Some e \<Rightarrow>
          if time_sub now (pe_lastUsedAt e) > pool_ttl p
          then (None, p\<lparr>pool_entries := AList.delete key (pool_entries p),
                        pool_closed := pool_closed p @ [pe_sess e]\<rparr>)
          else (Some (pe_sess e),
                p\<lparr>pool_entries := AList.update key (e\<lparr>pe_lastUsedAt := bump\<rparr>) (pool_entries p)\<rparr>))"

definition CloseKey :: "session_key \<Rightarrow> 'h pool \<Rightarrow> 'h pool" where
  "CloseKey key p =
     (case map_of (pool_entries p) key of
        None \<Rightarrow> p
      | Some e \<Rightarrow> p\<lparr>pool_entries := AList.delete key (pool_entries p),
                    pool_closed := pool_closed p @ [pe_sess e]\<rparr>)"

definition idle :: "duration \<Rightarrow> gotime \<Rightarrow> session_key \<times> 'h pool_entry \<Rightarrow> bool" where
  "idle ttl now = (\<lambda>(k, e). time_sub now (pe_lastUsedAt e) > ttl)"

definition Sweep :: "gotime \<Rightarrow> 'h pool \<Rightarrow> 'h pool" where
  "Sweep now p =
     p\<lparr>pool_entries := filter (\<lambda>e. \<not> idle (pool_ttl p) now e) (pool_entries p),
       pool_closed := pool_closed p @
         map (\<lambda>(k, e). pe_sess e) (filter (idle (pool_ttl p) now) (pool_entries p))\<rparr>"

definition Len :: "'h pool \<Rightarrow> nat" where
  "Len p = length (pool_entries p)"

definition of_frs :: "string \<Rightarrow> string \<Rightarrow> session_key \<times> 'h pool_entry \<Rightarrow> bool" where
  "of_frs ns name = (\<lambda>(k, e). nn_ns (sk_frs k) = ns \<and> nn_name (sk_frs k) = name)"

definition CloseAllForFRS :: "string \<Rightarrow> string \<Rightarrow> 'h pool \<Rightarrow> 'h pool" where
  "CloseAllForFRS ns name p =
     p\<lparr>pool_entries := filter (\<lambda>e. \<not> of_frs ns name e) (pool_entries p),
       pool_closed := pool_closed p @
         map (\<lambda>(k, e). pe_sess e) (filter (of_frs ns name) (pool_entries p))\<rparr>"

text \<open>The operations as data, so that any sequence of them is a list.\<close>

datatype 'h pool_op =
    OpStore session_key 'h gotime
  | OpGet session_key gotime gotime
  | OpClose session_key
  | OpSweep gotime
  | OpCloseAll string string

fun pool_step :: "'h pool_op \<Rightarrow> 'h pool \<Rightarrow> 'h pool" where
  "pool_step (OpStore key h now) p = Store key h now p"
| "pool_step (OpGet key now bump) p = snd (Get key now bump p)"
| "pool_step (OpClose key) p = CloseKey key p"
| "pool_step (OpSweep now) p = Sweep now p"
| "pool_step (OpCloseAll ns name) p = CloseAllForFRS ns name p"

abbreviation pool_run :: "'h pool_op list \<Rightarrow> 'h pool \<Rightarrow> 'h pool" where
  "pool_run ops p \<equiv> fold pool_step ops p"

section \<open>Handles\<close>

text \<open>
  The handles given to Store, the handles in the pool, and the handles that a Store has displaced
  from a key already in use.
\<close>

fun stored_op :: "'h pool_op \<Rightarrow> 'h list" where
  "stored_op (OpStore key h now) = [h]"
| "stored_op _ = []"

definition stored :: "'h pool_op list \<Rightarrow> 'h list" where
  "stored ops = concat (map stored_op ops)"

definition handle :: "session_key \<times> 'h pool_entry \<Rightarrow> 'h" where
  "handle = (\<lambda>(k, e). pe_sess e)"

definition live :: "'h pool \<Rightarrow> 'h list" where
  "live p = map handle (pool_entries p)"

fun displaced_op :: "'h pool_op \<Rightarrow> 'h pool \<Rightarrow> 'h list" where
  "displaced_op (OpStore key h now) p =
     (case map_of (pool_entries p) key of None \<Rightarrow> [] | Some e \<Rightarrow> [pe_sess e])"
| "displaced_op _ p = []"

fun displaced :: "'h pool_op list \<Rightarrow> 'h pool \<Rightarrow> 'h list" where
  "displaced [] p = []"
| "displaced (op # ops) p = displaced_op op p @ displaced ops (pool_step op p)"

abbreviation wf_pool :: "'h pool \<Rightarrow> bool" where
  "wf_pool p \<equiv> wf_map (pool_entries p)"

lemmas pool_ops = Store_def Get_def CloseKey_def Sweep_def CloseAllForFRS_def

lemma pool_step_wf: "wf_pool p \<Longrightarrow> wf_pool (pool_step op p)"
  by (cases op) (auto simp: pool_ops wf_rules split: option.splits)

lemma pool_step_ttl [simp]: "pool_ttl (pool_step op p) = pool_ttl p"
  by (cases op) (auto simp: pool_ops split: option.splits)

lemma pool_run_wf: "wf_pool p \<Longrightarrow> wf_pool (pool_run ops p)"
  by (induction ops arbitrary: p) (auto intro: pool_step_wf)

lemma pool_run_ttl [simp]: "pool_ttl (pool_run ops p) = pool_ttl p"
  by (induction ops arbitrary: p) auto

lemma live_delete:
  "wf_map m \<Longrightarrow> map_of m k = Some e \<Longrightarrow>
     image_mset handle (mset m) = add_mset (pe_sess e) (image_mset handle (mset (AList.delete k m)))"
  by (simp add: mset_delete handle_def)

lemma filter_conserves:
  "image_mset handle (mset (filter P m)) + image_mset handle (mset (filter (\<lambda>x. \<not> P x) m)) =
     image_mset handle (mset m)"
  by (metis image_mset_union mset_filter mset_filter_split)

text \<open>One step: every handle in the pool or stored is afterwards live, closed by it or displaced.\<close>

lemma pool_step_conserves:
  assumes "wf_pool p"
  shows "mset (live (pool_step op p)) + mset (pool_closed (pool_step op p)) + mset (displaced_op op p) =
    mset (live p) + mset (pool_closed p) + mset (stored_op op)"
proof (cases op)
  case (OpStore key h now)
  show ?thesis
  proof (cases "map_of (pool_entries p) key")
    case None
    then show ?thesis using OpStore assms
      by (simp add: Store_def live_def mset_update delete_none) (simp add: handle_def)
  next
    case (Some e)
    then show ?thesis using OpStore assms live_delete [OF assms Some]
      by (simp add: Store_def live_def mset_update) (simp add: handle_def)
  qed
next
  case (OpGet key now bump)
  show ?thesis
  proof (cases "map_of (pool_entries p) key")
    case (Some e)
    then show ?thesis using OpGet live_delete [OF assms Some] assms
      by (simp add: Get_def live_def mset_update) (simp add: handle_def)
  qed (simp add: OpGet Get_def)
next
  case (OpClose key)
  then show ?thesis using live_delete [OF assms, of key]
    by (auto simp: CloseKey_def live_def split: option.splits)
next
  case (OpSweep now)
  then show ?thesis using filter_conserves [of "idle (pool_ttl p) now" "pool_entries p"]
    by (simp add: Sweep_def live_def add.commute flip: handle_def)
next
  case (OpCloseAll ns name)
  then show ?thesis using filter_conserves [of "of_frs ns name" "pool_entries p"]
    by (simp add: CloseAllForFRS_def live_def add.commute flip: handle_def)
qed

lemma pool_run_conserves:
  "wf_pool p \<Longrightarrow>
     mset (live (pool_run ops p)) + mset (pool_closed (pool_run ops p)) + mset (displaced ops p) =
     mset (live p) + mset (pool_closed p) + mset (stored ops)"
proof (induction ops arbitrary: p)
  case (Cons op ops)
  have "wf_pool (pool_step op p)" by (rule pool_step_wf [OF Cons.prems])
  from Cons.IH [OF this] pool_step_conserves [OF Cons.prems, of op]
  show ?case by (simp add: stored_def ac_simps)
qed (simp add: stored_def)

text \<open>Handles stay distinct, and none appears but the one stored.\<close>

lemma pool_step_handles:
  assumes "wf_pool p" and "distinct (live p @ pool_closed p @ stored_op op)"
  shows "distinct (live (pool_step op p) @ pool_closed (pool_step op p))"
    and "set (live (pool_step op p) @ pool_closed (pool_step op p)) \<subseteq> set (live p @ pool_closed p @ stored_op op)"
proof -
  have m: "mset (live (pool_step op p) @ pool_closed (pool_step op p) @ displaced_op op p) =
      mset (live p @ pool_closed p @ stored_op op)"
    using pool_step_conserves [OF assms(1), of op] by (simp add: add.assoc)
  have "distinct (live (pool_step op p) @ pool_closed (pool_step op p) @ displaced_op op p)"
    using assms(2) mset_eq_imp_distinct_iff [OF m] by blast
  then show "distinct (live (pool_step op p) @ pool_closed (pool_step op p))" by auto
  show "set (live (pool_step op p) @ pool_closed (pool_step op p)) \<subseteq> set (live p @ pool_closed p @ stored_op op)"
    using mset_eq_setD [OF m] by auto
qed

lemma wf_NewPool [simp]: "wf_pool (NewPool ttl)"
  and live_NewPool [simp]: "live (NewPool ttl) = []"
  and closed_NewPool [simp]: "pool_closed (NewPool ttl) = []"
  and ttl_NewPool [simp]: "pool_ttl (NewPool ttl) = ttl"
  by (simp_all add: NewPool_def live_def)

lemma Get_SomeD:
  assumes "fst (Get key now bump p) = Some h"
  shows "h \<in> set (live p)" "pool_closed (snd (Get key now bump p)) = pool_closed p"
    "\<exists>e. map_of (pool_entries p) key = Some e \<and> pe_sess e = h \<and> time_sub now (pe_lastUsedAt e) \<le> pool_ttl p"
  using assms by (auto simp: Get_def live_def handle_def dest: map_of_SomeD split: option.splits if_splits)

section \<open>The pool as an expiring store\<close>

lemma find_Sweep:
  "wf_pool p \<Longrightarrow> map_of (pool_entries (Sweep now p)) key =
     (case map_of (pool_entries p) key of None \<Rightarrow> None
      | Some e \<Rightarrow> if time_sub now (pe_lastUsedAt e) > pool_ttl p then None else Some e)"
  by (auto simp: Sweep_def find_simps idle_def split: option.splits)

interpretation sftp_pool: expiring_store
  "\<lambda>p. map_of (pool_entries p)" "\<lambda>key e. Store key (pe_sess e) (pe_lastUsedAt e)" CloseKey Sweep
  pe_lastUsedAt ttl "\<lambda>p. wf_pool p \<and> pool_ttl p = ttl" for ttl
proof unfold_locales
  fix key now and e :: "'h pool_entry" and p :: "'h pool" and key'
  assume "wf_pool p \<and> pool_ttl p = ttl"
  then show "map_of (pool_entries (Sweep now p)) key' =
      (case map_of (pool_entries p) key' of None \<Rightarrow> None
       | Some e \<Rightarrow> if time_sub now (pe_lastUsedAt e) > ttl then None else Some e)"
    using find_Sweep by blast
qed (auto simp: Store_def CloseKey_def Sweep_def wf_rules find_simps
    split: option.splits)

section \<open>Properties\<close>

text \<open>
  Whatever the sequence of operations on a new pool, every session stored in it is accounted
  for exactly once: it is still pooled, or its Close has been called once, or a later Store under
  the same key displaced it (and then it is never closed).
\<close>

lemma pool_conservation:
  "mset (stored ops) =
     mset (live (pool_run ops (NewPool ttl))) + mset (pool_closed (pool_run ops (NewPool ttl))) +
     mset (displaced ops (NewPool ttl))"
  using pool_run_conserves [OF wf_NewPool, of ops ttl] by simp

text \<open>
  After any sequence of operations that stored distinct sessions, a session handed out by Get
  was stored, was used within the TTL before and has not been closed by the pool.
\<close>

lemma pool_get_not_closed:
  assumes "distinct (stored ops)"
    and "fst (Get key now bump (pool_run ops (NewPool ttl))) = Some h"
  shows "h \<in> set (stored ops) \<and>
    h \<notin> set (pool_closed (snd (Get key now bump (pool_run ops (NewPool ttl))))) \<and>
    (\<exists>e. map_of (pool_entries (pool_run ops (NewPool ttl))) key = Some e \<and> pe_sess e = h \<and>
         time_sub now (pe_lastUsedAt e) \<le> ttl)"
proof -
  let ?p = "pool_run ops (NewPool ttl)"
  have c: "mset (stored ops) = mset (live ?p @ pool_closed ?p @ displaced ops (NewPool ttl))"
    using pool_run_conserves [OF wf_NewPool, of ops ttl] by (simp add: add.assoc)
  then have "distinct (live ?p @ pool_closed ?p @ displaced ops (NewPool ttl))"
    using assms(1) mset_eq_imp_distinct_iff by blast
  moreover have "set (stored ops) = set (live ?p @ pool_closed ?p @ displaced ops (NewPool ttl))"
    using c by (rule mset_eq_setD)
  ultimately show ?thesis using Get_SomeD [OF assms(2)] by auto
qed

definition demo_key :: "string \<Rightarrow> session_key" where
  "demo_key u = \<lparr>sk_user = u, sk_frs = \<lparr>nn_ns = ''db'', nn_name = ''frs-1''\<rparr>\<rparr>"

lemma pool_get_not_closed_witness:
  "distinct (stored [OpStore (demo_key ''u'') (1::nat) 0, OpSweep 5]) \<and>
   (1::nat) \<in> set (stored [OpStore (demo_key ''u'') 1 0, OpSweep 5])"
proof -
  have "distinct (stored [OpStore (demo_key ''u'') (1::nat) 0, OpSweep 5])" by (simp add: stored_def)
  moreover have "fst (Get (demo_key ''u'') 9 9
      (pool_run [OpStore (demo_key ''u'') (1::nat) 0, OpSweep 5] (NewPool 10))) = Some 1"
    by code_simp
  ultimately show ?thesis
    using pool_get_not_closed [of "[OpStore (demo_key ''u'') (1::nat) 0, OpSweep 5]" "demo_key ''u''" 9 9 10 1]
    by blast
qed

text \<open>
  A sequence of sweeps in the order of time leaves in the pool what the last of them alone
  would, namely exactly the sessions not idle for longer than the TTL at that time, and one sweep
  closes exactly the others.
\<close>

lemma pool_sweeps_exact:
  assumes "wf_pool p" and "sorted (ts @ [t])"
  shows "map_of (pool_entries (fold Sweep (ts @ [t]) p)) key =
      (case map_of (pool_entries p) key of None \<Rightarrow> None
       | Some e \<Rightarrow> if time_sub t (pe_lastUsedAt e) > pool_ttl p then None else Some e) \<and>
    (\<exists>gone. pool_closed (Sweep t p) = pool_closed p @ gone \<and>
      mset gone = {#pe_sess e. (k, e) \<in># filter_mset (idle (pool_ttl p) t) (mset (pool_entries p))#})"
proof
  show "map_of (pool_entries (fold Sweep (ts @ [t]) p)) key =
      (case map_of (pool_entries p) key of None \<Rightarrow> None
       | Some e \<Rightarrow> if time_sub t (pe_lastUsedAt e) > pool_ttl p then None else Some e)"
    using sftp_pool.evicts_last [OF _ assms(2), of p "pool_ttl p" key] assms(1) find_Sweep by simp
qed (simp add: Sweep_def)

lemma pool_sweeps_exact_witness:
  "map_of (pool_entries (fold Sweep ([3] @ [11])
     (pool_run [OpStore (demo_key ''u'') (1::nat) 0, OpStore (demo_key ''v'') 2 4] (NewPool 10)))) (demo_key ''u'') = None"
  using pool_sweeps_exact [of "pool_run [OpStore (demo_key ''u'') (1::nat) 0, OpStore (demo_key ''v'') 2 4] (NewPool 10)"
      "[3]" 11 "demo_key ''u''", OF pool_run_wf [OF wf_NewPool]]
  by (simp add: NewPool_def Store_def demo_key_def time_sub_def max_i64_def min_i64_def)

fun gets :: "session_key \<Rightarrow> gotime list \<Rightarrow> 'h pool \<Rightarrow> 'h option list" where
  "gets key [] p = []"
| "gets key (t # ts) p = fst (Get key t t p) # gets key ts (snd (Get key t t p))"

fun gaps_within :: "duration \<Rightarrow> gotime \<Rightarrow> gotime list \<Rightarrow> bool" where
  "gaps_within ttl t0 [] = True"
| "gaps_within ttl t0 (t # ts) = (time_sub t t0 \<le> ttl \<and> gaps_within ttl t ts)"

lemma gets_hit:
  assumes "wf_pool p" "map_of (pool_entries p) key = Some \<lparr>pe_sess = h, pe_lastUsedAt = t0\<rparr>"
    and "gaps_within (pool_ttl p) t0 ts"
  shows "gets key ts p = replicate (length ts) (Some h)"
  using assms
proof (induction ts arbitrary: p t0)
  case (Cons t ts)
  let ?p = "snd (Get key t t p)"
  have g: "Get key t t p = (Some h,
      p\<lparr>pool_entries := AList.update key \<lparr>pe_sess = h, pe_lastUsedAt = t\<rparr> (pool_entries p)\<rparr>)"
    using Cons.prems by (simp add: Get_def)
  have "wf_pool ?p" using Cons.prems(1) by (simp add: g wf_rules)
  moreover have "map_of (pool_entries ?p) key = Some \<lparr>pe_sess = h, pe_lastUsedAt = t\<rparr>"
    by (simp add: g find_simps)
  moreover have "gaps_within (pool_ttl ?p) t ts" using Cons.prems(3) by (simp add: g)
  ultimately have "gets key ts ?p = replicate (length ts) (Some h)" by (rule Cons.IH)
  then show ?case by (simp add: g)
qed simp

text \<open>
  A session that is used at least once every TTL is never lost: a Store followed by any
  number of Gets, each within the TTL of the one before, hands out the stored session every time.
\<close>

lemma pool_keeps_used:
  assumes "wf_pool p" and "gaps_within (pool_ttl p) t0 ts"
  shows "gets key ts (Store key h t0 p) = replicate (length ts) (Some h)"
  by (rule gets_hit [of _ _ _ t0]) (use assms in \<open>auto simp: Store_def wf_rules find_simps\<close>)

lemma pool_keeps_used_witness:
  "gets (demo_key ''u'') [8, 17, 27] (Store (demo_key ''u'') (1::nat) 0 (NewPool 10)) = [Some 1, Some 1, Some 1]"
  using pool_keeps_used [of "NewPool 10" 0 "[8, 17, 27]" "demo_key ''u''" "1::nat"]
  by (simp add: time_sub_def max_i64_def min_i64_def eval_nat_numeral)

end
