(* ===== verification/SortSlice.thy ===== *)
theory SortSlice
  imports Prelude "HOL-Library.Multiset" "HOL-Library.List_Lexorder" "HOL-Library.Char_ord"
begin

text \<open>
  The contract of Go's sort.Slice. The package sorts in place with an algorithm it does not
  document and does not keep equal elements in order, so it is a parameter of the operations that
  call it: for a comparison that is a strict weak order it permutes the slice and leaves no element
  before a smaller one. Where the comparison also tells different elements apart, the result does
  not depend on the sort nor on the order of the input.
\<close>

section \<open>The contract\<close>

definition weak_order_on :: "'a set \<Rightarrow> ('a \<Rightarrow> 'a \<Rightarrow> bool) \<Rightarrow> bool" where
  "weak_order_on A lt \<longleftrightarrow>
     (\<forall>x \<in> A. \<not> lt x x) \<and>
     (\<forall>x \<in> A. \<forall>y \<in> A. \<forall>z \<in> A. lt x y \<longrightarrow> lt y z \<longrightarrow> lt x z) \<and>
     (\<forall>x \<in> A. \<forall>y \<in> A. \<forall>z \<in> A. \<not> lt x y \<longrightarrow> \<not> lt y z \<longrightarrow> \<not> lt x z)"

definition slice_sorter :: "(('a \<Rightarrow> 'a \<Rightarrow> bool) \<Rightarrow> 'a list \<Rightarrow> 'a list) \<Rightarrow> bool" where
  "slice_sorter srt \<longleftrightarrow>
     (\<forall>lt xs. weak_order_on (set xs) lt \<longrightarrow>
        mset (srt lt xs) = mset xs \<and> sorted_wrt (\<lambda>a b. \<not> lt b a) (srt lt xs))"

lemma weak_order_trans:
  "weak_order_on A lt \<Longrightarrow> x \<in> A \<Longrightarrow> y \<in> A \<Longrightarrow> z \<in> A \<Longrightarrow> lt x y \<Longrightarrow> lt y z \<Longrightarrow> lt x z"
  unfolding weak_order_on_def by meson

lemma weak_order_neg_trans:
  "weak_order_on A lt \<Longrightarrow> x \<in> A \<Longrightarrow> y \<in> A \<Longrightarrow> z \<in> A \<Longrightarrow> \<not> lt x y \<Longrightarrow> \<not> lt y z \<Longrightarrow> \<not> lt x z"
  unfolding weak_order_on_def by meson

lemma weak_order_asym:
  "weak_order_on A lt \<Longrightarrow> x \<in> A \<Longrightarrow> y \<in> A \<Longrightarrow> lt x y \<Longrightarrow> \<not> lt y x"
  unfolding weak_order_on_def by meson

lemma weak_order_subset: "weak_order_on B lt \<Longrightarrow> A \<subseteq> B \<Longrightarrow> weak_order_on A lt"
  unfolding weak_order_on_def by (meson subsetD)

lemma weak_order_key:
  fixes f :: "'a \<Rightarrow> 'b::linorder"
  shows "weak_order_on A (\<lambda>a b. f a < f b)" "weak_order_on A (\<lambda>a b. f b < f a)"
  by (auto simp: weak_order_on_def)

lemma sorterD:
  assumes "slice_sorter srt" and "weak_order_on (set xs) lt"
  shows "mset (srt lt xs) = mset xs" and "set (srt lt xs) = set xs"
    and "sorted_wrt (\<lambda>a b. \<not> lt b a) (srt lt xs)"
  using assms mset_eq_setD unfolding slice_sorter_def by blast+

text \<open>A comparison that orders any two different elements determines the result.\<close>

definition total_order_on :: "'a set \<Rightarrow> ('a \<Rightarrow> 'a \<Rightarrow> bool) \<Rightarrow> bool" where
  "total_order_on A lt \<longleftrightarrow>
     weak_order_on A lt \<and> (\<forall>x \<in> A. \<forall>y \<in> A. x \<noteq> y \<longrightarrow> lt x y \<or> lt y x)"

lemma sorted_perm_unique:
  assumes "total_order_on (set xs) lt" "mset xs = mset ys"
    and "sorted_wrt (\<lambda>a b. \<not> lt b a) xs" "sorted_wrt (\<lambda>a b. \<not> lt b a) ys"
  shows "xs = ys"
  using assms
proof (induction xs arbitrary: ys)
  case (Cons x xs)
  then obtain y ys' where ys: "ys = y # ys'" by (cases ys) auto
  have set_eq: "set (x # xs) = set (y # ys')" using Cons.prems(2) ys mset_eq_setD by metis
  have "x = y"
  proof (rule ccontr)
    assume ne: "x \<noteq> y"
    then have "x \<in> set ys'" "y \<in> set xs" using set_eq by (metis list.set_intros(1) set_ConsD)+
    then have "\<not> lt x y" "\<not> lt y x" using Cons.prems(3,4) ys by auto
    moreover have "lt x y \<or> lt y x" using Cons.prems(1) ne set_eq unfolding total_order_on_def by auto
    ultimately show False by simp
  qed
  moreover have "xs = ys'"
  proof (rule Cons.IH)
    have "set xs \<subseteq> set (x # xs)" by auto
    then show "total_order_on (set xs) lt" using Cons.prems(1) weak_order_subset
      unfolding total_order_on_def by (meson subsetD)
    show "mset xs = mset ys'" using Cons.prems(2) ys \<open>x = y\<close> by simp
  qed (use Cons.prems ys in auto)
  ultimately show ?case using ys by simp
qed simp

lemma sorters_agree:
  assumes "slice_sorter s1" "slice_sorter s2" "mset xs = mset ys" "total_order_on (set xs) lt"
  shows "s1 lt xs = s2 lt ys"
proof (rule sorted_perm_unique [of _ lt])
  have sets: "set ys = set xs" using assms(3) by (metis mset_eq_setD)
  have w: "weak_order_on (set xs) lt" "weak_order_on (set ys) lt"
    using assms(4) sets by (auto simp: total_order_on_def)
  show "total_order_on (set (s1 lt xs)) lt" using sorterD(2) [OF assms(1) w(1)] assms(4) by simp
  show "mset (s1 lt xs) = mset (s2 lt ys)"
    using sorterD(1) [OF assms(1) w(1)] sorterD(1) [OF assms(2) w(2)] assms(3) by simp
  show "sorted_wrt (\<lambda>a b. \<not> lt b a) (s1 lt xs)" "sorted_wrt (\<lambda>a b. \<not> lt b a) (s2 lt ys)"
    using sorterD(3) assms(1,2) w by blast+
qed

section \<open>Insertion sort keeps the contract\<close>

fun insert_slice :: "('a \<Rightarrow> 'a \<Rightarrow> bool) \<Rightarrow> 'a \<Rightarrow> 'a list \<Rightarrow> 'a list" where
  "insert_slice lt x [] = [x]"
| "insert_slice lt x (y # ys) = (if lt y x then y # insert_slice lt x ys else x # y # ys)"

fun insertion_sort :: "('a \<Rightarrow> 'a \<Rightarrow> bool) \<Rightarrow> 'a list \<Rightarrow> 'a list" where
  "insertion_sort lt [] = []"
| "insertion_sort lt (x # xs) = insert_slice lt x (insertion_sort lt xs)"

lemma mset_insert_slice [simp]: "mset (insert_slice lt x ys) = add_mset x (mset ys)"
  by (induction ys) auto

lemma set_insert_slice [simp]: "set (insert_slice lt x ys) = insert x (set ys)"
  by (induction ys) auto

lemma mset_insertion_sort [simp]: "mset (insertion_sort lt xs) = mset xs"
  by (induction xs) auto

lemma set_insertion_sort [simp]: "set (insertion_sort lt xs) = set xs"
  by (metis mset_insertion_sort mset_eq_setD)

lemma sorted_insert_slice:
  "weak_order_on (insert x (set ys)) lt \<Longrightarrow> sorted_wrt (\<lambda>a b. \<not> lt b a) ys \<Longrightarrow>
     sorted_wrt (\<lambda>a b. \<not> lt b a) (insert_slice lt x ys)"
proof (induction ys)
  case (Cons y ys)
  show ?case
  proof (cases "lt y x")
    case True
    have "\<not> lt x y" by (rule weak_order_asym [OF Cons.prems(1)]) (use True in auto)
    moreover have "weak_order_on (insert x (set ys)) lt"
      by (rule weak_order_subset [OF Cons.prems(1)]) auto
    ultimately show ?thesis using True Cons by auto
  next
    case False
    have "\<not> lt z x" if "z \<in> set ys" for z
    proof -
      have "\<not> lt z y" using that Cons.prems(2) by simp
      then show ?thesis using False that by (intro weak_order_neg_trans [OF Cons.prems(1), of z y x]) auto
    qed
    then show ?thesis using False Cons.prems by auto
  qed
qed simp

lemma sorted_insertion_sort:
  "weak_order_on (set xs) lt \<Longrightarrow> sorted_wrt (\<lambda>a b. \<not> lt b a) (insertion_sort lt xs)"
proof (induction xs)
  case (Cons x xs)
  have "weak_order_on (set xs) lt" by (rule weak_order_subset [OF Cons.prems]) auto
  then show ?case using Cons by (auto intro!: sorted_insert_slice)
qed simp

lemma insertion_sort_sorter [simp]: "slice_sorter insertion_sort"
  by (simp add: slice_sorter_def sorted_insertion_sort)

end
