(* ===== verification/Frs.thy ===== *)
theory Frs
  imports GoText SortSlice ExpiringMap
begin

text \<open>
  internal/k8s/frs.go: the views of FileRecoverySessions and the operations on them. The objects
  are decoded JSON; the helpers of package unstructured, the API server's answers, the parser of
  RFC 3339 times and the clock are parameters.
\<close>

section \<open>Objects\<close>

text \<open>Decoded JSON, Go's \<open>any\<close>: an object is a \<open>map[string]any\<close>.\<close>

datatype json =
    JNull
  | JBool bool
  | JInt int
  | JFloat string
  | JStr string
  | JArr "json list"
  | JObj "(string \<times> json) list"

type_synonym jobj = "(string, json) gomap"

text \<open>The type assertions \<open>v.(string)\<close> (with its zero value) and \<open>v.(map[string]any)\<close>.\<close>

definition as_string :: "json option \<Rightarrow> string" where
  "as_string v = (case v of Some (JStr s) \<Rightarrow> s | _ \<Rightarrow> [])"

definition as_object :: "json option \<Rightarrow> jobj option" where
  "as_object v = (case v of Some (JObj m) \<Rightarrow> Some m | _ \<Rightarrow> None)"

text \<open>
  What the sources use of package unstructured. \<open>NestedString\<close>, \<open>NestedInt64\<close> and \<open>NestedSlice\<close>
  are used only for their value, which is the zero value when the field is missing or of another
  type.
\<close>

record unstructured =
  NestedString :: "jobj \<Rightarrow> string list \<Rightarrow> string"
  NestedInt64 :: "jobj \<Rightarrow> string list \<Rightarrow> int"
  NestedSlice :: "jobj \<Rightarrow> string list \<Rightarrow> json list"
  GetNamespace :: "jobj \<Rightarrow> string"
  GetName :: "jobj \<Rightarrow> string"
  GetLabels :: "jobj \<Rightarrow> (string, string) gomap"
  GetCreation :: "jobj \<Rightarrow> gotime"

text \<open>\<open>labels[k]\<close>: the empty string when there is no such label.\<close>

definition label_of :: "(string, string) gomap \<Rightarrow> string \<Rightarrow> string" where
  "label_of ls k = (case map_of ls k of None \<Rightarrow> [] | Some v \<Rightarrow> v)"

section \<open>API server\<close>

datatype api_error =
    StatusErr int string string
  | OtherErr string

text \<open>The label \<open>code\<close> of the error counter.\<close>

definition error_code :: "api_error \<Rightarrow> string" where
  "error_code err = (case err of StatusErr code reason msg \<Rightarrow> int_str code | OtherErr msg \<Rightarrow> ''unknown'')"

text \<open>\<open>recordK8sError\<close>: the increments of \<open>K8sAPIErrorsTotal\<close>, by operation and code.\<close>

definition recordK8sError :: "string \<Rightarrow> api_error \<Rightarrow> (string \<times> string) list" where
  "recordK8sError op err = [(op, error_code err)]"

record FRSpec =
  sp_name :: string
  sp_restorePoint :: string
  sp_pvcs :: "string list"
  sp_publicKey :: string

text \<open>The object CreateFRS sends, by the fields it sets.\<close>

record frs_object =
  fo_namespace :: string
  fo_name :: "string option"
  fo_generateName :: "string option"
  fo_volumes :: "(string \<times> string) list"
  fo_userPublicKey :: string

text \<open>The answers of the API server during one operation.\<close>

record kube_api =
  api_list_frs :: "api_error + jobj list"
  api_get_frs :: "string \<Rightarrow> string \<Rightarrow> api_error + jobj"
  api_create_frs :: "string \<Rightarrow> frs_object \<Rightarrow> api_error + jobj"
  api_delete_frs :: "string \<Rightarrow> string \<Rightarrow> api_error option"
  api_get_rp :: "string \<Rightarrow> string \<Rightarrow> api_error + jobj"
  api_list_rps :: "string \<Rightarrow> string \<Rightarrow> api_error + jobj list"

section \<open>Views\<close>

record frs_ref =
  ref_ns :: string
  ref_name :: string

record frs_view =
  v_ref :: frs_ref
  v_serviceName :: string
  v_serviceNS :: string
  v_port :: int
  v_hostKeySig :: string
  v_expiryTime :: gotime
  v_state :: string
  v_createdAt :: gotime
  v_sourceApp :: string
  v_sourceAppNS :: string
  v_rpCreatedAt :: gotime
  v_connectable :: bool
  v_terminal :: bool

definition empty_view :: frs_view where
  "empty_view =
     \<lparr>v_ref = \<lparr>ref_ns = [], ref_name = []\<rparr>, v_serviceName = [], v_serviceNS = [], v_port = 0,
      v_hostKeySig = [], v_expiryTime = 0, v_state = [], v_createdAt = 0, v_sourceApp = [],
      v_sourceAppNS = [], v_rpCreatedAt = 0, v_connectable = False, v_terminal = False\<rparr>"

definition isTerminalState :: "string \<Rightarrow> bool" where
  "isTerminalState s \<longleftrightarrow> s = ''Failed'' \<or> s = ''Succeeded'' \<or> s = ''Terminated''"

definition isActiveState :: "string \<Rightarrow> bool" where
  "isActiveState s \<longleftrightarrow> \<not> isTerminalState s"

definition sftp_path :: "string \<Rightarrow> string list" where
  "sftp_path f = [''status'', ''transports'', ''sftp'', f]"

definition buildFRSView :: "unstructured \<Rightarrow> (string \<Rightarrow> gotime option) \<Rightarrow> jobj \<Rightarrow> frs_view \<times> bool" where
  "buildFRSView u rfc3339 item =
     (let state = NestedString u item [''status'', ''state''];
          expiryStr = NestedString u item [''status'', ''expiryTime''];
          svc = NestedString u item (sftp_path ''serviceName'');
          svcNS = NestedString u item (sftp_path ''serviceNamespace'');
          port = NestedInt64 u item (sftp_path ''portNumber'');
          hostKey = NestedString u item (sftp_path ''hostKeySignature'');
          v = empty_view\<lparr>v_ref := \<lparr>ref_ns = GetNamespace u item, ref_name = GetName u item\<rparr>,
            v_createdAt := GetCreation u item,
            v_expiryTime := (if expiryStr \<noteq> [] then (case rfc3339 expiryStr of None \<Rightarrow> 0 | Some t \<Rightarrow> t) else 0),
            v_state := state, v_terminal := isTerminalState state,
            v_serviceName := svc, v_serviceNS := svcNS, v_port := port, v_hostKeySig := hostKey\<rparr>
      in if svc = [] \<or> svcNS = [] \<or> port = 0 then (v\<lparr>v_connectable := False\<rparr>, False)
         else (v\<lparr>v_connectable := True\<rparr>, True))"

section \<open>Listing\<close>

datatype k8s_error =
    ListErr string api_error
  | GetErr frs_ref api_error
  | NotConnectable frs_ref
  | SpecIncomplete
  | CreateErr api_error
  | DeleteErr api_error

text \<open>The body of the loop: \<open>None\<close> where it continues without appending.\<close>

definition frs_row ::
  "unstructured \<Rightarrow> (string \<Rightarrow> gotime option) \<Rightarrow> gotime \<Rightarrow> string list \<Rightarrow> bool \<Rightarrow> jobj \<Rightarrow> frs_view option" where
  "frs_row u rfc3339 now namespaces includeTerminal item =
     (if namespaces \<noteq> [] \<and> GetNamespace u item \<notin> set namespaces then None
      else (let view = fst (buildFRSView u rfc3339 item) in
            if \<not> includeTerminal \<and> \<not> isActiveState (v_state view) then None
            else if \<not> includeTerminal \<and> v_expiryTime view \<noteq> 0 \<and> now > v_expiryTime view then None
            else Some view))"

text \<open>The comparison of sort.Slice: the newest session first.\<close>

definition newest_first :: "frs_view \<Rightarrow> frs_view \<Rightarrow> bool" where
  "newest_first v w \<longleftrightarrow> v_createdAt v > v_createdAt w"

definition listFRS ::
  "unstructured \<Rightarrow> (string \<Rightarrow> gotime option) \<Rightarrow> ((frs_view \<Rightarrow> frs_view \<Rightarrow> bool) \<Rightarrow> frs_view list \<Rightarrow> frs_view list) \<Rightarrow>
   kube_api \<Rightarrow> gotime \<Rightarrow> string list \<Rightarrow> bool \<Rightarrow> (k8s_error, frs_view list) result \<times> (string \<times> string) list" where
  "listFRS u rfc3339 sort_slice api now namespaces includeTerminal =
     (case api_list_frs api of
        Inl e \<Rightarrow> (Inl (ListErr ''list FRS'' e), recordK8sError ''list_frs'' e)
      | Inr items \<Rightarrow>
          (Inr (sort_slice newest_first (List.map_filter (frs_row u rfc3339 now namespaces includeTerminal) items)),
           []))"

definition ListActiveFRS ::
  "unstructured \<Rightarrow> (string \<Rightarrow> gotime option) \<Rightarrow> ((frs_view \<Rightarrow> frs_view \<Rightarrow> bool) \<Rightarrow> frs_view list \<Rightarrow> frs_view list) \<Rightarrow>
   kube_api \<Rightarrow> gotime \<Rightarrow> string list \<Rightarrow> (k8s_error, frs_view list) result \<times> (string \<times> string) list" where
  "ListActiveFRS u rfc3339 sort_slice api now namespaces =
  listFRS u rfc3339 sort_slice api now namespaces False"

definition ListAllFRS ::
  "unstructured \<Rightarrow> (string \<Rightarrow> gotime option) \<Rightarrow> ((frs_view \<Rightarrow> frs_view \<Rightarrow> bool) \<Rightarrow> frs_view list \<Rightarrow> frs_view list) \<Rightarrow>
   kube_api \<Rightarrow> gotime \<Rightarrow> string list \<Rightarrow> (k8s_error, frs_view list) result \<times> (string \<times> string) list" where
  "ListAllFRS u rfc3339 sort_slice api now namespaces =
  listFRS u rfc3339 sort_slice api now namespaces True"

section \<open>Single sessions\<close>

definition GetFRS ::
  "unstructured \<Rightarrow> (string \<Rightarrow> gotime option) \<Rightarrow> kube_api \<Rightarrow> frs_ref \<Rightarrow> (k8s_error, frs_view) result" where
  "GetFRS u rfc3339 api ref =
     (case api_get_frs api (ref_ns ref) (ref_name ref) of
        Inl e \<Rightarrow> Inl (GetErr ref e)
      | Inr item \<Rightarrow>
          (case buildFRSView u rfc3339 item of
             (v, ok) \<Rightarrow> if \<not> ok then Inl (NotConnectable ref) else Inr v))"

text \<open>The loop of \<open>LookupFRSSource\<close> over the volumes.\<close>

fun source_loop :: "unstructured \<Rightarrow> kube_api \<Rightarrow> json list \<Rightarrow> frs_view \<Rightarrow> frs_view" where
  "source_loop u api [] v = v"
| "source_loop u api (vol # volumes) v =
     (case as_object (Some vol) of
        None \<Rightarrow> source_loop u api volumes v
      | Some m \<Rightarrow>
          (let rpName = NestedString u m [''restorePointName''] in
           if rpName = [] then source_loop u api volumes v
           else (case api_get_rp api (ref_ns (v_ref v)) rpName of
                   Inl e \<Rightarrow> source_loop u api volumes v
                 | Inr rp \<Rightarrow>
                     v\<lparr>v_sourceApp := label_of (GetLabels u rp) ''k10.kasten.io/appName'',
                       v_sourceAppNS := label_of (GetLabels u rp) ''k10.kasten.io/appNamespace'',
                       v_rpCreatedAt := GetCreation u rp\<rparr>)))"

definition LookupFRSSource :: "unstructured \<Rightarrow> bool \<Rightarrow> kube_api \<Rightarrow> frs_view \<Rightarrow> frs_view" where
  "LookupFRSSource u isFake api v =
     (if isFake then v
      else (case api_get_frs api (ref_ns (v_ref v)) (ref_name (v_ref v)) of
              Inl e \<Rightarrow> v
            | Inr item \<Rightarrow> source_loop u api (NestedSlice u item [''spec'', ''volumes'']) v))"

definition frs_object_of :: "string \<Rightarrow> FRSpec \<Rightarrow> frs_object" where
  "frs_object_of ns spec =
     \<lparr>fo_namespace = ns,
      fo_name = (if sp_name spec \<noteq> [] then Some (sp_name spec) else None),
      fo_generateName = (if sp_name spec \<noteq> [] then None else Some ''frs-wizard-''),
      fo_volumes = map (\<lambda>p. (sp_restorePoint spec, p)) (sp_pvcs spec),
      fo_userPublicKey = sp_publicKey spec\<rparr>"

definition CreateFRS ::
  "unstructured \<Rightarrow> (string \<Rightarrow> gotime option) \<Rightarrow> kube_api \<Rightarrow> string \<Rightarrow> FRSpec \<Rightarrow> (k8s_error, frs_view) result" where
  "CreateFRS u rfc3339 api ns spec =
     (if sp_restorePoint spec = [] \<or> length (sp_pvcs spec) = 0 \<or> sp_publicKey spec = [] then Inl SpecIncomplete
      else (case api_create_frs api ns (frs_object_of ns spec) of
              Inl e \<Rightarrow> Inl (CreateErr e)
            | Inr out \<Rightarrow> Inr (fst (buildFRSView u rfc3339 out))))"

definition DeleteFRS :: "kube_api \<Rightarrow> string \<Rightarrow> string \<Rightarrow> k8s_error option" where
  "DeleteFRS api ns name =
     (case api_delete_frs api ns name of
        None \<Rightarrow> None
      | Some (StatusErr code reason msg) \<Rightarrow>
          if reason = ''NotFound'' then None else Some (DeleteErr (StatusErr code reason msg))
      | Some (OtherErr msg) \<Rightarrow> Some (DeleteErr (OtherErr msg)))"

section \<open>Waiting\<close>

datatype wait_error =
    ReachedFailed
  | NotReadyWithin duration string
  | CtxErr string

text \<open>
  The iteration \<open>k\<close> of the loop sees the answers \<open>api k\<close>, the clock \<open>clock k\<close> at its deadline check and,
  in its select, a cancelled context when \<open>ctx k\<close> is an error; \<open>None\<close> is a loop that the fuel did not
  let finish.
\<close>

fun wait_loop ::
  "nat \<Rightarrow> nat \<Rightarrow> unstructured \<Rightarrow> (string \<Rightarrow> gotime option) \<Rightarrow> (nat \<Rightarrow> kube_api) \<Rightarrow> (nat \<Rightarrow> gotime) \<Rightarrow>
   (nat \<Rightarrow> string option) \<Rightarrow> frs_ref \<Rightarrow> duration \<Rightarrow> gotime \<Rightarrow> (frs_view \<times> wait_error option) option" where
  "wait_loop 0 k u rfc3339 api clock ctx ref timeout deadline = None"
| "wait_loop (Suc n) k u rfc3339 api clock ctx ref timeout deadline =
     (let got = GetFRS u rfc3339 (api k) ref;
          v = (case got of Inl _ \<Rightarrow> empty_view | Inr w \<Rightarrow> w);
          ok = (case got of Inl _ \<Rightarrow> False | Inr _ \<Rightarrow> True)
      in if ok \<and> v_state v = ''Ready'' then Some (v, None)
         else if ok \<and> v_state v = ''Failed'' then Some (v, Some ReachedFailed)
         else if clock k > deadline then Some (v, Some (NotReadyWithin timeout (v_state v)))
         else (case ctx k of
                 Some e \<Rightarrow> Some (v, Some (CtxErr e))
               | None \<Rightarrow> wait_loop n (Suc k) u rfc3339 api clock ctx ref timeout deadline))"

definition WaitForReady ::
  "nat \<Rightarrow> unstructured \<Rightarrow> (string \<Rightarrow> gotime option) \<Rightarrow> (nat \<Rightarrow> kube_api) \<Rightarrow> gotime \<Rightarrow> (nat \<Rightarrow> gotime) \<Rightarrow>
   (nat \<Rightarrow> string option) \<Rightarrow> string \<Rightarrow> string \<Rightarrow> duration \<Rightarrow> (frs_view \<times> wait_error option) option" where
  "WaitForReady fuel u rfc3339 api start clock ctx ns name timeout =
     wait_loop fuel 0 u rfc3339 api clock ctx \<lparr>ref_ns = ns, ref_name = name\<rparr> timeout (start + timeout)"

section \<open>Views and rows\<close>

lemma view_fields [simp]:
  "v_state (fst (buildFRSView u rfc3339 item)) = NestedString u item [''status'', ''state'']"
  "v_serviceName (fst (buildFRSView u rfc3339 item)) = NestedString u item (sftp_path ''serviceName'')"
  "v_serviceNS (fst (buildFRSView u rfc3339 item)) = NestedString u item (sftp_path ''serviceNamespace'')"
  "v_port (fst (buildFRSView u rfc3339 item)) = NestedInt64 u item (sftp_path ''portNumber'')"
  "v_hostKeySig (fst (buildFRSView u rfc3339 item)) = NestedString u item (sftp_path ''hostKeySignature'')"
  "v_createdAt (fst (buildFRSView u rfc3339 item)) = GetCreation u item"
  "v_ref (fst (buildFRSView u rfc3339 item)) = \<lparr>ref_ns = GetNamespace u item, ref_name = GetName u item\<rparr>"
  "v_terminal (fst (buildFRSView u rfc3339 item)) = isTerminalState (NestedString u item [''status'', ''state''])"
  by (simp_all add: buildFRSView_def Let_def)

lemma view_connectable [simp]:
  "v_connectable (fst (buildFRSView u rfc3339 item)) = snd (buildFRSView u rfc3339 item)"
  "snd (buildFRSView u rfc3339 item) \<longleftrightarrow>
     v_serviceName (fst (buildFRSView u rfc3339 item)) \<noteq> [] \<and>
     v_serviceNS (fst (buildFRSView u rfc3339 item)) \<noteq> [] \<and> v_port (fst (buildFRSView u rfc3339 item)) \<noteq> 0"
  by (simp_all add: buildFRSView_def Let_def)

text \<open>Which objects a listing shows.\<close>

definition frs_shown ::
  "unstructured \<Rightarrow> (string \<Rightarrow> gotime option) \<Rightarrow> gotime \<Rightarrow> string list \<Rightarrow> bool \<Rightarrow> jobj \<Rightarrow> bool" where
  "frs_shown u rfc3339 now namespaces includeTerminal item \<longleftrightarrow>
     (let v = fst (buildFRSView u rfc3339 item) in
      (namespaces = [] \<or> GetNamespace u item \<in> set namespaces) \<and>
      (includeTerminal \<or>
         v_state v \<notin> {''Failed'', ''Succeeded'', ''Terminated''} \<and>
         (v_expiryTime v = 0 \<or> now \<le> v_expiryTime v)))"

lemma frs_row_shown:
  "frs_row u rfc3339 now nss inc item =
     (if frs_shown u rfc3339 now nss inc item then Some (fst (buildFRSView u rfc3339 item)) else None)"
  by (auto simp: frs_row_def frs_shown_def isActiveState_def isTerminalState_def Let_def)

lemma map_filter_if: "List.map_filter (\<lambda>x. if P x then Some (f x) else None) xs = map f (filter P xs)"
  by (induction xs) (auto simp: List.map_filter_simps)

lemma newest_first_order: "weak_order_on A newest_first"
  unfolding newest_first_def by (rule weak_order_key(2))

section \<open>Waiting\<close>

lemma wait_loop_None:
  "wait_loop n k u rfc3339 api clock ctx ref timeout deadline = None \<Longrightarrow> j < n \<Longrightarrow> clock (k + j) \<le> deadline"
proof (induction n arbitrary: k j)
  case (Suc n)
  then have "clock k \<le> deadline" "wait_loop n (Suc k) u rfc3339 api clock ctx ref timeout deadline = None"
    by (auto simp: Let_def split: if_splits option.splits)
  then show ?case using Suc.IH [of "Suc k" "j - 1"] Suc.prems(2) by (cases j) auto
qed simp

lemma clock_grows:
  fixes clock :: "nat \<Rightarrow> int"
  assumes "\<forall>k. clock (Suc k) \<ge> clock k + d"
  shows "clock j \<ge> clock 0 + int j * d"
proof (induction j)
  case (Suc j)
  have "clock (Suc j) \<ge> clock j + d" using assms by blast
  then show ?case using Suc by (simp add: algebra_simps)
qed simp

text \<open>A poll that decides nothing: no view, or one in another state than Ready and Failed.\<close>

definition undecided :: "unstructured \<Rightarrow> (string \<Rightarrow> gotime option) \<Rightarrow> frs_ref \<Rightarrow> kube_api \<Rightarrow> bool" where
  "undecided u rfc3339 ref api \<longleftrightarrow>
     (case GetFRS u rfc3339 api ref of Inl _ \<Rightarrow> True | Inr v \<Rightarrow> v_state v \<noteq> ''Ready'' \<and> v_state v \<noteq> ''Failed'')"

lemma wait_loop_ready_step:
  "wait_loop (Suc n) k u rfc3339 api clock ctx ref timeout deadline = Some (v, None) \<longleftrightarrow>
     GetFRS u rfc3339 (api k) ref = Inr v \<and> v_state v = ''Ready'' \<or>
     (undecided u rfc3339 ref (api k) \<and> clock k \<le> deadline \<and> ctx k = None) \<and>
     wait_loop n (Suc k) u rfc3339 api clock ctx ref timeout deadline = Some (v, None)"
proof (cases "GetFRS u rfc3339 (api k) ref")
  case (Inl e)
  then show ?thesis by (auto simp: undecided_def Let_def split: option.splits)
next
  case (Inr w)
  then show ?thesis by (auto simp: undecided_def Let_def split: option.splits)
qed

lemma first_index_split:
  "(\<exists>j<Suc n. P j \<and> (\<forall>i<j. Q i)) \<longleftrightarrow> P 0 \<or> Q 0 \<and> (\<exists>j<n. P (Suc j) \<and> (\<forall>i<j. Q (Suc i)))"
  unfolding Ex_less_Suc2 All_less_Suc2 by auto

lemma wait_loop_ready_iff:
  "wait_loop n k u rfc3339 api clock ctx ref timeout deadline = Some (v, None) \<longleftrightarrow>
     (\<exists>j<n. (GetFRS u rfc3339 (api (k + j)) ref = Inr v \<and> v_state v = ''Ready'') \<and>
        (\<forall>i<j. undecided u rfc3339 ref (api (k + i)) \<and> clock (k + i) \<le> deadline \<and> ctx (k + i) = None))"
proof (induction n arbitrary: k)
  case (Suc n)
  show ?case unfolding wait_loop_ready_step first_index_split Suc.IH [of "Suc k"] by simp
qed simp

text \<open>A session without transports: its view is never returned, so no poll decides.\<close>

lemma wait_loop_unpublished:
  assumes "\<And>k v. GetFRS u rfc3339 (api k) ref \<noteq> Inr v"
    and "wait_loop n k u rfc3339 api clock ctx ref timeout deadline = Some (v, e)"
  shows "v = empty_view \<and> (e = Some (NotReadyWithin timeout []) \<or> (\<exists>c. e = Some (CtxErr c)))"
  using assms(2)
proof (induction n arbitrary: k)
  case (Suc n)
  obtain e0 where "GetFRS u rfc3339 (api k) ref = Inl e0"
    using assms(1) [of k] by (cases "GetFRS u rfc3339 (api k) ref") auto
  moreover have "v_state empty_view = []" by (simp add: empty_view_def)
  ultimately show ?case using Suc by (auto simp: Let_def split: if_splits option.splits)
qed simp

section \<open>An instance of the library\<close>

text \<open>
  The documented behaviour of package unstructured on decoded JSON, with times as integers: the
  instance the examples evaluate.
\<close>

fun json_at :: "jobj \<Rightarrow> string list \<Rightarrow> json option" where
  "json_at m [] = None"
| "json_at m [f] = map_of m f"
| "json_at m (f # fs) = (case as_object (map_of m f) of None \<Rightarrow> None | Some m' \<Rightarrow> json_at m' fs)"

definition demo_lib :: unstructured where
  "demo_lib =
     \<lparr>NestedString = (\<lambda>m fs. as_string (json_at m fs)),
      NestedInt64 = (\<lambda>m fs. case json_at m fs of Some (JInt i) \<Rightarrow> i | _ \<Rightarrow> 0),
      NestedSlice = (\<lambda>m fs. case json_at m fs of Some (JArr js) \<Rightarrow> js | _ \<Rightarrow> []),
      GetNamespace = (\<lambda>m. as_string (json_at m [''metadata'', ''namespace''])),
      GetName = (\<lambda>m. as_string (json_at m [''metadata'', ''name''])),
      GetLabels = (\<lambda>m. case as_object (json_at m [''metadata'', ''labels'']) of
                      None \<Rightarrow> [] | Some ls \<Rightarrow> map (\<lambda>(k, v). (k, as_string (Some v))) ls),
      GetCreation = (\<lambda>m. case json_at m [''metadata'', ''created''] of Some (JInt i) \<Rightarrow> i | _ \<Rightarrow> 0)\<rparr>"

definition demo_meta :: "string \<Rightarrow> string \<Rightarrow> int \<Rightarrow> (string \<times> json) list \<Rightarrow> string \<times> json" where
  "demo_meta ns name created labels =
     (''metadata'', JObj [(''namespace'', JStr ns), (''name'', JStr name), (''created'', JInt created),
                          (''labels'', JObj labels)])"

definition demo_frs :: "string \<Rightarrow> string \<Rightarrow> int \<Rightarrow> string \<Rightarrow> bool \<Rightarrow> jobj" where
  "demo_frs ns name created state published =
     [demo_meta ns name created [],
      (''status'', JObj
        ((''state'', JStr state) #
         (if published
          then [(''transports'', JObj [(''sftp'', JObj
                  [(''serviceName'', JStr ''svc''), (''serviceNamespace'', JStr ''kasten-io''),
                   (''portNumber'', JInt 2222), (''hostKeySignature'', JStr ''[h]:2222 a k'')])])]
          else [])))]"

definition demo_api :: "jobj list \<Rightarrow> kube_api" where
  "demo_api items =
     \<lparr>api_list_frs = Inr items,
      api_get_frs = (\<lambda>ns name. case filter (\<lambda>i. GetNamespace demo_lib i = ns \<and> GetName demo_lib i = name) items of
                       [] \<Rightarrow> Inl (StatusErr 404 ''NotFound'' ''not found'') | i # _ \<Rightarrow> Inr i),
      api_create_frs = (\<lambda>ns ob. Inr (demo_frs ns ''frs-wizard-1'' 0 [] False)),
      api_delete_frs = (\<lambda>ns name. None),
      api_get_rp = (\<lambda>ns name. case filter (\<lambda>i. GetNamespace demo_lib i = ns \<and> GetName demo_lib i = name) items of
                       [] \<Rightarrow> Inl (StatusErr 404 ''NotFound'' ''not found'') | i # _ \<Rightarrow> Inr i),
      api_list_rps = (\<lambda>ns sel. Inr (filter (\<lambda>i. ns = [] \<or> GetNamespace demo_lib i = ns) items))\<rparr>"

section \<open>Properties\<close>

text \<open>
  C25: a listing of FileRecoverySessions contains, each once and the newest first, exactly the
  objects of the whitelisted namespaces (of all when there is no whitelist), without those in a
  terminal state or past their expiry time unless terminal ones are asked for.
\<close>

theorem list_frs_exact:
  assumes "slice_sorter sort_slice" and "api_list_frs api = Inr items"
  shows "\<exists>views. fst (listFRS u rfc3339 sort_slice api now namespaces includeTerminal) = Inr views \<and>
    sorted_wrt (\<lambda>v w. v_createdAt v \<ge> v_createdAt w) views \<and>
    mset views = mset (map (\<lambda>i. fst (buildFRSView u rfc3339 i))
                           (filter (frs_shown u rfc3339 now namespaces includeTerminal) items))"
proof -
  let ?vs = "map (\<lambda>i. fst (buildFRSView u rfc3339 i)) (filter (frs_shown u rfc3339 now namespaces includeTerminal) items)"
  have rows: "List.map_filter (frs_row u rfc3339 now namespaces includeTerminal) items = ?vs"
    unfolding frs_row_shown by (rule map_filter_if)
  have "sorted_wrt (\<lambda>v w. v_createdAt v \<ge> v_createdAt w) (sort_slice newest_first ?vs)"
    using sorterD(3) [OF assms(1) newest_first_order, of ?vs] by (simp add: newest_first_def not_less)
  moreover have "mset (sort_slice newest_first ?vs) = mset ?vs"
    by (rule sorterD(1) [OF assms(1) newest_first_order])
  ultimately show ?thesis using assms(2) rows by (simp add: listFRS_def)
qed

definition demo_items :: "jobj list" where
  "demo_items = [demo_frs ''a'' ''old'' 1 ''Ready'' True, demo_frs ''b'' ''new'' 3 ''Failed'' False,
                 demo_frs ''a'' ''mid'' 2 ''Pending'' False]"

theorem list_frs_exact_witness:
  "\<exists>views. fst (listFRS demo_lib (\<lambda>_. None) insertion_sort (demo_api demo_items) 9 [''a''] False) = Inr views \<and>
    sorted_wrt (\<lambda>v w. v_createdAt v \<ge> v_createdAt w) views \<and>
    mset views = mset (map (\<lambda>i. fst (buildFRSView demo_lib (\<lambda>_. None) i))
                           (filter (frs_shown demo_lib (\<lambda>_. None) 9 [''a''] False) demo_items))"
  by (rule list_frs_exact) (simp_all add: demo_api_def)

text \<open>
  GetFRS returns a session exactly when the API server has the object and it has published its
  SFTP service, namespace and port; the view is that of the object and is connectable.
\<close>

lemma get_frs_iff_published:
  "GetFRS u rfc3339 api ref = Inr v \<longleftrightarrow>
     (\<exists>item. api_get_frs api (ref_ns ref) (ref_name ref) = Inr item \<and>
        v = fst (buildFRSView u rfc3339 item) \<and>
        v_serviceName v \<noteq> [] \<and> v_serviceNS v \<noteq> [] \<and> v_port v \<noteq> 0 \<and> v_connectable v)"
  unfolding GetFRS_def
  by (cases "api_get_frs api (ref_ns ref) (ref_name ref)") (auto simp: prod.case_eq_if simp del: view_fields)

text \<open>
  C27: WaitForReady returns. When the clock advances by the 500 milliseconds of the poll interval
  between two deadline checks, it makes at most \<open>timeout\<close> / 500 ms + 2 polls.
\<close>

theorem wait_for_ready_terminates:
  assumes "start \<le> clock 0" and "\<forall>k. clock (Suc k) \<ge> clock k + 500 * Millisecond"
    and "nat (timeout div (500 * Millisecond)) + 2 \<le> fuel"
  shows "\<exists>r. WaitForReady fuel u rfc3339 api start clock ctx ns name timeout = Some r"
proof (rule ccontr)
  let ?d = "500 * Millisecond" and ?j = "nat (timeout div (500 * Millisecond)) + 1"
  assume "\<nexists>r. WaitForReady fuel u rfc3339 api start clock ctx ns name timeout = Some r"
  then have "clock (0 + ?j) \<le> start + timeout"
    unfolding WaitForReady_def using wait_loop_None assms(3)
    by (metis add_2_eq_Suc' less_eq_Suc_le not_Some_eq Suc_eq_plus1)
  moreover have "clock ?j \<ge> clock 0 + int ?j * ?d" by (rule clock_grows [OF assms(2)])
  moreover have "int ?j * ?d > timeout" by (simp add: algebra_simps) linarith
  ultimately show False using assms(1) by simp
qed

theorem wait_for_ready_terminates_witness:
  "\<exists>r. WaitForReady 4 demo_lib (\<lambda>_. None) (\<lambda>k. demo_api []) 0 (\<lambda>k. int k * (500 * Millisecond)) (\<lambda>_. None)
       ''a'' ''x'' Second = Some r"
  by (rule wait_for_ready_terminates) simp_all

text \<open>
  C26: WaitForReady succeeds exactly when some poll sees the session in state Ready, and every poll
  before it saw neither Ready nor Failed, was within the deadline and was not cancelled; it returns
  the view of that poll.
\<close>

theorem wait_for_ready_iff:
  "WaitForReady fuel u rfc3339 api start clock ctx ns name timeout = Some (v, None) \<longleftrightarrow>
     (\<exists>j<fuel. GetFRS u rfc3339 (api j) \<lparr>ref_ns = ns, ref_name = name\<rparr> = Inr v \<and> v_state v = ''Ready'' \<and>
        (\<forall>i<j. undecided u rfc3339 \<lparr>ref_ns = ns, ref_name = name\<rparr> (api i) \<and>
               clock i \<le> start + timeout \<and> ctx i = None))"
  unfolding WaitForReady_def wait_loop_ready_iff by simp

lemma demo_wait:
  "undecided demo_lib (\<lambda>_. None) \<lparr>ref_ns = ''a'', ref_name = ''x''\<rparr> (demo_api [demo_frs ''a'' ''x'' 1 ''Pending'' False])"
  "GetFRS demo_lib (\<lambda>_. None) (demo_api [demo_frs ''a'' ''x'' 1 ''Ready'' True]) \<lparr>ref_ns = ''a'', ref_name = ''x''\<rparr> =
     Inr (fst (buildFRSView demo_lib (\<lambda>_. None) (demo_frs ''a'' ''x'' 1 ''Ready'' True)))"
  "v_state (fst (buildFRSView demo_lib (\<lambda>_. None) (demo_frs ''a'' ''x'' 1 ''Ready'' True))) = ''Ready''"
  by code_simp+

theorem wait_for_ready_iff_witness:
  "WaitForReady 3 demo_lib (\<lambda>_. None)
     (\<lambda>k. demo_api [if k = 0 then demo_frs ''a'' ''x'' 1 ''Pending'' False else demo_frs ''a'' ''x'' 1 ''Ready'' True])
     0 (\<lambda>k. int k) (\<lambda>_. None) ''a'' ''x'' Second =
   Some (fst (buildFRSView demo_lib (\<lambda>_. None) (demo_frs ''a'' ''x'' 1 ''Ready'' True)), None)"
  unfolding wait_for_ready_iff by (rule exI [of _ 1]) (use demo_wait in simp)

text \<open>
  While a session has not published its SFTP service, WaitForReady reports neither its state nor
  its view: whatever its state, also Failed, the wait ends only at the deadline or by cancellation,
  with the empty view and the empty last state.
\<close>

lemma wait_blind_to_unpublished:
  assumes "\<forall>k item. api_get_frs (api k) ns name = Inr item \<longrightarrow>
      v_serviceName (fst (buildFRSView u rfc3339 item)) = [] \<or>
      v_serviceNS (fst (buildFRSView u rfc3339 item)) = [] \<or> v_port (fst (buildFRSView u rfc3339 item)) = 0"
    and "WaitForReady fuel u rfc3339 api start clock ctx ns name timeout = Some (v, e)"
  shows "v = empty_view \<and> (e = Some (NotReadyWithin timeout []) \<or> (\<exists>c. e = Some (CtxErr c)))"
proof (rule wait_loop_unpublished)
  show "wait_loop fuel 0 u rfc3339 api clock ctx \<lparr>ref_ns = ns, ref_name = name\<rparr> timeout (start + timeout) = Some (v, e)"
    using assms(2) by (simp add: WaitForReady_def)
next
  fix k w
  show "GetFRS u rfc3339 (api k) \<lparr>ref_ns = ns, ref_name = name\<rparr> \<noteq> Inr w"
    using assms(1) unfolding GetFRS_def
    by (cases "api_get_frs (api k) ns name") (auto simp: prod.case_eq_if simp del: view_fields)
qed

lemma demo_blind:
  "WaitForReady 5 demo_lib (\<lambda>_. None) (\<lambda>k. demo_api [demo_frs ''a'' ''x'' 1 ''Failed'' False]) 0
     (\<lambda>k. int k * Second) (\<lambda>_. None) ''a'' ''x'' Second = Some (empty_view, Some (NotReadyWithin Second []))"
  by code_simp

lemma demo_unpublished:
  "api_get_frs (demo_api [demo_frs ''a'' ''x'' 1 ''Failed'' False]) ''a'' ''x'' = Inr (demo_frs ''a'' ''x'' 1 ''Failed'' False)"
  "v_serviceName (fst (buildFRSView demo_lib (\<lambda>_. None) (demo_frs ''a'' ''x'' 1 ''Failed'' False))) = []"
  by code_simp+

lemma wait_blind_to_unpublished_witness:
  "\<exists>v e. WaitForReady 5 demo_lib (\<lambda>_. None) (\<lambda>k. demo_api [demo_frs ''a'' ''x'' 1 ''Failed'' False]) 0
       (\<lambda>k. int k * Second) (\<lambda>_. None) ''a'' ''x'' Second = Some (v, e) \<and>
     v = empty_view \<and> (e = Some (NotReadyWithin Second []) \<or> (\<exists>c. e = Some (CtxErr c)))"
proof -
  have "empty_view = empty_view \<and> (Some (NotReadyWithin Second []) = Some (NotReadyWithin Second []) \<or>
      (\<exists>c. Some (NotReadyWithin Second []) = Some (CtxErr c)))"
    by (rule wait_blind_to_unpublished [OF _ demo_blind]) (use demo_unpublished in auto)
  then show ?thesis using demo_blind by blast
qed

text \<open>
  A session's source is that of its first volume whose restore point the API server returns,
  volumes without a restore point name and unreadable ones being passed over; nothing else of the
  view changes, and without such a volume nothing at all.
\<close>

lemma lookup_source_first_readable:
  assumes "api_get_frs api (ref_ns (v_ref v)) (ref_name (v_ref v)) = Inr item"
  shows "LookupFRSSource u False api v =
    (case List.map_filter
       (\<lambda>vol. case as_object (Some vol) of
          None \<Rightarrow> None
        | Some m \<Rightarrow>
            if NestedString u m [''restorePointName''] = [] then None
            else (case api_get_rp api (ref_ns (v_ref v)) (NestedString u m [''restorePointName'']) of
                    Inl _ \<Rightarrow> None | Inr rp \<Rightarrow> Some rp))
       (NestedSlice u item [''spec'', ''volumes'']) of
       [] \<Rightarrow> v
     | rp # _ \<Rightarrow> v\<lparr>v_sourceApp := label_of (GetLabels u rp) ''k10.kasten.io/appName'',
                   v_sourceAppNS := label_of (GetLabels u rp) ''k10.kasten.io/appNamespace'',
                   v_rpCreatedAt := GetCreation u rp\<rparr>)"
proof -
  have "source_loop u api vols v = (case List.map_filter
       (\<lambda>vol. case as_object (Some vol) of
          None \<Rightarrow> None
        | Some m \<Rightarrow>
            if NestedString u m [''restorePointName''] = [] then None
            else (case api_get_rp api (ref_ns (v_ref v)) (NestedString u m [''restorePointName'']) of
                    Inl _ \<Rightarrow> None | Inr rp \<Rightarrow> Some rp)) vols of
       [] \<Rightarrow> v
     | rp # _ \<Rightarrow> v\<lparr>v_sourceApp := label_of (GetLabels u rp) ''k10.kasten.io/appName'',
                   v_sourceAppNS := label_of (GetLabels u rp) ''k10.kasten.io/appNamespace'',
                   v_rpCreatedAt := GetCreation u rp\<rparr>)" for vols
    by (induction vols) (auto simp: List.map_filter_simps Let_def split: option.splits sum.splits)
  then show ?thesis using assms by (simp add: LookupFRSSource_def)
qed

definition demo_source_api :: kube_api where
  "demo_source_api = demo_api
     [[demo_meta ''a'' ''x'' 1 [],
       (''spec'', JObj [(''volumes'', JArr [JNull, JObj [(''restorePointName'', JStr ''gone'')],
                                          JObj [(''restorePointName'', JStr ''rp-1'')]])])],
      [demo_meta ''a'' ''rp-1'' 7 [(''k10.kasten.io/appName'', JStr ''vm'')]]]"

definition demo_source_item :: jobj where
  "demo_source_item =
     [demo_meta ''a'' ''x'' 1 [],
      (''spec'', JObj [(''volumes'', JArr [JNull, JObj [(''restorePointName'', JStr ''gone'')],
                                         JObj [(''restorePointName'', JStr ''rp-1'')]])])]"

lemma demo_source:
  "api_get_frs demo_source_api ''a'' ''x'' = Inr demo_source_item"
  "NestedSlice demo_lib demo_source_item [''spec'', ''volumes''] =
     [JNull, JObj [(''restorePointName'', JStr ''gone'')], JObj [(''restorePointName'', JStr ''rp-1'')]]"
  "NestedString demo_lib [(''restorePointName'', JStr ''gone'')] [''restorePointName''] = ''gone''"
  "NestedString demo_lib [(''restorePointName'', JStr ''rp-1'')] [''restorePointName''] = ''rp-1''"
  "api_get_rp demo_source_api ''a'' ''gone'' = Inl (StatusErr 404 ''NotFound'' ''not found'')"
  "api_get_rp demo_source_api ''a'' ''rp-1'' = Inr [demo_meta ''a'' ''rp-1'' 7 [(''k10.kasten.io/appName'', JStr ''vm'')]]"
  "label_of (GetLabels demo_lib [demo_meta ''a'' ''rp-1'' 7 [(''k10.kasten.io/appName'', JStr ''vm'')]])
     ''k10.kasten.io/appName'' = ''vm''"
  by code_simp+

lemma lookup_source_first_readable_witness:
  "v_sourceApp (LookupFRSSource demo_lib False demo_source_api
     (empty_view\<lparr>v_ref := \<lparr>ref_ns = ''a'', ref_name = ''x''\<rparr>\<rparr>)) = ''vm''"
  by (subst lookup_source_first_readable [where item = demo_source_item])
    (simp_all add: demo_source as_object_def List.map_filter_simps)

end
