(* ===== verification/Scheme.thy ===== *)
theory Scheme
  imports GoText
begin

text \<open>
  internal/k8s/scheme.go: the kinds registered for the dynamic client of the tests, and the resources the
  program asks the API server for (frs.go and restorepoints.go).
\<close>

section \<open>Groups, versions, resources and kinds\<close>

record group_version =
  gv_group :: string
  gv_version :: string

record group_version_resource =
  gvr_group :: string
  gvr_version :: string
  gvr_resource :: string

record group_version_kind =
  gvk_group :: string
  gvk_version :: string
  gvk_kind :: string

datatype known_type = UnstructuredList

definition FRSGroupVersion :: group_version where
  "FRSGroupVersion = \<lparr>gv_group = ''datamover.kio.kasten.io'', gv_version = ''v1alpha1''\<rparr>"

definition FRSGroupVersionResource :: group_version_resource where
  "FRSGroupVersionResource =
     \<lparr>gvr_group = ''datamover.kio.kasten.io'', gvr_version = ''v1alpha1'', gvr_resource = ''filerecoverysessions''\<rparr>"

definition RestorePointGVR :: group_version_resource where
  "RestorePointGVR = \<lparr>gvr_group = ''apps.kio.kasten.io'', gvr_version = ''v1alpha1'', gvr_resource = ''restorepoints''\<rparr>"

text \<open>A scheme as the kinds added to it, in their order.\<close>

type_synonym scheme = "(group_version_kind \<times> known_type) list"

definition AddKnownTypeWithName :: "group_version_kind \<Rightarrow> known_type \<Rightarrow> scheme \<Rightarrow> scheme" where
  "AddKnownTypeWithName gvk t s = s @ [(gvk, t)]"

definition NewScheme :: scheme where
  "NewScheme =
     (let s = [];
          s = AddKnownTypeWithName
                \<lparr>gvk_group = gv_group FRSGroupVersion, gvk_version = gv_version FRSGroupVersion,
                 gvk_kind = ''FileRecoverySessionList''\<rparr> UnstructuredList s;
          s = AddKnownTypeWithName
                \<lparr>gvk_group = ''apps.kio.kasten.io'', gvk_version = ''v1alpha1'', gvk_kind = ''RestorePointList''\<rparr>
                UnstructuredList s
      in s)"

section \<open>What can be listed\<close>

text \<open>
  A fake dynamic client can list a resource when its scheme knows a list kind in the resource's group and
  version whose item's name, in small letters and in the plural, is the resource's.
\<close>

definition listed_by :: "scheme \<Rightarrow> group_version_resource \<Rightarrow> bool" where
  "listed_by s gvr \<longleftrightarrow>
     list_ex (\<lambda>(gvk, t). gvk_group gvk = gvr_group gvr \<and> gvk_version gvk = gvr_version gvr \<and>
       has_suffix (gvk_kind gvk) ''List'' \<and>
       to_lower (take (length (gvk_kind gvk) - 4) (gvk_kind gvk)) @ ''s'' = gvr_resource gvr) s"

text \<open>Everything the program lists can be listed in the tests, and nothing is registered twice or in vain.\<close>

lemma scheme_lists_resources:
  "listed_by NewScheme gvr \<longleftrightarrow> gvr = FRSGroupVersionResource \<or> gvr = RestorePointGVR"
proof -
  have suffix: "has_suffix ''FileRecoverySessionList'' ''List''" "has_suffix ''RestorePointList'' ''List''"
    "to_lower (take (length ''FileRecoverySessionList'' - 4) ''FileRecoverySessionList'') @ ''s'' = ''filerecoverysessions''"
    "to_lower (take (length ''RestorePointList'' - 4) ''RestorePointList'') @ ''s'' = ''restorepoints''"
    by code_simp+
  show ?thesis
    unfolding listed_by_def list_ex_iff NewScheme_def AddKnownTypeWithName_def Let_def append.simps list.set bex_simps
      prod.case group_version_kind.simps group_version.simps FRSGroupVersion_def FRSGroupVersionResource_def
      RestorePointGVR_def suffix
    by (cases gvr, hypsubst, simp only: suffix group_version_resource.simps simp_thms) blast
qed

end
