(* ===== verification/RestorePoints.thy ===== *)
theory RestorePoints
  imports Frs GoPath Scheme "HOL-Library.Product_Lexorder"
begin

text \<open>
  internal/k8s/restorepoints.go, client.go and credentials.go: the virtual machines and restore
  points the wizard offers, the volumes of a restore point, the raw request behind them, and the
  Secret with the private key.
\<close>

section \<open>Virtual machines\<close>

record vm =
  vm_name :: string
  vm_namespace :: string
  vm_lastRPName :: string
  vm_lastRPTime :: gotime
  vm_rpCount :: int

type_synonym vm_key = "string \<times> string"

definition appType :: string where "appType = ''k10.kasten.io/appType''"
definition appName :: string where "appName = ''k10.kasten.io/appName''"
definition appNamespace :: string where "appNamespace = ''k10.kasten.io/appNamespace''"

definition label_in :: "unstructured \<Rightarrow> jobj \<Rightarrow> string \<Rightarrow> string" where
  "label_in u it k = label_of (GetLabels u it) k"

definition vm_key_of :: "unstructured \<Rightarrow> jobj \<Rightarrow> vm_key" where
  "vm_key_of u it = (label_in u it appName, label_in u it appNamespace)"

text \<open>The guards of the loop.\<close>

definition vm_item :: "unstructured \<Rightarrow> string list \<Rightarrow> jobj \<Rightarrow> bool" where
  "vm_item u namespaces it \<longleftrightarrow>
     (if label_in u it appType \<noteq> ''virtualMachine'' then False
      else if namespaces \<noteq> [] \<and> label_in u it appNamespace \<notin> set namespaces then False
      else True)"

definition vm_count :: "unstructured \<Rightarrow> jobj \<Rightarrow> vm \<Rightarrow> vm" where
  "vm_count u it v =
     (let v1 = v\<lparr>vm_rpCount := vm_rpCount v + 1\<rparr>; created = GetCreation u it in
      if created > vm_lastRPTime v1
      then v1\<lparr>vm_lastRPTime := created, vm_lastRPName := GetName u it\<rparr> else v1)"

definition new_vm :: "vm_key \<Rightarrow> vm" where
  "new_vm k = \<lparr>vm_name = fst k, vm_namespace = snd k, vm_lastRPName = [], vm_lastRPTime = 0, vm_rpCount = 0\<rparr>"

definition vm_add :: "unstructured \<Rightarrow> string list \<Rightarrow> jobj \<Rightarrow> (vm_key, vm) gomap \<Rightarrow> (vm_key, vm) gomap" where
  "vm_add u namespaces it seen =
     (if \<not> vm_item u namespaces it then seen
      else (let k = vm_key_of u it;
                v = (case map_of seen k of None \<Rightarrow> new_vm k | Some v \<Rightarrow> v)
            in AList.update k (vm_count u it v) seen))"

definition vm_before :: "vm \<Rightarrow> vm \<Rightarrow> bool" where
  "vm_before a b =
     (if vm_namespace a \<noteq> vm_namespace b then vm_namespace a < vm_namespace b
      else if vm_lastRPTime a = vm_lastRPTime b then vm_name a < vm_name b
      else vm_lastRPTime a > vm_lastRPTime b)"

text \<open>\<open>range_order\<close> is the order in which the range loop meets the entries of the map.\<close>

definition ListVMs ::
  "unstructured \<Rightarrow> ((vm \<Rightarrow> vm \<Rightarrow> bool) \<Rightarrow> vm list \<Rightarrow> vm list) \<Rightarrow> ((vm_key \<times> vm) list \<Rightarrow> (vm_key \<times> vm) list) \<Rightarrow>
   kube_api \<Rightarrow> string list \<Rightarrow> (k8s_error, vm list) result \<times> (string \<times> string) list" where
  "ListVMs u sort_slice range_order api namespaces =
     (case api_list_rps api [] (appType @ ''=virtualMachine'') of
        Inl e \<Rightarrow> (Inl (ListErr ''list restorepoints'' e), recordK8sError ''list_vms'' e)
      | Inr items \<Rightarrow>
          (Inr (sort_slice vm_before (map snd (range_order (fold (vm_add u namespaces) items [])))), []))"

definition ListVMNamespaces ::
  "unstructured \<Rightarrow> (string list \<Rightarrow> string list) \<Rightarrow> kube_api \<Rightarrow> (k8s_error, string list) result" where
  "ListVMNamespaces u range_order api =
     (case api_list_rps api [] (appType @ ''=virtualMachine'') of
        Inl e \<Rightarrow> Inl (ListErr ''list restorepoints'' e)
      | Inr items \<Rightarrow>
          Inr (sort (range_order (fold (\<lambda>it set.
            if label_in u it appType \<noteq> ''virtualMachine'' then set
            else (let ns = label_in u it appNamespace in
                  if ns = [] then set else List.insert ns set)) items []))))"

section \<open>Restore points\<close>

record restore_point =
  rp_name :: string
  rp_namespace :: string
  rp_state :: string
  rp_createdAt :: gotime
  rp_type :: string

definition rpTypeFromLabels :: "(string, string) gomap \<Rightarrow> string" where
  "rpTypeFromLabels labels =
     (if label_of labels ''k10.kasten.io/exportProfile'' \<noteq> [] then ''export'' else ''snapshot'')"

definition restore_point_of :: "unstructured \<Rightarrow> jobj \<Rightarrow> restore_point" where
  "restore_point_of u it =
     \<lparr>rp_name = GetName u it, rp_namespace = GetNamespace u it,
      rp_state = NestedString u it [''status'', ''state''], rp_createdAt = GetCreation u it,
      rp_type = rpTypeFromLabels (GetLabels u it)\<rparr>"

definition newer_rp :: "restore_point \<Rightarrow> restore_point \<Rightarrow> bool" where
  "newer_rp a b \<longleftrightarrow> rp_createdAt a > rp_createdAt b"

definition ListRestorePoints ::
  "unstructured \<Rightarrow> ((restore_point \<Rightarrow> restore_point \<Rightarrow> bool) \<Rightarrow> restore_point list \<Rightarrow> restore_point list) \<Rightarrow>
   kube_api \<Rightarrow> string \<Rightarrow> string \<Rightarrow> (k8s_error, restore_point list) result" where
  "ListRestorePoints u sort_slice api ns app =
     (case api_list_rps api ns (appName @ ''='' @ app @ '','' @ appType @ ''=virtualMachine'') of
        Inl e \<Rightarrow> Inl (ListErr ''list restorepoints'' e)
      | Inr items \<Rightarrow> Inr (sort_slice newer_rp (map (restore_point_of u) items)))"

section \<open>Volumes\<close>

record volume_artifact =
  va_pvc :: string
  va_size :: string
  va_isClone :: bool

text \<open>
  \<open>json.Unmarshal\<close> of a decoded document into the structs of the parsers: a field is the value of the
  last key equal to its name up to ASCII case, a missing or null field keeps the zero value, a value
  of another type is an error (\<open>None\<close>). A null element of the array is a nil map. The decoded
  objects have the keys of the document, each once.
\<close>

definition struct_field :: "string \<Rightarrow> json \<Rightarrow> json option" where
  "struct_field f j =
     (case j of
        JNull \<Rightarrow> Some JNull
      | JObj m \<Rightarrow> Some (case map_of (rev (map (\<lambda>(k, v). (to_lower k, v)) m)) (to_lower f) of
                         None \<Rightarrow> JNull | Some v \<Rightarrow> v)
      | _ \<Rightarrow> None)"

fun object_list :: "json list \<Rightarrow> jobj list option" where
  "object_list [] = Some []"
| "object_list (j # js) =
     (case j of
        JNull \<Rightarrow> map_option ((#) []) (object_list js)
      | JObj m \<Rightarrow> map_option ((#) m) (object_list js)
      | _ \<Rightarrow> None)"

definition array_field :: "json \<Rightarrow> jobj list option" where
  "array_field j = (case j of JNull \<Rightarrow> Some [] | JArr js \<Rightarrow> object_list js | _ \<Rightarrow> None)"

definition nested_artifacts :: "json \<Rightarrow> jobj list option" where
  "nested_artifacts doc =
     (case struct_field ''status'' doc of
        None \<Rightarrow> None
      | Some st \<Rightarrow>
          (case struct_field ''restorePointDetails'' st of
             None \<Rightarrow> None
           | Some d \<Rightarrow> (case struct_field ''artifacts'' d of None \<Rightarrow> None | Some a \<Rightarrow> array_field a)))"

definition flat_artifacts :: "json \<Rightarrow> jobj list option" where
  "flat_artifacts doc = (case struct_field ''artifacts'' doc of None \<Rightarrow> None | Some a \<Rightarrow> array_field a)"

text \<open>The bodies of the two loops: \<open>None\<close> where they continue without appending.\<close>

definition nested_artifact :: "jobj \<Rightarrow> volume_artifact option" where
  "nested_artifact m =
     (case as_object (map_of m ''meta'') of
        None \<Rightarrow> None
      | Some meta \<Rightarrow>
          (case as_object (map_of meta ''spec'') of
             None \<Rightarrow> None
           | Some spec \<Rightarrow>
               if as_string (map_of spec ''resource'') \<noteq> ''persistentvolumeclaims'' then None
               else (let name = as_string (map_of spec ''name'') in
                     if name = [] then None
                     else Some \<lparr>va_pvc = name, va_size = as_string (map_of m ''occupiedSize''), va_isClone = False\<rparr>)))"

definition flat_artifact :: "jobj \<Rightarrow> volume_artifact option" where
  "flat_artifact m =
     (if as_string (map_of m ''kind'') \<noteq> ''PersistentVolumeClaim'' then None
      else Some \<lparr>va_pvc = as_string (map_of m ''name''), va_size = as_string (map_of m ''occupiedSize''),
                 va_isClone = False\<rparr>)"

definition extractNestedPVCDetails :: "(string \<Rightarrow> json option) \<Rightarrow> string \<Rightarrow> volume_artifact list option" where
  "extractNestedPVCDetails decode body =
     (case Option.bind (decode body) nested_artifacts of
        None \<Rightarrow> None
      | Some artifacts \<Rightarrow>
          if artifacts = [] then None
          else (let out = List.map_filter nested_artifact artifacts in if out = [] then None else Some out))"

definition extractFlatPVCDetails :: "(string \<Rightarrow> json option) \<Rightarrow> string \<Rightarrow> volume_artifact list option" where
  "extractFlatPVCDetails decode body =
     (case Option.bind (decode body) flat_artifacts of
        None \<Rightarrow> None
      | Some artifacts \<Rightarrow> Some (List.map_filter flat_artifact artifacts))"

definition parseDetailsPVCs :: "(string \<Rightarrow> json option) \<Rightarrow> string \<Rightarrow> volume_artifact list option" where
  "parseDetailsPVCs decode body =
     (case extractNestedPVCDetails decode body of
        Some arts \<Rightarrow> Some arts
      | None \<Rightarrow> extractFlatPVCDetails decode body)"

section \<open>Raw requests\<close>

datatype request_error =
    FakeClient
  | NoHTTPClient
  | BuildRequest string
  | DoRequest string
  | ReadBody string
  | BadStatus int string
  | BadBody

text \<open>
  The client: whether it is a fake one, the apiserver's base URL, and net/http as parameters (the
  check of the URL, and the response's status with the reading of its body), \<open>None\<close> for a client
  without an http.Client.
\<close>

record k8s_client =
  kc_isFake :: bool
  kc_hostBase :: string
  kc_http :: "((string \<Rightarrow> string option) \<times> (string \<Rightarrow> string \<Rightarrow> string + int \<times> (string + string))) option"

definition snippet :: "string \<Rightarrow> string" where
  "snippet b = (if length b \<le> 200 then b else take 200 b @ ellipsis)"

definition doK8sRequest :: "k8s_client \<Rightarrow> string \<Rightarrow> string \<Rightarrow> (request_error, string) result" where
  "doK8sRequest c method path =
     (if kc_isFake c then Inl FakeClient
      else (case kc_http c of
              None \<Rightarrow> Inl NoHTTPClient
            | Some (bad_url, send) \<Rightarrow>
                (case bad_url (kc_hostBase c @ path) of
                   Some e \<Rightarrow> Inl (BuildRequest e)
                 | None \<Rightarrow>
                     (case send method (kc_hostBase c @ path) of
                        Inl e \<Rightarrow> Inl (DoRequest e)
                      | Inr (status, body) \<Rightarrow>
                          (case body of
                             Inl e \<Rightarrow> Inl (ReadBody e)
                           | Inr b \<Rightarrow>
                               if status < 200 \<or> status \<ge> 300 then Inl (BadStatus status (snippet b))
                               else Inr b)))))"

definition details_path :: "string \<Rightarrow> string \<Rightarrow> string" where
  "details_path ns name =
     ''/apis/apps.kio.kasten.io/v1alpha1/namespaces/'' @ ns @ ''/restorepoints/'' @ name @ ''/details''"

definition GetRestorePointDetails ::
  "(string \<Rightarrow> json option) \<Rightarrow> k8s_client \<Rightarrow> string \<Rightarrow> string \<Rightarrow> (request_error, volume_artifact list) result" where
  "GetRestorePointDetails decode c ns name =
     (case doK8sRequest c ''GET'' (details_path ns name) of
        Inl e \<Rightarrow> Inl e
      | Inr body \<Rightarrow> (case parseDetailsPVCs decode body of None \<Rightarrow> Inl BadBody | Some arts \<Rightarrow> Inr arts))"

section \<open>Building the client\<close>

record client_options =
  co_inCluster :: bool
  co_kubeconfig :: string
  co_fake :: bool

text \<open>client-go: the constructors NewClient calls, in its order, and the user's home directory.\<close>

record ('cfg, 'core, 'dyn, 'http) client_go =
  cg_inCluster :: "string + 'cfg"
  cg_fromFlags :: "string \<Rightarrow> string + 'cfg"
  cg_core :: "'cfg \<Rightarrow> string + 'core"
  cg_dynamic :: "'cfg \<Rightarrow> string + 'dyn"
  cg_http :: "'cfg \<Rightarrow> string + 'http"
  cg_host :: "'cfg \<Rightarrow> string"
  cg_home :: string
  cg_fakeCore :: 'core
  cg_fakeDyn :: "scheme \<Rightarrow> 'dyn"

record ('core, 'dyn, 'http) built_client =
  bc_core :: 'core
  bc_dyn :: 'dyn
  bc_http :: "'http option"
  bc_isFake :: bool
  bc_hostBase :: string

datatype client_error =
    KubeConfig string
  | CoreClient string
  | DynamicClient string
  | HTTPClient string

definition kubeconfig_of :: "client_options \<Rightarrow> string \<Rightarrow> string" where
  "kubeconfig_of opts home =
     (if co_kubeconfig opts = [] then (if home \<noteq> [] then path_join [home, ''.kube'', ''config''] else [])
      else co_kubeconfig opts)"

definition NewK8sClient ::
  "('cfg, 'core, 'dyn, 'http) client_go \<Rightarrow> client_options \<Rightarrow>
   (client_error, ('core, 'dyn, 'http) built_client) result" where
  "NewK8sClient g opts =
     (if co_fake opts
      then Inr \<lparr>bc_core = cg_fakeCore g, bc_dyn = cg_fakeDyn g NewScheme, bc_http = None, bc_isFake = True, bc_hostBase = []\<rparr>
      else (case (if co_inCluster opts then cg_inCluster g else cg_fromFlags g (kubeconfig_of opts (cg_home g))) of
              Inl e \<Rightarrow> Inl (KubeConfig e)
            | Inr cfg \<Rightarrow>
                (case cg_core g cfg of
                   Inl e \<Rightarrow> Inl (CoreClient e)
                 | Inr core \<Rightarrow>
                     (case cg_dynamic g cfg of
                        Inl e \<Rightarrow> Inl (DynamicClient e)
                      | Inr dyn \<Rightarrow>
                          (let hostBase = (if cg_host g cfg = [] then ''https://kubernetes.default.svc'' else cg_host g cfg)
                           in case cg_http g cfg of
                                Inl e \<Rightarrow> Inl (HTTPClient e)
                              | Inr h \<Rightarrow> Inr \<lparr>bc_core = core, bc_dyn = dyn, bc_http = Some h, bc_isFake = False,
                                             bc_hostBase = hostBase\<rparr>)))))"

section \<open>The private key Secret\<close>

record secret =
  sec_type :: string
  sec_data :: "(string, string) gomap"

record credentials_config =
  cc_namespace :: string
  cc_name :: string
  cc_field :: string

record credentials =
  cr_username :: string
  cr_privateKey :: string

datatype credentials_error =
    GetSecret api_error
  | SecretType string
  | MissingField string

definition secret_type_ssh :: string where
  "secret_type_ssh = ''kubernetes.io/ssh-auth''"

definition LoadPrivateKey ::
  "(string \<Rightarrow> string \<Rightarrow> api_error + secret) \<Rightarrow> credentials_config \<Rightarrow> (credentials_error, credentials) result" where
  "LoadPrivateKey get_secret cfg =
     (case get_secret (cc_namespace cfg) (cc_name cfg) of
        Inl e \<Rightarrow> Inl (GetSecret e)
      | Inr s \<Rightarrow>
          if sec_type s \<noteq> secret_type_ssh then Inl (SecretType (sec_type s))
          else (let pk = label_of (sec_data s) (cc_field cfg) in
                if length pk = 0 then Inl (MissingField (cc_field cfg))
                else Inr \<lparr>cr_username = ''root'', cr_privateKey = pk\<rparr>))"

section \<open>Grouping restore points by machine\<close>

text \<open>The restore points that count for a machine, in the order of the list.\<close>

definition vm_items :: "unstructured \<Rightarrow> string list \<Rightarrow> jobj list \<Rightarrow> vm_key \<Rightarrow> jobj list" where
  "vm_items u namespaces items k = filter (\<lambda>it. vm_item u namespaces it \<and> vm_key_of u it = k) items"

lemma fold_vm_add:
  "map_of (fold (vm_add u nss) items []) k =
     (if vm_items u nss items k = [] then None
      else Some (fold (vm_count u) (vm_items u nss items k) (new_vm k)))"
  by (induction items rule: rev_induct)
    (auto simp: vm_add_def vm_items_def Let_def find_simps split: option.splits if_splits)

lemma wf_fold_vm_add: "wf_map m \<Longrightarrow> wf_map (fold (vm_add u nss) items m)"
  by (induction items arbitrary: m) (auto simp: vm_add_def Let_def wf_rules)

lemma fold_vm_count_key [simp]:
  "vm_name (fold (vm_count u) its v) = vm_name v" "vm_namespace (fold (vm_count u) its v) = vm_namespace v"
  by (induction its arbitrary: v) (auto simp: vm_count_def Let_def)

lemma fold_vm_count_count: "vm_rpCount (fold (vm_count u) its v) = vm_rpCount v + int (length its)"
  by (induction its arbitrary: v) (auto simp: vm_count_def Let_def)

lemma fold_vm_count_time:
  "vm_lastRPTime (fold (vm_count u) its v) = Max (insert (vm_lastRPTime v) (GetCreation u ` set its))"
proof (induction its arbitrary: v)
  case (Cons it its)
  have "Max (insert (vm_lastRPTime (vm_count u it v)) (GetCreation u ` set its)) =
      Max (insert (max (vm_lastRPTime v) (GetCreation u it)) (GetCreation u ` set its))"
    by (auto simp: vm_count_def Let_def max_def)
  also have "\<dots> = Max (insert (vm_lastRPTime v) (insert (GetCreation u it) (GetCreation u ` set its)))"
    by (cases "its = []") (simp_all add: max.assoc)
  finally show ?case using Cons by simp
qed simp

lemma fold_vm_count_name:
  "vm_lastRPTime (fold (vm_count u) its v) = vm_lastRPTime v \<and> vm_lastRPName (fold (vm_count u) its v) = vm_lastRPName v \<or>
   (\<exists>it \<in> set its. GetCreation u it = vm_lastRPTime (fold (vm_count u) its v) \<and>
                   GetName u it = vm_lastRPName (fold (vm_count u) its v))"
proof (induction its arbitrary: v)
  case (Cons it its)
  from Cons [of "vm_count u it v"] show ?case
    by (auto simp: vm_count_def Let_def split: if_splits)
qed simp

definition vm_rank :: "vm \<Rightarrow> string \<times> int \<times> string" where
  "vm_rank v = (vm_namespace v, - vm_lastRPTime v, vm_name v)"

lemma vm_before_rank: "vm_before = (\<lambda>a b. vm_rank a < vm_rank b)"
  by (intro ext) (auto simp: vm_before_def vm_rank_def less_prod_def)

lemma vm_before_order: "weak_order_on A vm_before"
  unfolding vm_before_rank by (rule weak_order_key(1))

text \<open>The machines of the map, before sorting.\<close>

definition vm_table :: "unstructured \<Rightarrow> string list \<Rightarrow> jobj list \<Rightarrow> vm list" where
  "vm_table u nss items = map snd (fold (vm_add u nss) items [])"

lemma vm_table_mem:
  "v \<in> set (vm_table u nss items) \<longleftrightarrow>
     vm_items u nss items (vm_name v, vm_namespace v) \<noteq> [] \<and>
     v = fold (vm_count u) (vm_items u nss items (vm_name v, vm_namespace v)) (new_vm (vm_name v, vm_namespace v))"
proof -
  have w: "wf_map (fold (vm_add u nss) items [])" by (rule wf_fold_vm_add) simp
  have "v \<in> set (vm_table u nss items) \<longleftrightarrow> (\<exists>k. map_of (fold (vm_add u nss) items []) k = Some v)"
    using w by (force simp: vm_table_def map_of_eq_Some_iff)
  also have "\<dots> \<longleftrightarrow> (\<exists>k. vm_items u nss items k \<noteq> [] \<and> v = fold (vm_count u) (vm_items u nss items k) (new_vm k))"
    by (auto simp: fold_vm_add)
  also have "\<dots> \<longleftrightarrow> vm_items u nss items (vm_name v, vm_namespace v) \<noteq> [] \<and>
     v = fold (vm_count u) (vm_items u nss items (vm_name v, vm_namespace v)) (new_vm (vm_name v, vm_namespace v))"
  proof -
    have key: "v = fold (vm_count u) its (new_vm k) \<Longrightarrow> (vm_name v, vm_namespace v) = k" for k its
      by (simp add: new_vm_def)
    show ?thesis
    proof
      assume "\<exists>k. vm_items u nss items k \<noteq> [] \<and> v = fold (vm_count u) (vm_items u nss items k) (new_vm k)"
      then obtain k where k: "vm_items u nss items k \<noteq> []" "v = fold (vm_count u) (vm_items u nss items k) (new_vm k)"
        by blast
      show "vm_items u nss items (vm_name v, vm_namespace v) \<noteq> [] \<and>
        v = fold (vm_count u) (vm_items u nss items (vm_name v, vm_namespace v)) (new_vm (vm_name v, vm_namespace v))"
        unfolding key [OF k(2)] using k by blast
    qed blast
  qed
  finally show ?thesis .
qed

lemma vm_table_keys:
  "map (\<lambda>v. (vm_name v, vm_namespace v)) (vm_table u nss items) = keys (fold (vm_add u nss) items [])"
proof -
  have "(vm_name v, vm_namespace v) = k" if kv: "(k, v) \<in> set (fold (vm_add u nss) items [])" for k v
  proof -
    have "map_of (fold (vm_add u nss) items []) k = Some v"
      using kv wf_fold_vm_add [of "[]" u nss items] by (simp add: map_of_eq_Some_iff)
    then show ?thesis by (auto simp: fold_vm_add new_vm_def split: if_splits)
  qed
  then show ?thesis unfolding vm_table_def by (induction "fold (vm_add u nss) items []") auto
qed

lemma distinct_vm_table: "distinct (map (\<lambda>v. (vm_name v, vm_namespace v)) (vm_table u nss items))"
  unfolding vm_table_keys by (rule wf_fold_vm_add) simp

lemma vm_table_total: "total_order_on (set (vm_table u nss items)) vm_before"
proof -
  have inj: "inj_on (\<lambda>v. (vm_name v, vm_namespace v)) (set (vm_table u nss items))"
    using distinct_vm_table [of u nss items] by (simp add: distinct_map)
  show ?thesis
    unfolding total_order_on_def
  proof (intro conjI ballI impI)
    fix x y assume "x \<in> set (vm_table u nss items)" "y \<in> set (vm_table u nss items)" "x \<noteq> y"
    then have "vm_rank x \<noteq> vm_rank y" using inj by (auto simp: vm_rank_def inj_on_def)
    then show "vm_before x y \<or> vm_before y x" by (simp add: vm_before_rank neq_iff)
  qed (rule vm_before_order)
qed

text \<open>The namespaces collected by the loop of \<open>ListVMNamespaces\<close>.\<close>

lemma fold_insert_distinct:
  assumes "distinct acc"
  shows "distinct (fold (\<lambda>it s. if P it then s else (let n = f it in if n = z then s else List.insert n s)) items acc)"
  using assms by (induction items arbitrary: acc) (auto simp: Let_def)

lemma fold_insert_set:
  "set (fold (\<lambda>it s. if P it then s else (let n = f it in if n = z then s else List.insert n s)) items acc) =
     set acc \<union> {f it | it. it \<in> set items \<and> \<not> P it \<and> f it \<noteq> z}"
  by (induction items arbitrary: acc) (auto simp: Let_def)

text \<open>What a row says of the restore points it stands for.\<close>

definition vm_row :: "unstructured \<Rightarrow> jobj list \<Rightarrow> vm \<Rightarrow> bool" where
  "vm_row u its v \<longleftrightarrow>
     vm_rpCount v = int (length its) \<and>
     vm_lastRPTime v = Max (insert 0 (GetCreation u ` set its)) \<and>
     (vm_lastRPTime v = 0 \<or>
      (\<exists>it \<in> set its. GetCreation u it = vm_lastRPTime v \<and> GetName u it = vm_lastRPName v))"

lemma vm_table_row:
  assumes "v \<in> set (vm_table u nss items)"
  shows "vm_row u (vm_items u nss items (vm_name v, vm_namespace v)) v"
proof -
  define k its where "k = (vm_name v, vm_namespace v)" and "its = vm_items u nss items k"
  have v: "v = fold (vm_count u) its (new_vm k)" using assms by (simp add: vm_table_mem its_def k_def)
  have "vm_row u its (fold (vm_count u) its (new_vm k))"
    using fold_vm_count_name [of u its "new_vm k"]
    by (auto simp: vm_row_def fold_vm_count_count fold_vm_count_time new_vm_def)
  then show ?thesis unfolding v [symmetric] unfolding its_def k_def .
qed

lemma vm_table_key_iff:
  "k \<in> set (map (\<lambda>v. (vm_name v, vm_namespace v)) (vm_table u nss items)) \<longleftrightarrow> vm_items u nss items k \<noteq> []"
proof -
  have "k \<in> set (keys (fold (vm_add u nss) items [])) \<longleftrightarrow> map_of (fold (vm_add u nss) items []) k \<noteq> None"
    by (simp add: map_of_eq_None_iff)
  then show ?thesis unfolding vm_table_keys fold_vm_add by auto
qed

definition demo_rp :: "string \<Rightarrow> string \<Rightarrow> int \<Rightarrow> string \<Rightarrow> jobj" where
  "demo_rp ns name created app =
     [demo_meta ns name created
        [(appType, JStr ''virtualMachine''), (appName, JStr app), (appNamespace, JStr ns)]]"

section \<open>Properties\<close>

text \<open>
  C24: the machine list has one row for each pair of application name and namespace that some
  virtual machine restore point of a whitelisted namespace carries; the row counts these restore
  points and gives the latest creation time among them and the name of one created then.
\<close>

theorem list_vms_exact:
  assumes "slice_sorter sort_slice" and "\<And>m. mset (range_order m) = mset m"
    and "api_list_rps api [] (appType @ ''=virtualMachine'') = Inr items"
  shows "\<exists>vms. fst (ListVMs u sort_slice range_order api namespaces) = Inr vms \<and>
    distinct (map (\<lambda>v. (vm_name v, vm_namespace v)) vms) \<and>
    (\<forall>k. k \<in> set (map (\<lambda>v. (vm_name v, vm_namespace v)) vms) \<longleftrightarrow> vm_items u namespaces items k \<noteq> []) \<and>
    (\<forall>v \<in> set vms. vm_row u (vm_items u namespaces items (vm_name v, vm_namespace v)) v)"
proof -
  define rows where "rows = map snd (range_order (fold (vm_add u namespaces) items []))"
  have "mset rows = mset (vm_table u namespaces items)" using assms(2) by (simp add: vm_table_def rows_def)
  then have m: "mset (sort_slice vm_before rows) = mset (vm_table u namespaces items)"
    using sorterD(1) [OF assms(1) vm_before_order] by simp
  then have s: "set (sort_slice vm_before rows) = set (vm_table u namespaces items)" by (rule mset_eq_setD)
  have "distinct (map (\<lambda>v. (vm_name v, vm_namespace v)) (sort_slice vm_before rows))"
    using distinct_vm_table [of u namespaces items] m by (metis mset_eq_imp_distinct_iff mset_map)
  moreover have "k \<in> set (map (\<lambda>v. (vm_name v, vm_namespace v)) (sort_slice vm_before rows)) \<longleftrightarrow>
      vm_items u namespaces items k \<noteq> []" for k
    using vm_table_key_iff [of k u namespaces items] s by simp
  moreover have "fst (ListVMs u sort_slice range_order api namespaces) = Inr (sort_slice vm_before rows)"
    using assms(3) by (simp add: ListVMs_def rows_def)
  ultimately show ?thesis using vm_table_row s by blast
qed

theorem list_vms_exact_witness:
  "\<exists>vms. fst (ListVMs demo_lib insertion_sort rev (demo_api [demo_rp ''a'' ''r1'' 5 ''vm'', demo_rp ''a'' ''r2'' 7 ''vm'']) []) = Inr vms \<and>
     (''vm'', ''a'') \<in> set (map (\<lambda>v. (vm_name v, vm_namespace v)) vms)"
proof -
  let ?items = "[demo_rp ''a'' ''r1'' 5 ''vm'', demo_rp ''a'' ''r2'' 7 ''vm'']"
  have "vm_items demo_lib [] ?items (''vm'', ''a'') \<noteq> []" by code_simp
  then show ?thesis
    using list_vms_exact [of insertion_sort rev "demo_api ?items" ?items demo_lib "[]"]
    by (auto simp: demo_api_def)
qed

text \<open>
  The machine list is the same whatever order the range loop meets the map in and whatever
  algorithm sort.Slice uses: the comparison tells any two rows apart.
\<close>

lemma list_vms_deterministic:
  assumes "slice_sorter s1" "slice_sorter s2" "\<And>m. mset (o1 m) = mset m" "\<And>m. mset (o2 m) = mset m"
  shows "ListVMs u s1 o1 api namespaces = ListVMs u s2 o2 api namespaces"
proof (cases "api_list_rps api [] (appType @ ''=virtualMachine'')")
  case (Inr items)
  let ?m = "fold (vm_add u namespaces) items []"
  have "mset (map snd (o1 ?m)) = mset (map snd (o2 ?m))" using assms(3,4) by simp
  moreover have "set (map snd (o1 ?m)) = set (vm_table u namespaces items)"
    using assms(3) by (simp add: vm_table_def) (metis mset_eq_setD)
  ultimately have "s1 vm_before (map snd (o1 ?m)) = s2 vm_before (map snd (o2 ?m))"
    using sorters_agree [OF assms(1,2)] vm_table_total by metis
  then show ?thesis using Inr by (simp add: ListVMs_def)
qed (simp add: ListVMs_def)

lemma list_vms_deterministic_witness:
  "ListVMs demo_lib insertion_sort rev (demo_api [demo_rp ''a'' ''r1'' 5 ''vm'']) [] =
   ListVMs demo_lib insertion_sort (\<lambda>m. m) (demo_api [demo_rp ''a'' ''r1'' 5 ''vm'']) []"
  by (rule list_vms_deterministic) simp_all

text \<open>
  The namespace selector offers, sorted and each once, exactly the non-empty application
  namespaces of the virtual machine restore points; no whitelist takes part in it.
\<close>

lemma list_vm_namespaces_exact:
  assumes "\<And>xs. mset (range_order xs) = mset xs"
    and "api_list_rps api [] (appType @ ''=virtualMachine'') = Inr items"
  shows "ListVMNamespaces u range_order api =
    Inr (sorted_list_of_set {label_in u it appNamespace | it. it \<in> set items \<and>
      label_in u it appType = ''virtualMachine'' \<and> label_in u it appNamespace \<noteq> []})"
proof -
  let ?f = "fold (\<lambda>it set. if label_in u it appType \<noteq> ''virtualMachine'' then set
      else (let ns = label_in u it appNamespace in if ns = [] then set else List.insert ns set)) items []"
  have "distinct ?f" by (rule fold_insert_distinct) simp
  moreover have "sort (range_order ?f) = sort ?f"
    by (rule properties_for_sort) (simp_all only: mset_sort sorted_sort assms(1))
  ultimately have "sort (range_order ?f) = sorted_list_of_set (set ?f)"
    by (simp only: sorted_list_of_set_sort_remdups distinct_remdups_id)
  moreover have "set ?f = {label_in u it appNamespace | it. it \<in> set items \<and>
      label_in u it appType = ''virtualMachine'' \<and> label_in u it appNamespace \<noteq> []}"
    unfolding fold_insert_set by auto
  ultimately show ?thesis using assms(2) by (simp only: ListVMNamespaces_def sum.case)
qed

lemma list_vm_namespaces_exact_witness:
  "ListVMNamespaces demo_lib rev (demo_api []) = Inr []"
  by (subst list_vm_namespaces_exact [where items = "[]"]) (simp_all add: demo_api_def)

definition nested_doc :: "(string \<times> string) list \<Rightarrow> json" where
  "nested_doc vols = JObj [(''status'', JObj [(''restorePointDetails'', JObj [(''artifacts'', JArr
     (map (\<lambda>(n, s). JObj [(''meta'', JObj [(''spec'', JObj [(''resource'', JStr ''persistentvolumeclaims''),
                                                         (''name'', JStr n)])]),
                        (''occupiedSize'', JStr s)]) vols))])])]"

definition flat_doc :: "(string \<times> string) list \<Rightarrow> json" where
  "flat_doc vols = JObj [(''artifacts'', JArr
     (map (\<lambda>(n, s). JObj [(''kind'', JStr ''PersistentVolumeClaim''), (''name'', JStr n),
                        (''occupiedSize'', JStr s)]) vols))]"

definition artifacts_of :: "(string \<times> string) list \<Rightarrow> volume_artifact list" where
  "artifacts_of vols = map (\<lambda>(n, s). \<lparr>va_pvc = n, va_size = s, va_isClone = False\<rparr>) vols"

lemma object_list_map: "object_list (map (\<lambda>x. JObj (f x)) xs) = Some (map f xs)"
  by (induction xs) auto

lemma extractNested_doc:
  assumes "vols \<noteq> []" and "\<forall>(n, s) \<in> set vols. n \<noteq> []"
  shows "extractNestedPVCDetails (\<lambda>_. Some (nested_doc vols)) body = Some (artifacts_of vols)"
proof -
  have "List.map_filter nested_artifact
      (map (\<lambda>(n, s). [(''meta'', JObj [(''spec'', JObj [(''resource'', JStr ''persistentvolumeclaims''), (''name'', JStr n)])]),
                      (''occupiedSize'', JStr s)]) vols) = artifacts_of vols"
    using assms(2)
    by (induction vols)
      (auto simp: List.map_filter_simps nested_artifact_def as_object_def as_string_def artifacts_of_def)
  then show ?thesis
    using assms(1)
    by (simp add: extractNestedPVCDetails_def nested_doc_def nested_artifacts_def struct_field_def array_field_def
        object_list_map case_prod_unfold artifacts_of_def Let_def)
qed

lemma extractFlat_doc:
  "extractFlatPVCDetails (\<lambda>_. Some (flat_doc vols)) body = Some (artifacts_of vols)"
  "extractNestedPVCDetails (\<lambda>_. Some (flat_doc vols)) body = None"
proof -
  have "List.map_filter flat_artifact
      (map (\<lambda>(n, s). [(''kind'', JStr ''PersistentVolumeClaim''), (''name'', JStr n), (''occupiedSize'', JStr s)]) vols) =
      artifacts_of vols"
    by (induction vols) (auto simp: List.map_filter_simps flat_artifact_def as_string_def artifacts_of_def)
  then show "extractFlatPVCDetails (\<lambda>_. Some (flat_doc vols)) body = Some (artifacts_of vols)"
    by (simp add: extractFlatPVCDetails_def flat_doc_def flat_artifacts_def struct_field_def array_field_def
        object_list_map case_prod_unfold artifacts_of_def)
  have "to_lower ''status'' \<noteq> to_lower ''artifacts''" by code_simp
  then show "extractNestedPVCDetails (\<lambda>_. Some (flat_doc vols)) body = None"
    by (simp add: extractNestedPVCDetails_def flat_doc_def nested_artifacts_def struct_field_def array_field_def)
qed

text \<open>
  Both shapes of the details document are understood: the volumes written as artifacts of
  \<open>status.restorePointDetails\<close> (none without a name) and those written as top-level artifacts are
  read back in order, with their sizes.
\<close>

lemma details_roundtrip:
  assumes "vols \<noteq> []" and "\<forall>(n, s) \<in> set vols. n \<noteq> []"
  shows "parseDetailsPVCs (\<lambda>_. Some (nested_doc vols)) body = Some (artifacts_of vols) \<and>
    parseDetailsPVCs (\<lambda>_. Some (flat_doc vols)) body = Some (artifacts_of vols)"
  using extractNested_doc [OF assms] by (simp add: parseDetailsPVCs_def extractFlat_doc)

lemma details_roundtrip_witness:
  "parseDetailsPVCs (\<lambda>_. Some (nested_doc [(''data'', ''1Gi''), (''log'', [])])) '''' =
     Some [\<lparr>va_pvc = ''data'', va_size = ''1Gi'', va_isClone = False\<rparr>, \<lparr>va_pvc = ''log'', va_size = [], va_isClone = False\<rparr>]"
  using details_roundtrip [of "[(''data'', ''1Gi''), (''log'', [])]" "''''"] by (simp add: artifacts_of_def)

end
