(* ===== verification/Simulation.thy ===== *)
theory Simulation
  imports Main
begin

text \<open>
  Transition systems that are described at two levels: the states reachable from the initial ones,
  and the contract of an abstraction function under which every step of the detailed system is a step
  of the abstract one or changes nothing that the abstraction sees. The server refines the wizard's
  system of watchers and the life of the SFTP pool this way.
\<close>

inductive reach :: "('s \<Rightarrow> bool) \<Rightarrow> ('s \<Rightarrow> 's \<Rightarrow> bool) \<Rightarrow> 's \<Rightarrow> bool"
  for init :: "'s \<Rightarrow> bool" and step :: "'s \<Rightarrow> 's \<Rightarrow> bool" where
  start: "reach init step s" if "init s"
| next_step: "reach init step t" if "reach init step s" "step s t"

text \<open>An invariant is one that holds initially and is kept by the steps between reachable states.\<close>

lemma reach_invariant [consumes 1, case_names init step]:
  assumes "reach init step s" and "\<And>s. init s \<Longrightarrow> P s"
    and "\<And>s t. reach init step s \<Longrightarrow> P s \<Longrightarrow> step s t \<Longrightarrow> P t"
  shows "P s"
  using assms(1) by (induction rule: reach.induct) (auto intro: assms(2,3))

text \<open>
  Infinite runs, in which a state may also be repeated. A kind of step is weakly fair in a run if it is
  taken again and again unless it is again and again disabled.
\<close>

definition run :: "('s \<Rightarrow> 's \<Rightarrow> bool) \<Rightarrow> (nat \<Rightarrow> 's) \<Rightarrow> bool" where
  "run step \<sigma> \<longleftrightarrow> (\<forall>i. step (\<sigma> i) (\<sigma> (Suc i)) \<or> \<sigma> (Suc i) = \<sigma> i)"

definition weakly_fair :: "('s \<Rightarrow> 's \<Rightarrow> bool) \<Rightarrow> ('s \<Rightarrow> bool) \<Rightarrow> (nat \<Rightarrow> 's) \<Rightarrow> bool" where
  "weakly_fair helps enabled \<sigma> \<longleftrightarrow> (\<forall>i. (\<forall>j \<ge> i. enabled (\<sigma> j)) \<longrightarrow> (\<exists>j \<ge> i. helps (\<sigma> j) (\<sigma> (Suc j))))"

lemma run_reach: "run step \<sigma> \<Longrightarrow> init (\<sigma> 0) \<Longrightarrow> reach init step (\<sigma> i)"
proof (induction i)
  case (Suc i)
  then show ?case unfolding run_def by (metis reach.next_step)
qed (rule reach.start)

text \<open>What holds from some time on, because no step ends it.\<close>

lemma run_stable:
  assumes "run step \<sigma>" "\<And>j. i \<le> j \<Longrightarrow> P (\<sigma> j) \<Longrightarrow> step (\<sigma> j) (\<sigma> (Suc j)) \<Longrightarrow> P (\<sigma> (Suc j))" "P (\<sigma> i)" "i \<le> k"
  shows "P (\<sigma> k)"
  using assms(4)
proof (induction rule: dec_induct)
  case (step k)
  then show ?case using assms(1,2) unfolding run_def by metis
qed (rule assms(3))

text \<open>
  From \<open>P\<close> to \<open>Q\<close>: every step keeps \<open>P\<close> until \<open>Q\<close>, and the helpful step, enabled as long as \<open>P\<close> holds, leads to \<open>Q\<close>.
\<close>

lemma leads_to:
  assumes "run step \<sigma>" "weakly_fair helps enabled \<sigma>"
    and keeps: "\<And>j. P (\<sigma> j) \<Longrightarrow> step (\<sigma> j) (\<sigma> (Suc j)) \<Longrightarrow> P (\<sigma> (Suc j)) \<or> Q (\<sigma> (Suc j))"
    and enabled: "\<And>j. P (\<sigma> j) \<Longrightarrow> enabled (\<sigma> j)"
    and helps: "\<And>j. P (\<sigma> j) \<Longrightarrow> helps (\<sigma> j) (\<sigma> (Suc j)) \<Longrightarrow> Q (\<sigma> (Suc j))"
    and "P (\<sigma> i)"
  shows "\<exists>j \<ge> i. Q (\<sigma> j)"
proof (rule ccontr)
  assume never: "\<not> (\<exists>j \<ge> i. Q (\<sigma> j))"
  have P: "P (\<sigma> j)" if "i \<le> j" for j
    by (rule run_stable [OF assms(1), where P = P, OF _ assms(6) that]) (use keeps never in \<open>metis le_SucI\<close>)
  then have "\<forall>j \<ge> i. enabled (\<sigma> j)" using enabled by blast
  then obtain j where "i \<le> j" "helps (\<sigma> j) (\<sigma> (Suc j))" using assms(2) unfolding weakly_fair_def by blast
  then show False using helps [OF P] never le_SucI by blast
qed

locale simulation =
  fixes cinit :: "'c \<Rightarrow> bool" and cstep :: "'c \<Rightarrow> 'c \<Rightarrow> bool"
    and ainit :: "'a \<Rightarrow> bool" and astep :: "'a \<Rightarrow> 'a \<Rightarrow> bool" and view :: "'c \<Rightarrow> 'a"
  assumes init_view: "cinit s \<Longrightarrow> ainit (view s)"
    and step_view: "cstep s t \<Longrightarrow> view t = view s \<or> astep (view s) (view t)"
begin

lemma reach_view: "reach cinit cstep s \<Longrightarrow> reach ainit astep (view s)"
proof (induction rule: reach.induct)
  case (next_step s t)
  then show ?case using step_view [OF next_step.hyps(2)] by (metis reach.next_step)
qed (auto intro: reach.start init_view)

text \<open>The view of a run is a run.\<close>

lemma run_view: "run cstep \<sigma> \<Longrightarrow> run astep (\<lambda>i. view (\<sigma> i))"
  unfolding run_def using step_view by metis

text \<open>Invariants of the abstract system are invariants of the detailed one.\<close>

lemma inherits:
  assumes "reach cinit cstep s" and "\<And>a. ainit a \<Longrightarrow> P a" and "\<And>a b. P a \<Longrightarrow> astep a b \<Longrightarrow> P b"
  shows "P (view s)"
  using reach_view [OF assms(1)] by (rule reach_invariant) (auto intro: assms(2,3))

end

end
