(* ===== verification/Watch.thy ===== *)
theory Watch
  imports Frs Simulation
begin

text \<open>
  internal/handlers/wizard.go: the watch map, which remembers the sessions the wizard created, its
  background sweeper, and the watcher started for each created session. The goroutines interleave
  as steps of a transition system over the map and the watchers still running.
\<close>

section \<open>The watch map\<close>

record watch_state =
  ws_state :: string
  ws_view :: frs_view
  ws_err :: "wait_error option"
  ws_done :: bool
  ws_createdAt :: gotime

type_synonym watch_map = "(frs_ref, watch_state) gomap"

definition watch_get :: "frs_ref \<Rightarrow> watch_map \<Rightarrow> watch_state option" where
  "watch_get ref m = map_of m ref"

definition watch_set :: "frs_ref \<Rightarrow> watch_state \<Rightarrow> gotime \<Rightarrow> watch_map \<Rightarrow> watch_map" where
  "watch_set ref s now m =
     AList.update ref (if ws_createdAt s = 0 then s\<lparr>ws_createdAt := now\<rparr> else s) m"

definition watch_del :: "frs_ref \<Rightarrow> watch_map \<Rightarrow> watch_map" where
  "watch_del ref m = AList.delete ref m"

definition stale :: "duration \<Rightarrow> gotime \<Rightarrow> frs_ref \<times> watch_state \<Rightarrow> bool" where
  "stale maxAge now = (\<lambda>(ref, st). time_sub now (ws_createdAt st) > maxAge)"

text \<open>\<open>sweep\<close>: the map it leaves and the number of entries evicted.\<close>

definition watch_sweep :: "duration \<Rightarrow> gotime \<Rightarrow> watch_map \<Rightarrow> watch_map \<times> nat" where
  "watch_sweep maxAge now m =
     (filter (\<lambda>e. \<not> stale maxAge now e) m, length (filter (stale maxAge now) m))"

text \<open>\<open>startSweeper\<close>: the interval and age it clamps to, and its loop over the ticks until \<open>ctx\<close> is done.\<close>

definition sweeper_interval :: "duration \<Rightarrow> duration" where
  "sweeper_interval interval = (if interval < Minute then Minute else interval)"

definition sweeper_maxAge :: "duration \<Rightarrow> duration" where
  "sweeper_maxAge maxAge = (if maxAge < Minute then Hour else maxAge)"

definition startSweeper :: "duration \<Rightarrow> gotime list \<Rightarrow> watch_map \<Rightarrow> watch_map" where
  "startSweeper maxAge ticks m = fold (\<lambda>now m. fst (watch_sweep (sweeper_maxAge maxAge) now m)) ticks m"

section \<open>Watchers\<close>

definition watch_timeout :: "duration \<Rightarrow> duration" where
  "watch_timeout frsTimeout = (if frsTimeout = 0 then 120 * Second else frsTimeout)"

text \<open>The entry a watcher writes when its wait ends with \<open>(v, err)\<close>.\<close>

definition watch_outcome :: "frs_view \<times> wait_error option \<Rightarrow> watch_state" where
  "watch_outcome r =
     (case r of (v, err) \<Rightarrow>
        (case err of
           Some e \<Rightarrow> \<lparr>ws_state = (if v_state v = ''Failed'' then ''Failed'' else ''Timeout''),
                      ws_view = v, ws_err = Some e, ws_done = True, ws_createdAt = 0\<rparr>
         | None \<Rightarrow> \<lparr>ws_state = ''Ready'', ws_view = v, ws_err = None, ws_done = True, ws_createdAt = 0\<rparr>))"

definition pending_state :: "frs_view \<Rightarrow> watch_state" where
  "pending_state v = \<lparr>ws_state = ''Pending'', ws_view = v, ws_err = None, ws_done = False, ws_createdAt = 0\<rparr>"

text \<open>\<open>watchFRSCreated\<close>: the wait for the effective timeout, then the entry; \<open>wait\<close> is WaitForReady.\<close>

definition watchFRSCreatedWithTimeout ::
  "(frs_ref \<Rightarrow> duration \<Rightarrow> frs_view \<times> wait_error option) \<Rightarrow> frs_ref \<Rightarrow> duration \<Rightarrow> gotime \<Rightarrow> watch_map \<Rightarrow> watch_map" where
  "watchFRSCreatedWithTimeout wait ref timeout now m = watch_set ref (watch_outcome (wait ref timeout)) now m"

definition watchFRSCreated ::
  "(frs_ref \<Rightarrow> duration \<Rightarrow> frs_view \<times> wait_error option) \<Rightarrow> duration \<Rightarrow> frs_ref \<Rightarrow> gotime \<Rightarrow> watch_map \<Rightarrow> watch_map" where
  "watchFRSCreated wait frsTimeout ref now m =
     watchFRSCreatedWithTimeout wait ref (watch_timeout frsTimeout) now m"

section \<open>Interleavings\<close>

text \<open>The map and the watchers still waiting.\<close>

record wizard_state =
  wz_watches :: watch_map
  wz_running :: "frs_ref multiset"

definition wizard_init :: wizard_state where
  "wizard_init = \<lparr>wz_watches = [], wz_running = {#}\<rparr>"

inductive wizard_step :: "wizard_state \<Rightarrow> wizard_state \<Rightarrow> bool" where
  created:
    "wizard_step s \<lparr>wz_watches = watch_set (v_ref v) (pending_state v) now (wz_watches s),
                    wz_running = add_mset (v_ref v) (wz_running s)\<rparr>"
| finished:
    "ref \<in># wz_running s \<Longrightarrow>
     wizard_step s \<lparr>wz_watches = watchFRSCreated (\<lambda>_ _. r) frsTimeout ref now (wz_watches s),
                    wz_running = wz_running s - {#ref#}\<rparr>"
| deleted:
    "wizard_step s (s\<lparr>wz_watches := watch_del ref (wz_watches s)\<rparr>)"
| swept:
    "wizard_step s (s\<lparr>wz_watches := fst (watch_sweep maxAge now (wz_watches s))\<rparr>)"

abbreviation reachable :: "wizard_state \<Rightarrow> bool" where
  "reachable \<equiv> reach (\<lambda>s. s = wizard_init) wizard_step"

lemma reachable_init: "reachable wizard_init"
  by (rule reach.start) (rule refl)

text \<open>What an entry says: pending without an error, or done in one of the three terminal states.\<close>

definition entry_ok :: "watch_state \<Rightarrow> bool" where
  "entry_ok s \<longleftrightarrow>
     (if ws_done s
      then ws_state s = ''Ready'' \<and> ws_err s = None \<or>
           (ws_state s = ''Failed'' \<longleftrightarrow> v_state (ws_view s) = ''Failed'') \<and>
           ws_state s \<in> {''Failed'', ''Timeout''} \<and> ws_err s \<noteq> None
      else ws_state s = ''Pending'' \<and> ws_err s = None)"

definition wizard_inv :: "wizard_state \<Rightarrow> bool" where
  "wizard_inv s \<longleftrightarrow>
     wf_map (wz_watches s) \<and>
     (\<forall>ref w. watch_get ref (wz_watches s) = Some w \<longrightarrow>
        entry_ok w \<and> (\<not> ws_done w \<longrightarrow> ref \<in># wz_running s))"

lemma watch_get_set [find_simps]:
  "watch_get ref' (watch_set ref s now m) =
     (if ref' = ref then Some (if ws_createdAt s = 0 then s\<lparr>ws_createdAt := now\<rparr> else s) else watch_get ref' m)"
  by (simp add: watch_get_def watch_set_def find_simps)

lemma watch_get_del [find_simps]: "watch_get ref' (watch_del ref m) = (if ref' = ref then None else watch_get ref' m)"
  by (simp add: watch_get_def watch_del_def find_simps)

lemma watch_get_sweep [find_simps]:
  "wf_map m \<Longrightarrow> watch_get ref (fst (watch_sweep age now m)) =
     (case watch_get ref m of None \<Rightarrow> None
      | Some w \<Rightarrow> if time_sub now (ws_createdAt w) > age then None else Some w)"
  by (auto simp: watch_get_def watch_sweep_def find_simps stale_def split: option.splits)

lemma watch_wf [wf_rules]:
  "wf_map m \<Longrightarrow> wf_map (watch_set ref s now m)"
  "wf_map m \<Longrightarrow> wf_map (watch_del ref m)"
  "wf_map m \<Longrightarrow> wf_map (fst (watch_sweep age now m))"
  by (simp_all add: watch_set_def watch_del_def watch_sweep_def wf_rules)

lemma outcome_ok: "entry_ok (watch_outcome r)" "ws_done (watch_outcome r)"
  "entry_ok (watch_outcome r\<lparr>ws_createdAt := t\<rparr>)"
  by (auto simp: watch_outcome_def entry_ok_def split: prod.splits option.splits)

lemma pending_ok: "entry_ok (pending_state v)" "entry_ok (pending_state v\<lparr>ws_createdAt := t\<rparr>)"
  by (simp_all add: pending_state_def entry_ok_def)

lemma wizard_step_inv: "wizard_step s t \<Longrightarrow> wizard_inv s \<Longrightarrow> wizard_inv t"
proof (induction rule: wizard_step.induct)
  case (created s v now)
  then show ?case by (auto simp: wizard_inv_def find_simps wf_rules pending_ok)
next
  case (finished ref s r frsTimeout now)
  then show ?case
    by (auto simp: wizard_inv_def watchFRSCreated_def watchFRSCreatedWithTimeout_def find_simps wf_rules
        outcome_ok split: if_splits dest: in_diffD) (metis add_mset_add_single insert_DiffM insert_noteq_member)
next
  case (deleted s ref)
  then show ?case by (auto simp: wizard_inv_def find_simps wf_rules split: if_splits)
next
  case (swept s maxAge now)
  then show ?case
    by (auto simp: wizard_inv_def find_simps wf_rules split: option.splits if_splits)
qed

lemma reachable_inv: "reachable s \<Longrightarrow> wizard_inv s"
  by (induction rule: reach_invariant) (simp add: wizard_init_def wizard_inv_def watch_get_def, rule wizard_step_inv)

section \<open>The watch map as an expiring store\<close>

interpretation watches: expiring_store
  "\<lambda>m ref. watch_get ref m" "\<lambda>ref s. watch_set ref s (ws_createdAt s)" watch_del
  "\<lambda>now m. fst (watch_sweep (sweeper_maxAge maxAge) now m)" ws_createdAt "sweeper_maxAge maxAge" wf_map for maxAge
  by unfold_locales (auto simp: wf_rules find_simps split: option.splits)

lemma watch_set_stamped:
  "watch_set ref s now m =
     watch_set ref (if ws_createdAt s = 0 then s\<lparr>ws_createdAt := now\<rparr> else s)
       (ws_createdAt (if ws_createdAt s = 0 then s\<lparr>ws_createdAt := now\<rparr> else s)) m"
  by (simp add: watch_set_def)

section \<open>Properties\<close>

text \<open>
  C19: in every interleaving of creations, watchers, deletions and sweeps, an entry of the watch map
  is either pending, without error and with its watcher still running, or done: Ready without an
  error, or Failed or Timeout with one, Failed exactly when the last view's state is.
\<close>

theorem watch_entries_ok:
  assumes "reachable s" and "watch_get ref (wz_watches s) = Some w"
  shows "if ws_done w
    then ws_state w = ''Ready'' \<and> ws_err w = None \<or>
         (ws_state w = ''Failed'' \<longleftrightarrow> v_state (ws_view w) = ''Failed'') \<and>
         ws_state w \<in> {''Failed'', ''Timeout''} \<and> ws_err w \<noteq> None
    else ws_state w = ''Pending'' \<and> ws_err w = None \<and> ref \<in># wz_running s"
proof -
  have "entry_ok w \<and> (\<not> ws_done w \<longrightarrow> ref \<in># wz_running s)"
    using reachable_inv [OF assms(1)] assms(2) unfolding wizard_inv_def by blast
  then show ?thesis unfolding entry_ok_def by (cases "ws_done w") (simp_all only: if_True if_False simp_thms conj_assoc)
qed

lemma demo_created:
  "reachable \<lparr>wz_watches = watch_set (v_ref empty_view) (pending_state empty_view) 5 [], wz_running = {#v_ref empty_view#}\<rparr>"
  using reach.next_step [OF reachable_init wizard_step.created [of wizard_init empty_view 5]]
  by (simp add: wizard_init_def)

theorem watch_entries_ok_witness:
  "ws_state (pending_state empty_view\<lparr>ws_createdAt := 5\<rparr>) = ''Pending'' \<and>
   ws_err (pending_state empty_view\<lparr>ws_createdAt := 5\<rparr>) = None"
proof -
  let ?s = "\<lparr>wz_watches = watch_set (v_ref empty_view) (pending_state empty_view) 5 [], wz_running = {#v_ref empty_view#}\<rparr>"
  have g: "watch_get (v_ref empty_view) (wz_watches ?s) = Some (pending_state empty_view\<lparr>ws_createdAt := 5\<rparr>)"
    by (simp add: watch_get_set pending_state_def)
  have d: "ws_done (pending_state empty_view\<lparr>ws_createdAt := 5\<rparr>) = False" by (simp add: pending_state_def)
  show ?thesis using watch_entries_ok [OF demo_created g] unfolding d if_False by blast
qed

text \<open>
  The sweeper keeps an entry for the configured age (an hour when the configured age is under a
  minute) after it was set, whatever the ticks, and at the first tick later than that it is gone; no
  entry is evicted before a minute.
\<close>

lemma sweeper_evicts_exactly:
  assumes "wf_map m" and "sorted (ticks @ [t])" and "set_at \<noteq> 0" and "ws_createdAt w = 0"
  shows "watch_get ref (startSweeper maxAge (ticks @ [t]) (watch_set ref w set_at m)) =
      (if time_sub t set_at > sweeper_maxAge maxAge then None else Some (w\<lparr>ws_createdAt := set_at\<rparr>)) \<and>
    sweeper_maxAge maxAge \<ge> Minute"
proof -
  have "watch_get ref (startSweeper maxAge (ticks @ [t]) (watch_set ref w set_at m)) =
      watch_get ref (fst (watch_sweep (sweeper_maxAge maxAge) t (watch_set ref w set_at m)))"
    unfolding startSweeper_def by (rule watches.evicts_last) (use assms(1,2) watch_wf in auto)
  then show ?thesis using assms by (simp add: find_simps wf_rules sweeper_maxAge_def)
qed

lemma sweeper_evicts_exactly_witness:
  "watch_get (v_ref empty_view) (startSweeper Hour ([5 * Minute] @ [30 * Minute])
     (watch_set (v_ref empty_view) (pending_state empty_view) 1 [])) = Some (pending_state empty_view\<lparr>ws_createdAt := 1\<rparr>)"
  using sweeper_evicts_exactly [of "[]" "[5 * Minute]" "30 * Minute" 1 "pending_state empty_view" "v_ref empty_view" Hour]
  by (simp add: pending_state_def sweeper_maxAge_def time_sub_def max_i64_def min_i64_def)

end
