(* ===== verification/PathView.thy ===== *)
theory PathView
  imports SftpClient Http Frs
begin

text \<open>
  The pure helpers of internal/handlers/handlers.go: sizes and paths for the templates, the rows of
  the file list, the Content-Disposition header and the parsing of a request's session reference.
\<close>

section \<open>Sizes\<close>

text \<open>\<open>float64(n)\<close> for an int64: 53 significant bits, ties to even.\<close>

definition round_even :: "int \<Rightarrow> int \<Rightarrow> int" where
  "round_even a b =
     (let q = a div b; r = a mod b in
      if 2 * r < b then q else if 2 * r > b then q + 1 else if even q then q else q + 1)"

definition two53 :: int where
  "two53 = 9007199254740992"

fun f64_ulp :: "nat \<Rightarrow> int \<Rightarrow> int \<Rightarrow> int" where
  "f64_ulp 0 n ulp = ulp"
| "f64_ulp (Suc k) n ulp = (if n < two53 * ulp then ulp else f64_ulp k n (2 * ulp))"

definition float64 :: "int \<Rightarrow> int" where
  "float64 n = (let ulp = f64_ulp 11 n 1 in round_even n ulp * ulp)"

text \<open>The loop: \<open>k\<close> iterations are left before \<open>exp\<close> reaches 5.\<close>

fun size_unit :: "nat \<Rightarrow> int \<Rightarrow> int \<Rightarrow> nat \<Rightarrow> int \<times> nat" where
  "size_unit 0 n d e = (d, e)"
| "size_unit (Suc k) n d e = (if n div d \<ge> 1024 then size_unit k n (d * 1024) (Suc e) else (d, e))"

definition size_units :: "string list" where
  "size_units = [''KiB'', ''MiB'', ''GiB'', ''TiB'', ''PiB'', ''EiB'']"

definition humanSize :: "int \<Rightarrow> string" where
  "humanSize n0 =
     (let n = (if n0 < 0 then 0 else n0) in
      if n < 1024 then int_str n @ '' B''
      else (case size_unit 5 n 1024 0 of
              (d, e) \<Rightarrow> (let t = round_even (10 * float64 n) d
                        in int_str (t div 10) @ ''.'' @ int_str (t mod 10) @ '' '' @ size_units ! e)))"

lemma humanSize_examples:
  "humanSize 0 = ''0 B''" "humanSize (-5) = ''0 B''" "humanSize 1536 = ''1.5 KiB''"
  "humanSize 1048575 = ''1024.0 KiB''" "humanSize 1048576 = ''1.0 MiB''" "humanSize max_i64 = ''8.0 EiB''"
  by code_simp+

section \<open>Paths\<close>

definition splitPath :: "string \<Rightarrow> string list" where
  "splitPath p0 = (let p = trim_both slash p0 in if p = [] then [] else split_on slash p)"

definition isLastPathSeg :: "int \<Rightarrow> int \<Rightarrow> bool" where
  "isLastPathSeg i n \<longleftrightarrow> i = n - 1"

definition buildPath :: "string \<Rightarrow> int \<Rightarrow> string" where
  "buildPath p upTo0 =
     (let segs = splitPath p;
          upTo = (if upTo0 < 0 then 0 else upTo0);
          upTo' = (if upTo > int (length segs) then int (length segs) else upTo)
      in ''/'' @ join_with ''/'' (take (nat upTo') segs))"

definition parentPath :: "string \<Rightarrow> string" where
  "parentPath p0 =
     (if p0 = ''/'' \<or> p0 = [] then ''/''
      else (let p = trim_right slash p0; i = last_index slash p in if i \<le> 0 then ''/'' else take (nat i) p))"

definition joinPath :: "string \<Rightarrow> string \<Rightarrow> string" where
  "joinPath parent leaf =
     (if parent = [] \<or> parent = ''/'' then ''/'' @ leaf
      else if has_suffix parent ''/'' then parent @ leaf
      else parent @ ''/'' @ leaf)"

definition baseName :: "string \<Rightarrow> string" where
  "baseName p = (let i = last_index slash p in if i < 0 then p else drop (nat i + 1) p)"

section \<open>Rows of the file list\<close>

definition resolvedPathOf :: "entry \<Rightarrow> string" where
  "resolvedPathOf fi = entry_resolved fi"

record browse_entry =
  be_name :: string
  be_isDir :: bool
  be_size :: int
  be_modTime :: gotime
  be_clickPath :: string
  be_isSymlink :: bool
  be_originalName :: string

definition newBrowseEntry :: "entry \<Rightarrow> string \<Rightarrow> browse_entry" where
  "newBrowseEntry fi parent =
     (let name = entry_name fi;
          click = joinPath parent name;
          rp = resolvedPathOf fi;
          click' = (if rp \<noteq> [] then rp else click)
      in \<lparr>be_name = name, be_isDir = entry_is_dir fi, be_size = fi_size (entry_info fi),
          be_modTime = fi_modtime (entry_info fi), be_clickPath = click',
          be_isSymlink = (and (entry_mode fi) ModeSymlink \<noteq> 0), be_originalName = name\<rparr>)"

section \<open>Headers\<close>

text \<open>The width of the first rune of a non-empty string in UTF-8; an invalid byte is one rune.\<close>

definition byte_in :: "nat \<Rightarrow> nat \<Rightarrow> string \<Rightarrow> nat \<Rightarrow> bool" where
  "byte_in lo hi s i \<longleftrightarrow> i < length s \<and> lo \<le> (of_char (s ! i) :: nat) \<and> (of_char (s ! i) :: nat) \<le> hi"

definition rune_width :: "string \<Rightarrow> nat" where
  "rune_width s =
     (if byte_in 0xC2 0xDF s 0 \<and> byte_in 0x80 0xBF s 1 then 2
      else if (byte_in 0xE0 0xE0 s 0 \<and> byte_in 0xA0 0xBF s 1 \<or>
               byte_in 0xED 0xED s 0 \<and> byte_in 0x80 0x9F s 1 \<or>
               byte_in 0xE1 0xEF s 0 \<and> \<not> byte_in 0xED 0xED s 0 \<and> byte_in 0x80 0xBF s 1) \<and>
              byte_in 0x80 0xBF s 2 then 3
      else if (byte_in 0xF0 0xF0 s 0 \<and> byte_in 0x90 0xBF s 1 \<or>
               byte_in 0xF4 0xF4 s 0 \<and> byte_in 0x80 0x8F s 1 \<or>
               byte_in 0xF1 0xF3 s 0 \<and> byte_in 0x80 0xBF s 1) \<and>
              byte_in 0x80 0xBF s 2 \<and> byte_in 0x80 0xBF s 3 then 4
      else 1)"

lemma rune_width_pos: "0 < rune_width s"
  by (simp add: rune_width_def)

definition unsafe_rune :: "nat \<Rightarrow> bool" where
  "unsafe_rune n \<longleftrightarrow> n < 0x20 \<or> n = 0x7F \<or> n = 0x22 \<or> n = 0x5C \<or> n > 0x7E"

text \<open>The loop over the runes of the name: a rune outside the safe set becomes an underscore.\<close>

function ascii_fallback :: "string \<Rightarrow> string" where
  "ascii_fallback s =
     (if s = [] then []
      else if unsafe_rune (of_char (hd s)) then CHR ''_'' # ascii_fallback (drop (rune_width s) s)
      else hd s # ascii_fallback (drop 1 s))"
  by pat_completeness auto

termination
  by (relation "measure length") (use rune_width_pos in \<open>auto simp: diff_less\<close>)

declare ascii_fallback.simps [simp del]

definition contentDispositionFilename :: "string \<Rightarrow> string" where
  "contentDispositionFilename name =
     (let a = ascii_fallback name; ascii = (if a = [] then ''download'' else a)
      in ''attachment; filename='' @ [CHR 0x22] @ ascii @ [CHR 0x22] @ ''; filename*=UTF-8'' @
         [CHR 0x27, CHR 0x27] @ path_escape name)"

definition sanitizeArchiveName :: "frs_ref \<Rightarrow> string \<Rightarrow> bool \<Rightarrow> string" where
  "sanitizeArchiveName ref p isDir =
     (let clean = replace_all slash (CHR ''-'') (trim_both slash p) in
      if clean = [] then ref_ns ref @ ''-'' @ ref_name ref @ ''.tar.gz''
      else if \<not> has_suffix clean ''.tar.gz'' then clean @ ''.tar.gz'' else clean)"

section \<open>Requests\<close>

definition parseFRSQuery :: "request \<Rightarrow> (frs_ref \<times> string) option" where
  "parseFRSQuery r =
     (case splitn_on 2 slash (QueryGet r ''frs'') of
        [ns, name] \<Rightarrow> Some (\<lparr>ref_ns = ns, ref_name = name\<rparr>, QueryGet r ''path'')
      | _ \<Rightarrow> None)"

definition userIDFromCookie :: "request \<Rightarrow> string \<Rightarrow> string" where
  "userIDFromCookie r name = (case Cookie r name of None \<Rightarrow> [] | Some c \<Rightarrow> c)"

section \<open>Path lemmas\<close>

text \<open>Segments of a path as the templates meet them: not empty, without a slash.\<close>

definition seg_ok :: "string \<Rightarrow> bool" where
  "seg_ok s \<longleftrightarrow> s \<noteq> [] \<and> slash \<notin> set s"

lemma seg_ok_ends: "seg_ok s \<Longrightarrow> s \<noteq> [] \<and> slash \<notin> set s \<and> hd s \<noteq> slash \<and> last s \<noteq> slash"
  using hd_in_set last_in_set by (metis seg_ok_def)

lemma join_segs_ends:
  assumes "segs \<noteq> []" "\<forall>s \<in> set segs. seg_ok s"
  shows "join_with ''/'' segs \<noteq> [] \<and> hd (join_with ''/'' segs) \<noteq> slash \<and> last (join_with ''/'' segs) \<noteq> slash"
  using assms
proof (induction segs rule: induct_list012)
  case (2 x)
  then show ?case using seg_ok_ends [of x] by simp
next
  case (3 x y zs)
  have x: "x \<noteq> []" "hd x \<noteq> slash" using 3(4) seg_ok_ends [of x] by auto
  have "join_with ''/'' (y # zs) \<noteq> [] \<and> last (join_with ''/'' (y # zs)) \<noteq> slash" using 3 by auto
  then show ?case using x by simp
qed simp

lemma splitPath_segs:
  assumes "\<forall>s \<in> set segs. seg_ok s"
  shows "splitPath (abs_path segs) = segs"
proof (cases "segs = []")
  case False
  note e = join_segs_ends [OF False assms]
  have "trim_left slash (abs_path segs) = join_with ''/'' segs"
    using trim_left_idem [of "join_with ''/'' segs" slash] e by (simp add: trim_left_def)
  then have "trim_both slash (abs_path segs) = join_with ''/'' segs"
    using e by (simp add: trim_both_def trim_right_idem)
  moreover have "split_on slash (join_with ''/'' segs) = segs"
    using assms False by (intro split_join_with) (auto simp: seg_ok_def)
  ultimately show ?thesis using e by (simp add: splitPath_def)
qed (simp add: splitPath_def trim_both_def trim_left_def trim_right_def)

lemma buildPath_segs:
  assumes "\<forall>s \<in> set segs. seg_ok s"
  shows "buildPath (abs_path segs) (int i) = abs_path (take i segs)"
  unfolding buildPath_def splitPath_segs [OF assms] by (simp add: Let_def)

lemma joinPath_segs:
  assumes "\<forall>s \<in> set segs. seg_ok s"
  shows "joinPath (abs_path segs) leaf = abs_path (segs @ [leaf])"
proof (cases "segs = []")
  case False
  note e = join_segs_ends [OF False assms]
  have "\<not> has_suffix (abs_path segs) ''/''" using e by (simp add: has_suffix_single)
  then show ?thesis using e False by (simp add: joinPath_def join_with_append)
qed (simp add: joinPath_def)

lemma parentPath_segs:
  assumes "\<forall>s \<in> set segs. seg_ok s" "seg_ok leaf"
  shows "parentPath (abs_path (segs @ [leaf])) = abs_path segs"
proof -
  let ?p = "abs_path (segs @ [leaf])"
  have leaf: "leaf \<noteq> []" "slash \<notin> set leaf" "last leaf \<noteq> slash" using seg_ok_ends [OF assms(2)] by auto
  have ends: "last ?p \<noteq> slash" "?p \<noteq> ''/''"
    using join_segs_ends [of "segs @ [leaf]"] assms by auto
  then have t: "trim_right slash ?p = ?p" by (simp add: trim_right_idem)
  have shape: "?p = (if segs = [] then [] else abs_path segs) @ slash # leaf"
    by (simp add: join_with_append)
  have "last_index slash ?p = int (length (if segs = [] then [] else abs_path segs))"
    unfolding shape using leaf(2) by (rule last_index_append)
  then show ?thesis
    using ends t shape by (auto simp: parentPath_def Let_def)
qed

lemma baseName_segs: "slash \<notin> set leaf \<Longrightarrow> baseName (abs_path (segs @ [leaf])) = leaf"
proof -
  assume leaf: "slash \<notin> set leaf"
  have shape: "abs_path (segs @ [leaf]) = (if segs = [] then [] else abs_path segs) @ slash # leaf"
    by (simp add: join_with_append)
  show ?thesis unfolding shape baseName_def last_index_append [OF leaf] by (simp add: Let_def)
qed

section \<open>Header lemmas\<close>

lemma header_safe_iff: "header_safe c \<longleftrightarrow> \<not> unsafe_rune (of_char c)"
proof -
  have "(of_char c :: nat) = 0x22 \<longleftrightarrow> c = CHR 0x22" "(of_char c :: nat) = 0x5C \<longleftrightarrow> c = CHR 0x5C"
    using of_char_eq_iff [of c "CHR 0x22", where 'a = nat] of_char_eq_iff [of c "CHR 0x5C", where 'a = nat] by simp_all
  then show ?thesis unfolding header_safe_def unsafe_rune_def by linarith
qed

lemma ascii_fallback_safe: "\<forall>c \<in> set (ascii_fallback s). header_safe c"
proof (induction s rule: ascii_fallback.induct)
  case (1 s)
  have u: "header_safe (CHR ''_'')" by (simp add: header_safe_def)
  show ?case
    using 1 u by (subst ascii_fallback.simps) (auto simp: header_safe_iff [of "hd s"])
qed

lemma ascii_fallback_id: "\<forall>c \<in> set s. header_safe c \<Longrightarrow> ascii_fallback s = s"
  by (induction s) (simp_all add: ascii_fallback.simps header_safe_iff)

section \<open>Properties\<close>

text \<open>
  The path helpers of the pages agree with each other on every absolute path: splitting gives
  its segments, joining an entry's name appends a segment, the parent removes it and the base name
  returns it; the crumb built for index \<open>i\<close> leads through the first \<open>i\<close> segments.
\<close>

lemma path_navigation:
  assumes "\<forall>s \<in> set segs. s \<noteq> [] \<and> slash \<notin> set s" "leaf \<noteq> []" "slash \<notin> set leaf"
  shows "splitPath (abs_path segs) = segs \<and>
    joinPath (abs_path segs) leaf = abs_path (segs @ [leaf]) \<and>
    parentPath (joinPath (abs_path segs) leaf) = abs_path segs \<and>
    baseName (joinPath (abs_path segs) leaf) = leaf \<and>
    (\<forall>i. buildPath (joinPath (abs_path segs) leaf) (int i) = abs_path (take i (segs @ [leaf])))"
proof -
  have s: "\<forall>x \<in> set segs. seg_ok x" "seg_ok leaf" using assms by (simp_all add: seg_ok_def)
  then have all: "\<forall>x \<in> set (segs @ [leaf]). seg_ok x" by simp
  show ?thesis
    unfolding joinPath_segs [OF s(1)]
    using splitPath_segs [OF s(1)] parentPath_segs [OF s] baseName_segs [OF assms(3)] buildPath_segs [OF all] by blast
qed

lemma path_navigation_witness:
  "buildPath (joinPath (abs_path [''C'', ''Users'']) ''me'') (int 1) = abs_path (take 1 ([''C'', ''Users''] @ [''me''])) \<and>
   parentPath (joinPath (abs_path [''C'', ''Users'']) ''me'') = abs_path [''C'', ''Users'']"
proof -
  have h: "\<forall>s \<in> set [''C'', ''Users'']. s \<noteq> [] \<and> slash \<notin> set s" "''me'' \<noteq> []" "slash \<notin> set ''me''" by simp_all
  show ?thesis using path_navigation [OF h] by blast
qed

text \<open>
  A download's Content-Disposition cannot be broken out of by any file name: the quoted fallback
  is not empty and holds no quote, backslash, control or non-ASCII byte, being the name itself when
  that is so; the extended form holds none either, and decodes to the exact name.
\<close>

lemma content_disposition_safe:
  "\<exists>fallback. contentDispositionFilename name =
      ''attachment; filename='' @ [CHR 0x22] @ fallback @ [CHR 0x22] @ ''; filename*=UTF-8'' @
      [CHR 0x27, CHR 0x27] @ path_escape name \<and>
    fallback \<noteq> [] \<and> (\<forall>c \<in> set fallback. header_safe c) \<and>
    (name \<noteq> [] \<and> (\<forall>c \<in> set name. header_safe c) \<longrightarrow> fallback = name) \<and>
    (\<forall>c \<in> set (path_escape name). header_safe c) \<and> percent_decode (path_escape name) = name"
proof -
  let ?a = "ascii_fallback name"
  let ?f = "if ?a = [] then ''download'' else ?a"
  have "\<forall>c \<in> set ''download''. header_safe c" by (simp add: header_safe_def)
  then have "?f \<noteq> [] \<and> (\<forall>c \<in> set ?f. header_safe c) \<and> (name \<noteq> [] \<and> (\<forall>c \<in> set name. header_safe c) \<longrightarrow> ?f = name)"
    using ascii_fallback_safe [of name] ascii_fallback_id [of name] by simp
  moreover have "contentDispositionFilename name = ''attachment; filename='' @ [CHR 0x22] @ ?f @ [CHR 0x22] @
      ''; filename*=UTF-8'' @ [CHR 0x27, CHR 0x27] @ path_escape name"
    by (simp only: contentDispositionFilename_def Let_def)
  ultimately show ?thesis using path_escape_safe percent_decode_path_escape by blast
qed

lemma content_disposition_safe_witness:
  "\<exists>fallback. contentDispositionFilename ''report.pdf'' =
     ''attachment; filename='' @ [CHR 0x22] @ fallback @ [CHR 0x22] @ ''; filename*=UTF-8'' @
     [CHR 0x27, CHR 0x27] @ path_escape ''report.pdf'' \<and> fallback = ''report.pdf''"
proof -
  have "''report.pdf'' \<noteq> [] \<and> (\<forall>c \<in> set ''report.pdf''. header_safe c)" by (simp add: header_safe_def)
  then show ?thesis using content_disposition_safe [of "''report.pdf''"] by blast
qed

end
