(* ===== verification/ZipWalk.thy ===== *)
theory ZipWalk
  imports PathView
begin

unbundle bit_operations_syntax

text \<open>
  The archive download of internal/handlers/handlers.go: the walk that writes a file or a directory
  tree into a tar stream. The stream is the list of the entries written and the bytes the current
  entry still lacks; a write to the client does not fail. The recursion takes fuel, since nothing in
  the code bounds it.
\<close>

section \<open>The tar writer\<close>

definition ModeDevice :: filemode where "ModeDevice = push_bit 26 1"
definition ModeNamedPipe :: filemode where "ModeNamedPipe = push_bit 25 1"
definition ModeSocket :: filemode where "ModeSocket = push_bit 24 1"
definition ModeCharDevice :: filemode where "ModeCharDevice = push_bit 21 1"
definition ModeIrregular :: filemode where "ModeIrregular = push_bit 19 1"

definition ModeType :: filemode where
  "ModeType = ModeDir OR ModeSymlink OR ModeNamedPipe OR ModeSocket OR ModeDevice OR ModeCharDevice OR ModeIrregular"

text \<open>The size \<open>tar.FileInfoHeader\<close> gives an entry; \<open>None\<close> for a mode it has no type for.\<close>

definition FileInfoHeader :: "finfo \<Rightarrow> int option" where
  "FileInfoHeader fi =
     (if fi_mode fi AND ModeType = 0 then Some (fi_size fi)
      else if fi_mode fi AND ModeDir \<noteq> 0 \<or> fi_mode fi AND ModeSymlink \<noteq> 0 \<or> fi_mode fi AND ModeDevice \<noteq> 0 \<or>
              fi_mode fi AND ModeNamedPipe \<noteq> 0 then Some 0
      else None)"

record tar_entry =
  te_name :: string
  te_info :: finfo
  te_content :: string

record tar_writer =
  tar_entries :: "tar_entry list"
  tar_left :: int

datatype zip_error =
    EscapeRefused string
  | StatFailed sftp_error
  | HeaderFailed
  | MissedWriting int
  | OpenFailed sftp_error
  | WriteTooLong
  | ListFailed sftp_error

text \<open>\<open>WriteHeader\<close>, and the copy of a file's content into the current entry.\<close>

definition WriteHeader :: "string \<Rightarrow> finfo \<Rightarrow> int \<Rightarrow> tar_writer \<Rightarrow> (zip_error, tar_writer) result" where
  "WriteHeader name fi sz tw =
     (if tar_left tw > 0 then Inl (MissedWriting (tar_left tw))
      else Inr \<lparr>tar_entries = tar_entries tw @ [\<lparr>te_name = name, te_info = fi, te_content = []\<rparr>], tar_left = sz\<rparr>)"

definition set_last_content :: "string \<Rightarrow> tar_entry list \<Rightarrow> tar_entry list" where
  "set_last_content c es = (if es = [] then [] else butlast es @ [(last es)\<lparr>te_content := c\<rparr>])"

definition CopyContent :: "string \<Rightarrow> tar_writer \<Rightarrow> zip_error option \<times> tar_writer" where
  "CopyContent c tw =
     (if int (length c) > tar_left tw
      then (Some WriteTooLong,
            \<lparr>tar_entries = set_last_content (take (nat (tar_left tw)) c) (tar_entries tw), tar_left = 0\<rparr>)
      else (None, \<lparr>tar_entries = set_last_content c (tar_entries tw), tar_left = tar_left tw - int (length c)\<rparr>))"

section \<open>The walk\<close>

text \<open>The name of an entry inside the archive.\<close>

definition archive_name :: "string \<Rightarrow> bool \<Rightarrow> string" where
  "archive_name clean isDir =
     (if clean = ''/'' then ''.'' else if isDir then trim_suffix clean ''/'' @ ''/'' else clean)"

definition zip_guard :: "string \<Rightarrow> bool" where
  "zip_guard clean \<longleftrightarrow> clean \<noteq> ''/'' \<and> has_prefix clean ''/../''"

definition zip_walk ::
  "sftp_server \<Rightarrow> string \<Rightarrow> string \<Rightarrow> bool \<Rightarrow> session \<times> tar_writer \<Rightarrow> zip_error option \<times> session \<times> tar_writer" where
  "zip_walk srv rel path isDir st =
     (case st of (s, tw) \<Rightarrow>
        (let clean = path_clean (''/'' @ rel) in
         if zip_guard clean then (Some (EscapeRefused rel), s, tw)
         else (case Stat srv path s of
                 (Inl e, s1) \<Rightarrow> (Some (StatFailed e), s1, tw)
               | (Inr fi, s1) \<Rightarrow>
                   (case FileInfoHeader fi of
                      None \<Rightarrow> (Some HeaderFailed, s1, tw)
                    | Some sz \<Rightarrow>
                        (case WriteHeader (archive_name clean isDir) fi sz tw of
                           Inl e \<Rightarrow> (Some e, s1, tw)
                         | Inr tw1 \<Rightarrow>
                             (if isDir then (None, s1, tw1)
                              else (case Open srv path s1 of
                                      (Inl e, s2) \<Rightarrow> (Some (OpenFailed e), s2, tw1)
                                    | (Inr c, s2) \<Rightarrow>
                                        (case CopyContent c tw1 of (err, tw2) \<Rightarrow> (err, s2, tw2)))))))))"

text \<open>A loop over a list that stops at the first error; \<open>None\<close> is a body that has not returned.\<close>

fun each :: "('a \<Rightarrow> 's \<Rightarrow> ('e option \<times> 's) option) \<Rightarrow> 'a list \<Rightarrow> 's \<Rightarrow> ('e option \<times> 's) option" where
  "each f [] s = Some (None, s)"
| "each f (x # xs) s =
     (case f x s of
        None \<Rightarrow> None
      | Some (Some e, s') \<Rightarrow> Some (Some e, s')
      | Some (None, s') \<Rightarrow> each f xs s')"

definition child_path :: "string \<Rightarrow> entry \<Rightarrow> string" where
  "child_path path e = (if resolvedPathOf e \<noteq> [] then resolvedPathOf e else path_join [path, entry_name e])"

primrec zip_rec ::
  "nat \<Rightarrow> sftp_server \<Rightarrow> string \<Rightarrow> string \<Rightarrow> bool \<Rightarrow> session \<times> tar_writer \<Rightarrow>
   (zip_error option \<times> session \<times> tar_writer) option" where
  "zip_rec 0 srv rel path isDir st = None"
| "zip_rec (Suc n) srv rel path isDir st =
     (case zip_walk srv rel path isDir st of
        (Some e, st1) \<Rightarrow> Some (Some e, st1)
      | (None, st1) \<Rightarrow>
          (if \<not> isDir then Some (None, st1)
           else (case ListDir srv path (fst st1) of
                   (Inl e, s2) \<Rightarrow> Some (Some (ListFailed e), s2, snd st1)
                 | (Inr entries, s2) \<Rightarrow>
                     each (\<lambda>e. zip_rec n srv (path_join [rel, entry_name e]) (child_path path e) (entry_is_dir e))
                       entries (s2, snd st1))))"

definition new_tar :: tar_writer where
  "new_tar = \<lparr>tar_entries = [], tar_left = 0\<rparr>"

section \<open>Names\<close>

lemma zip_guard_dead: "\<not> zip_guard (path_clean (''/'' @ rel))"
proof
  assume "zip_guard (path_clean (''/'' @ rel))"
  then obtain r where "path_clean (''/'' @ rel) = ''/../'' @ r"
    by (auto simp: zip_guard_def has_prefix_iff)
  moreover have "split_on slash (''/../'' @ r) = [] # ''..'' # split_on slash r"
    using split_on_sep_Cons [of slash "''..''" r] by simp
  ultimately have "''..'' \<in> set (split_on slash (path_clean (''/'' @ rel)))" by simp
  moreover have "''..'' \<notin> set (split_on slash (path_clean (''/'' @ rel)))"
    by (rule path_clean_no_dotdot) simp
  ultimately show False by simp
qed

text \<open>What an archive name may be: the dot, or an absolute path without a parent segment.\<close>

definition name_ok :: "string \<Rightarrow> bool" where
  "name_ok n \<longleftrightarrow> n = ''.'' \<or> is_abs n \<and> ''..'' \<notin> set (split_on slash n)"

lemma split_on_snoc: "split_on c (a @ [c]) = split_on c a @ [[]]"
  using split_on_append [of c a "[]"] by simp

lemma archive_name_ok: "name_ok (archive_name (path_clean (''/'' @ rel)) isDir)"
proof -
  let ?c = "path_clean (''/'' @ rel)"
  have abs: "is_abs ?c" by (rule is_abs_path_clean) simp
  have nodot: "''..'' \<notin> set (split_on slash ?c)" by (rule path_clean_no_dotdot) simp
  have "name_ok (trim_suffix ?c ''/'' @ ''/'')" if "?c \<noteq> ''/''"
  proof (cases "has_suffix ?c ''/''")
    case True
    then obtain b where b: "?c = b @ ''/''" by (auto simp: has_suffix_iff)
    then have "trim_suffix ?c ''/'' = b" using True by (simp add: trim_suffix_def)
    then show ?thesis using abs nodot b by (simp add: name_ok_def)
  next
    case False
    then have "trim_suffix ?c ''/'' = ?c" by (simp add: trim_suffix_def)
    then show ?thesis using abs nodot split_on_snoc [of slash ?c] is_abs_append [OF abs] by (simp add: name_ok_def)
  qed
  then show ?thesis using abs nodot by (auto simp: archive_name_def name_ok_def)
qed

definition names_ok :: "tar_writer \<Rightarrow> bool" where
  "names_ok tw \<longleftrightarrow> (\<forall>e \<in> set (tar_entries tw). name_ok (te_name e))"

lemma names_set_last_content: "map te_name (set_last_content c es) = map te_name es"
proof (cases es rule: rev_cases)
  case (snoc ys y)
  then show ?thesis by (simp add: set_last_content_def)
qed (simp add: set_last_content_def)

text \<open>A step of the walk adds at most one entry, under the cleaned name, and never refuses an escape.\<close>

lemma zip_walk_names:
  assumes "zip_walk srv rel path isDir (s, tw) = (err, s', tw')"
  shows "map te_name (tar_entries tw') = map te_name (tar_entries tw) \<or>
      map te_name (tar_entries tw') = map te_name (tar_entries tw) @ [archive_name (path_clean (''/'' @ rel)) isDir]"
    and "err \<noteq> Some (EscapeRefused r)"
  using assms zip_guard_dead [of rel] unfolding zip_walk_def Let_def
  by (auto simp: WriteHeader_def CopyContent_def names_set_last_content
      split: prod.splits sum.splits option.splits if_splits)

lemma zip_walk_ok:
  assumes "names_ok tw" "zip_walk srv rel path isDir (s, tw) = (err, s', tw')"
  shows "names_ok tw'"
proof -
  have "\<forall>n \<in> set (map te_name (tar_entries tw)). name_ok n" using assms(1) by (simp add: names_ok_def)
  then have "\<forall>n \<in> set (map te_name (tar_entries tw')). name_ok n"
    using zip_walk_names(1) [OF assms(2)] archive_name_ok [of rel isDir] by (elim disjE) simp_all
  then show ?thesis by (simp add: names_ok_def)
qed

text \<open>An invariant of the state that holds through the walk's loop holds after it.\<close>

lemma each_inv:
  assumes "\<And>x s e s'. x \<in> set xs \<Longrightarrow> I s \<Longrightarrow> f x s = Some (e, s') \<Longrightarrow> I s' \<and> Q e"
    and "I s" "Q None" "each f xs s = Some (e, s')"
  shows "I s' \<and> Q e"
  using assms(4,2) assms(1)
proof (induction xs arbitrary: s)
  case Nil
  then show ?case using assms(3) by simp
next
  case (Cons x xs)
  show ?case
  proof (cases "f x s")
    case None
    then show ?thesis using Cons.prems(1) by simp
  next
    case (Some r)
    obtain e1 s1 where r: "r = (e1, s1)" by (cases r)
    have i: "I s1 \<and> Q e1" using Cons.prems(2,3) Some r by auto
    show ?thesis
    proof (cases e1)
      case None
      then have "each f xs s1 = Some (e, s')" using Cons.prems(1) Some r by simp
      then show ?thesis using Cons.IH [of s1] i Cons.prems(3) by auto
    next
      case (Some e0)
      then show ?thesis using Cons.prems(1) \<open>f x s = Some r\<close> r i by simp
    qed
  qed
qed

lemma zip_rec_names:
  "names_ok (snd st) \<Longrightarrow> zip_rec n srv rel path isDir st = Some (err, st') \<Longrightarrow>
     names_ok (snd st') \<and> err \<noteq> Some (EscapeRefused r)"
proof (induction n arbitrary: rel path isDir st err st')
  case (Suc n)
  obtain e1 s1 tw1 where w: "zip_walk srv rel path isDir st = (e1, s1, tw1)" by (metis prod.exhaust)
  have ok1: "names_ok tw1" "e1 \<noteq> Some (EscapeRefused r)"
    using zip_walk_ok [of "snd st" srv rel path isDir "fst st"] zip_walk_names(2) [of srv rel path isDir "fst st" "snd st"]
      Suc.prems(1) w by auto
  show ?case
  proof (cases "e1 = None \<and> isDir")
    case False
    then show ?thesis using Suc.prems(2) w ok1 by (auto split: option.splits)
  next
    case True
    obtain ls s2 where l: "ListDir srv path s1 = (ls, s2)" by (cases "ListDir srv path s1")
    show ?thesis
    proof (cases ls)
      case (Inl e)
      then show ?thesis using Suc.prems(2) w l True ok1 by auto
    next
      case (Inr es)
      then have "each (\<lambda>e. zip_rec n srv (path_join [rel, entry_name e]) (child_path path e) (entry_is_dir e)) es (s2, tw1) =
          Some (err, st')"
        using Suc.prems(2) w l True by simp
      then show ?thesis
        by (rule each_inv [where I = "\<lambda>st. names_ok (snd st)" and Q = "\<lambda>e. e \<noteq> Some (EscapeRefused r)", rotated 3])
          (use Suc.IH ok1 in auto)
    qed
  qed
qed simp

section \<open>Termination and divergence\<close>

lemma each_returns:
  "(\<And>x s. x \<in> set xs \<Longrightarrow> f x s \<noteq> None) \<Longrightarrow> each f xs s \<noteq> None"
proof (induction xs arbitrary: s)
  case (Cons x xs)
  then obtain e s' where "f x s = Some (e, s')" by (metis list.set_intros(1) option.exhaust prod.exhaust)
  then show ?case using Cons by (cases e) auto
qed simp

lemma zip_rec_returns:
  assumes "\<And>path s es s' e. ListDir srv path s = (Inr es, s') \<Longrightarrow> e \<in> set es \<Longrightarrow> entry_is_dir e \<Longrightarrow>
      rank (child_path path e) < rank path"
    and "(if isDir then rank path + 1 else 0) < n"
  shows "zip_rec n srv rel path isDir st \<noteq> None"
  using assms(2)
proof (induction n arbitrary: rel path isDir st)
  case (Suc n)
  obtain e1 s1 tw1 where w: "zip_walk srv rel path isDir st = (e1, s1, tw1)" by (metis prod.exhaust)
  obtain ls s2 where l: "ListDir srv path s1 = (ls, s2)" by (cases "ListDir srv path s1")
  have "each (\<lambda>e. zip_rec n srv (path_join [rel, entry_name e]) (child_path path e) (entry_is_dir e)) es (s2, tw1) \<noteq> None"
    if "ls = Inr es" "isDir" for es
  proof (rule each_returns)
    fix e st' assume "e \<in> set es"
    then have "entry_is_dir e \<Longrightarrow> rank (child_path path e) < rank path" using assms(1) l that(1) by blast
    then show "zip_rec n srv (path_join [rel, entry_name e]) (child_path path e) (entry_is_dir e) st' \<noteq> None"
      using Suc.prems that(2) by (intro Suc.IH) auto
  qed
  then show ?case using w l by (auto split: option.splits sum.splits)
qed simp

section \<open>Names under the root\<close>

definition under_root :: "string list \<Rightarrow> string \<Rightarrow> bool" where
  "under_root segs n \<longleftrightarrow> (\<exists>ext d. (\<forall>x \<in> set ext. normal_seg x) \<and> n = archive_name (abs_path (segs @ ext)) d)"

lemma double_slash_clean:
  assumes "\<forall>x \<in> set segs. normal_seg x"
  shows "path_clean (''/'' @ abs_path segs) = abs_path segs"
proof -
  have "path_clean (''/'' @ abs_path segs) = path_clean (abs_path segs)"
    by (simp add: path_clean_abs clean_segs_skip)
  then show ?thesis using normal_path_clean_id [OF assms] by simp
qed

lemma listing_names:
  assumes "\<And>p infos i. srv_readdir srv p = Inr infos \<Longrightarrow> i \<in> set infos \<Longrightarrow> normal_seg (fi_name i)"
    and "ListDir srv path s = (Inr es, s')" "e \<in> set es"
  shows "normal_seg (entry_name e)"
  using assms(2)
proof (cases rule: ListDir_cases)
  case (1 infos)
  have "map entry_info es = infos" using listing.entries_infos [OF 1(3)] .
  then have "entry_info e \<in> set infos" using assms(3) by (metis image_eqI list.set_map)
  then show ?thesis using assms(1) [OF 1(2)] by (simp add: entry_name_def)
qed

lemma zip_walk_under_root:
  assumes "\<forall>x \<in> set (segs @ ext). normal_seg x" "\<forall>n \<in> set (map te_name (tar_entries (snd st))). under_root segs n"
    and "zip_walk srv (abs_path (segs @ ext)) path isDir st = (e1, s1, tw1)"
  shows "\<forall>n \<in> set (map te_name (tar_entries tw1)). under_root segs n"
proof -
  let ?rel = "abs_path (segs @ ext)"
  have "path_clean (''/'' @ ?rel) = ?rel" using double_slash_clean [OF assms(1)] .
  then have "under_root segs (archive_name (path_clean (''/'' @ ?rel)) isDir)"
    using assms(1) by (auto simp: under_root_def)
  moreover have w': "zip_walk srv ?rel path isDir (fst st, snd st) = (e1, s1, tw1)" using assms(3) by simp
  ultimately show ?thesis
    using zip_walk_names(1) [OF w'] assms(2)
    by (elim disjE) (simp_all only: set_append list.set ball_Un ball_simps simp_thms)
qed

lemma zip_rec_under_root:
  assumes "\<And>p infos i. srv_readdir srv p = Inr infos \<Longrightarrow> i \<in> set infos \<Longrightarrow> normal_seg (fi_name i)"
    and "\<forall>x \<in> set segs. normal_seg x"
  shows "\<forall>n \<in> set (map te_name (tar_entries (snd st))). under_root segs n \<Longrightarrow> \<forall>x \<in> set ext. normal_seg x \<Longrightarrow>
    zip_rec fuel srv (abs_path (segs @ ext)) path isDir st = Some (err, st') \<Longrightarrow>
    \<forall>n \<in> set (map te_name (tar_entries (snd st'))). under_root segs n"
proof (induction fuel arbitrary: ext path isDir st err st')
  case (Suc fuel)
  let ?I = "\<lambda>st. \<forall>n \<in> set (map te_name (tar_entries (snd (st :: session \<times> tar_writer)))). under_root segs n"
  let ?rel = "abs_path (segs @ ext)"
  obtain e1 s1 tw1 where w: "zip_walk srv ?rel path isDir st = (e1, s1, tw1)" by (metis prod.exhaust)
  have "\<forall>n \<in> set (map te_name (tar_entries tw1)). under_root segs n"
    by (rule zip_walk_under_root [OF _ Suc.prems(1) w]) (use assms(2) Suc.prems(2) in auto)
  then have ok1: "?I (s1, tw1)" by simp
  show ?case
  proof (cases "e1 = None \<and> isDir")
    case False
    then show ?thesis using Suc.prems(3) w ok1 by (auto split: option.splits)
  next
    case True
    obtain ls s2 where l: "ListDir srv path s1 = (ls, s2)" by (cases "ListDir srv path s1")
    show ?thesis
    proof (cases ls)
      case (Inl e)
      then show ?thesis using Suc.prems(3) w l True ok1 by auto
    next
      case (Inr es)
      have body: "?I s'" if "e \<in> set es" "?I s"
        "zip_rec fuel srv (path_join [?rel, entry_name e]) (child_path path e) (entry_is_dir e) s = Some (x, s')" for e s x s'
      proof -
        have n: "normal_seg (entry_name e)" using listing_names [of srv path s1 es s2] assms(1) l Inr that(1) by blast
        then have "path_join [?rel, entry_name e] = abs_path (segs @ (ext @ [entry_name e]))"
          using path_join_normal [of "segs @ ext" "entry_name e"] assms(2) Suc.prems(2) by auto
        then show ?thesis using Suc.IH [of s "ext @ [entry_name e]"] that n Suc.prems(2) by auto
      qed
      have "each (\<lambda>e. zip_rec fuel srv (path_join [?rel, entry_name e]) (child_path path e) (entry_is_dir e)) es (s2, tw1) =
          Some (err, st')"
        using Suc.prems(3) w l True Inr by simp
      then have "?I st' \<and> True"
      proof (rule each_inv [where I = ?I and Q = "\<lambda>_. True", rotated 3])
        fix e s x s'
        assume "e \<in> set es" "?I s"
          "zip_rec fuel srv (path_join [?rel, entry_name e]) (child_path path e) (entry_is_dir e) s = Some (x, s')"
        then have "?I s'" by (rule body)
        then show "?I s' \<and> True" by blast
      next
        show "?I (s2, tw1)" using ok1 by (simp only: snd_conv)
      qed (rule TrueI)
      then show ?thesis by (rule conjunct1)
    qed
  qed
qed simp

section \<open>A junction that leads back\<close>

text \<open>A server with one directory \<open>/a\<close>, in which a link \<open>x\<close> points to \<open>/a\<close> itself.\<close>

definition loop_server :: sftp_server where
  "loop_server = table_server [(''/a'', [junction ''x''])] [(''/a/x'', ''../a'')] []"

lemma loop_facts:
  "validatePath ''/a'' = None" "srv_readdir loop_server ''/a'' = Inr [junction ''x'']"
  "path_join [''/a'', fi_name (junction ''x'')] = ''/a/x''" "listable loop_server ''/a/x'' = False"
  "srv_readlink loop_server ''/a/x'' = Inr ''../a''" "path_base ''../a'' = ''a''"
  "path_join [''/a'', ''a''] = ''/a/a''" "listable loop_server ''/a/a'' = False" "path_dir ''/a'' = ''/''"
  "path_join [''/'', ''a''] = ''/a''" "listable loop_server ''/a'' = True"
  "fi_mode (junction ''x'') AND ModeSymlink \<noteq> 0"
  "srv_stat loop_server ''/a'' = Inr \<lparr>fi_name = ''a'', fi_size = 0, fi_mode = ModeDir, fi_modtime = 0\<rparr>"
  "FileInfoHeader \<lparr>fi_name = ''a'', fi_size = 0, fi_mode = ModeDir, fi_modtime = 0\<rparr> = Some 0"
  by code_simp+

lemma loop_walk:
  "ancestorWalkResolve loop_server ''/a'' ''a'' 0 s =
     ((''/a'', 1), send (ReqReadDir ''/a'') (send (ReqReadDir ''/a/a'') s))"
proof -
  have "ancestorWalkResolve loop_server ''/'' ''a'' 1 s' = ((''/a'', 1), send (ReqReadDir ''/a'') s')" for s'
    by (subst ancestorWalkResolve.simps) (simp add: maxJunctionDepth_def probe_dir_def loop_facts Let_def)
  then show ?thesis
    by (subst ancestorWalkResolve.simps) (simp add: maxJunctionDepth_def probe_dir_def loop_facts Let_def)
qed

lemma loop_listing:
  "\<exists>s'. ListDir loop_server ''/a'' s = (Inr [WithDir (junction ''x'') True ''/a''], s')"
  by (simp add: ListDir_def Let_def loop_facts list_entry_with_def probe_dir_def resolve_target_def walk_from_def
      loop_walk)

text \<open>Walks in a set of directories each of which leads back into it.\<close>

lemma each_unfinished:
  "x \<in> set xs \<Longrightarrow> (\<And>s s'. f x s \<noteq> Some (None, s')) \<Longrightarrow> each f xs s \<noteq> Some (None, s')"
  by (induction xs arbitrary: s) (auto split: option.splits)

lemma cycle_never_completes:
  assumes "\<And>p s. p \<in> D \<Longrightarrow> \<exists>es s'. ListDir srv p s = (Inr es, s') \<and> (\<exists>e \<in> set es. entry_is_dir e \<and> child_path p e \<in> D)"
  shows "p \<in> D \<Longrightarrow> zip_rec n srv rel p True st \<noteq> Some (None, st')"
proof (induction n arbitrary: rel p st st')
  case (Suc n)
  obtain e1 s1 tw1 where w: "zip_walk srv rel p True st = (e1, s1, tw1)" by (metis prod.exhaust)
  obtain es s2 e where l: "ListDir srv p s1 = (Inr es, s2)" "e \<in> set es" "entry_is_dir e" "child_path p e \<in> D"
    using assms [OF Suc.prems] by blast
  have "each (\<lambda>e. zip_rec n srv (path_join [rel, entry_name e]) (child_path p e) (entry_is_dir e)) es (s2, tw1) \<noteq> Some (None, st')"
    by (rule each_unfinished [OF l(2)]) (use Suc.IH l(3,4) in auto)
  then show ?case using w l(1) by (auto split: option.splits)
qed simp

lemma dir_zip_walk:
  assumes "tar_left tw = 0" "validatePath p = None" "srv_stat srv p = Inr fi" "FileInfoHeader fi = Some 0"
  shows "\<exists>s' tw'. zip_walk srv rel p True (s, tw) = (None, s', tw') \<and> tar_left tw' = 0"
  using zip_guard_dead [of rel] assms by (simp add: zip_walk_def Let_def Stat_def WriteHeader_def)

lemma cycle_diverges:
  assumes "\<forall>p \<in> D. (\<exists>fi. srv_stat srv p = Inr fi \<and> FileInfoHeader fi = Some 0) \<and>
      (\<forall>s. \<exists>e es s'. ListDir srv p s = (Inr (e # es), s') \<and> entry_is_dir e \<and> child_path p e \<in> D)"
  shows "p \<in> D \<Longrightarrow> tar_left tw = 0 \<Longrightarrow> zip_rec n srv rel p True (s, tw) = None"
proof (induction n arbitrary: rel p s tw)
  case (Suc n)
  obtain fi where "srv_stat srv p = Inr fi" "FileInfoHeader fi = Some 0" using assms Suc.prems(1) by blast
  moreover have "validatePath p = None"
  proof -
    obtain e es s' where "ListDir srv p s = (Inr (e # es), s')" using assms Suc.prems(1) by meson
    then show ?thesis by (rule ListDir_cases)
  qed
  ultimately obtain s1 tw1 where w: "zip_walk srv rel p True (s, tw) = (None, s1, tw1)" "tar_left tw1 = 0"
    using dir_zip_walk Suc.prems(2) by blast
  obtain e es s2 where l: "ListDir srv p s1 = (Inr (e # es), s2)" "entry_is_dir e" "child_path p e \<in> D"
    using assms Suc.prems(1) by meson
  then show ?case using w(1) Suc.IH [OF l(3) w(2)] by simp
qed simp

section \<open>Properties\<close>


definition file_server :: sftp_server where
  "file_server = table_server
     [(''/d'', [\<lparr>fi_name = ''f'', fi_size = 2, fi_mode = 0, fi_modtime = 0\<rparr>])] [] [(''/d/f'', ''hi'')]"

lemma demo_zip:
  "zip_rec 3 file_server ''/d'' ''/d'' True (new_session, new_tar) =
     Some (None, \<lparr>chrootDepth = 0, sent = [ReqStat ''/d'', ReqReadDir ''/d'', ReqStat ''/d/f'', ReqOpen ''/d/f'']\<rparr>,
       \<lparr>tar_entries =
          [\<lparr>te_name = ''/d/'', te_info = \<lparr>fi_name = ''d'', fi_size = 0, fi_mode = ModeDir, fi_modtime = 0\<rparr>, te_content = []\<rparr>,
           \<lparr>te_name = ''/d/f'', te_info = \<lparr>fi_name = ''f'', fi_size = 2, fi_mode = 0, fi_modtime = 0\<rparr>, te_content = ''hi''\<rparr>],
        tar_left = 0\<rparr>)"
  by code_simp




text \<open>
  C34: the walk ends on every server whose directories, followed through entries and resolved links,
  have a rank that goes down at each step; the rank of the root plus two is enough fuel.
\<close>

theorem zip_walk_terminates:
  assumes "\<And>path s es s' e. ListDir srv path s = (Inr es, s') \<Longrightarrow> e \<in> set es \<Longrightarrow> entry_is_dir e \<Longrightarrow>
      rank (child_path path e) < rank path"
    and "rank root + 2 \<le> fuel"
  shows "\<exists>r. zip_rec fuel srv root root isDir (s, new_tar) = Some r"
  using zip_rec_returns [of srv rank isDir root fuel root "(s, new_tar)", OF assms(1)] assms(2) by auto

text \<open>A directory \<open>/r\<close> with a directory \<open>d\<close> with a file \<open>f\<close>: ranks 1 and 0.\<close>

definition nested_server :: sftp_server where
  "nested_server = table_server
     [(''/r'', [\<lparr>fi_name = ''d'', fi_size = 0, fi_mode = ModeDir, fi_modtime = 0\<rparr>]),
      (''/r/d'', [\<lparr>fi_name = ''f'', fi_size = 2, fi_mode = 0, fi_modtime = 0\<rparr>])] [] [(''/r/d/f'', ''hi'')]"

lemma nested_child:
  assumes "ListDir nested_server path s = (Inr es, s')" "e \<in> set es" "entry_is_dir e"
  shows "path = ''/r'' \<and> child_path path e = ''/r/d''"
proof -
  let ?d = "\<lparr>fi_name = ''d'', fi_size = 0, fi_mode = ModeDir, fi_modtime = 0\<rparr>"
    and ?f = "\<lparr>fi_name = ''f'', fi_size = 2, fi_mode = 0, fi_modtime = 0\<rparr>"
  have mode: "ModeDir AND ModeSymlink = 0" "path_join [''/r'', ''d''] = ''/r/d''" by code_simp+
  obtain infos where i: "srv_readdir nested_server path = Inr infos"
    "list_entries_with resolve_target nested_server path infos (send (ReqReadDir path) s) = (es, s')"
    using assms(1) by (rule ListDir_cases)
  then have "path = ''/r'' \<and> infos = [?d] \<or> infos = [?f]" by (auto simp: nested_server_def table_server_def split: if_splits)
  then have "path = ''/r'' \<and> es = [Plain ?d] \<or> es = [Plain ?f]" using i(2) mode by (auto simp: list_entry_with_def)
  then show ?thesis using assms(2,3) mode by (auto simp: child_path_def resolvedPathOf_def entry_name_def)
qed

theorem zip_walk_terminates_witness:
  "\<exists>r. zip_rec 3 nested_server ''/r'' ''/r'' True (new_session, new_tar) = Some r"
proof (rule zip_walk_terminates [where rank = "\<lambda>p. if p = ''/r'' then 1 else 0"])
  fix path s es s' e
  assume "ListDir nested_server path s = (Inr es, s')" "e \<in> set es" "entry_is_dir e"
  then show "(if child_path path e = ''/r'' then 1 else 0) < (if path = ''/r'' then 1 else (0::nat))"
    using nested_child by fastforce
qed simp

text \<open>
  C37: nothing else bounds the walk. On a server with a set of directories each of which lists an entry
  that leads, directly or through a resolved link, to a directory of the set again (as an NTFS junction to
  an ancestor makes it), a walk from one of them completes with no amount of fuel; and
  it does not return at all, not even with an error, when these entries come first and the directories can be
  put into an archive.
\<close>

theorem zip_walk_junction_loop:
  assumes "root \<in> D" "tar_left tw = 0"
    and "\<And>p s. p \<in> D \<Longrightarrow> \<exists>es s'. ListDir srv p s = (Inr es, s') \<and> (\<exists>e \<in> set es. entry_is_dir e \<and> child_path p e \<in> D)"
  shows "zip_rec fuel srv rel root True (s, tw) \<noteq> Some (None, st') \<and>
    ((\<forall>p \<in> D. (\<exists>fi. srv_stat srv p = Inr fi \<and> FileInfoHeader fi = Some 0) \<and>
        (\<forall>s. \<exists>e es s'. ListDir srv p s = (Inr (e # es), s') \<and> entry_is_dir e \<and> child_path p e \<in> D)) \<longrightarrow>
     zip_rec fuel srv rel root True (s, tw) = None)"
  using cycle_never_completes [of D srv root fuel rel "(s, tw)"] cycle_diverges [of D srv root tw fuel rel s] assms by blast

theorem zip_walk_junction_loop_witness:
  "\<forall>fuel. zip_rec fuel loop_server ''/a'' ''/a'' True (new_session, new_tar) = None"
proof -
  let ?e = "WithDir (junction ''x'') True ''/a''"
  have child: "entry_is_dir ?e" "child_path ''/a'' ?e = ''/a''" by (simp_all add: child_path_def resolvedPathOf_def)
  have first: "\<exists>e es s'. ListDir loop_server ''/a'' s = (Inr (e # es), s') \<and> entry_is_dir e \<and> child_path ''/a'' e \<in> {''/a''}" for s
    using loop_listing [of s] child by blast
  have any: "\<exists>es s'. ListDir loop_server ''/a'' s = (Inr es, s') \<and> (\<exists>e \<in> set es. entry_is_dir e \<and> child_path ''/a'' e \<in> {''/a''})" for s
    using first [of s] by (meson list.set_intros(1))
  have stat: "\<exists>fi. srv_stat loop_server ''/a'' = Inr fi \<and> FileInfoHeader fi = Some 0" using loop_facts(13,14) by blast
  have "tar_left new_tar = 0" by (simp add: new_tar_def)
  then show ?thesis
    using zip_walk_junction_loop [of "''/a''" "{''/a''}" new_tar loop_server _ "''/a''" new_session] any first stat by blast
qed

end
