(* ===== verification/Handlers.thy ===== *)
theory Handlers
  imports Auth Dial Pool RestorePoints Watch ZipWalk
begin

text \<open>
  internal/handlers: the server's state and every HTTP handler (handlers.go, wizard.go,
  sessions.go). A handler is a function of the server's configuration, of what the outside answers
  during the request (the clock, the FRSProvider, the SFTP dial), of the request and of the state.
\<close>

section \<open>Pages\<close>

datatype missing_field = MissVmNs | MissVmName | MissRpName | MissPvcNames

text \<open>The message of an error page: a fixed text, or the error of the call that failed.\<close>

datatype err_msg =
    MsgText string
  | MsgK8s k8s_error
  | MsgRequest request_error
  | MsgSftp sftp_error
  | MsgDial dial_error
  | MsgMissing "missing_field list"

text \<open>
  The templates with the data they are executed on: whole layouts (\<open>\<dots>Page\<close>) and fragments; a file's
  bytes, an archive (with the error that cut it short, or \<open>None\<close> while it has not ended) and the
  embedded assets.
\<close>

datatype page =
    LoginPage
  | SessionsPage "frs_view list" string
  | ErrorPage string err_msg
  | PreparingPage frs_ref string "wait_error option" string
  | PreparingFragment frs_ref string "wait_error option" string
  | BrowsePage frs_ref string "browse_entry list" string
  | WizardPage "string list" string
  | NamespacesFragment "string list"
  | VMsFragment "vm list"
  | RPsFragment "restore_point list" string
  | VolumesFragment "volume_artifact list" string
  | FileBytes string
  | Archive "(zip_error option \<times> tar_writer) option"
  | Asset string

type_synonym resp = "page response"

definition html :: "int \<Rightarrow> page \<Rightarrow> resp" where
  "html status p =
     \<lparr>rs_status = status, rs_header = [(''Content-Type'', ''text/html; charset=utf-8'')], rs_cookies = [],
      rs_body = Page p\<rparr>"

definition renderError :: "int \<Rightarrow> string \<Rightarrow> err_msg \<Rightarrow> resp" where
  "renderError status title msg = html status (ErrorPage title msg)"

section \<open>State\<close>

datatype metric =
    LoginAttempts string
  | FRSListTotal string
  | FRSListSize nat
  | SFTPConnect string
  | DownloadFiles string string
  | DownloadBytes string string nat

text \<open>
  The pool's handles are numbers; \<open>st_conns\<close> holds what stands behind each, the SFTP server at the
  other end and the client's session. \<open>st_active\<close> is the gauge of active connections, \<open>st_metrics\<close>
  the other metrics in the order they were recorded, \<open>st_running\<close> the watchers started and not ended.
\<close>

record server_state =
  st_pool :: "nat pool"
  st_conns :: "(nat, sftp_server \<times> session) gomap"
  st_next :: nat
  st_watches :: watch_map
  st_running :: "frs_ref list"
  st_active :: nat
  st_metrics :: "metric list"

definition record_metric :: "metric \<Rightarrow> server_state \<Rightarrow> server_state" where
  "record_metric m w = w\<lparr>st_metrics := st_metrics w @ [m]\<rparr>"

record server =
  sr_auth :: authenticator
  sr_username :: string
  sr_pubKeyPEM :: string
  sr_frsPort :: int
  sr_nsWhitelist :: "string list"
  sr_version :: string
  sr_frsTimeout :: duration

definition New ::
  "authenticator \<Rightarrow> string \<Rightarrow> string \<Rightarrow> int \<Rightarrow> string list \<Rightarrow> duration \<Rightarrow> string \<Rightarrow> duration \<Rightarrow> server \<times> server_state" where
  "New a username pubKeyPEM frsPort nsWhitelist frsTimeout version poolTTL =
     (\<lparr>sr_auth = a, sr_username = username, sr_pubKeyPEM = pubKeyPEM, sr_frsPort = frsPort,
       sr_nsWhitelist = nsWhitelist, sr_version = version, sr_frsTimeout = frsTimeout\<rparr>,
      \<lparr>st_pool = NewPool poolTTL, st_conns = [], st_next = 0, st_watches = [], st_running = [], st_active = 0,
       st_metrics = []\<rparr>)"

text \<open>The interface FRSProvider: its answers during one request.\<close>

record frs_provider =
  fp_listAll :: "string list \<Rightarrow> k8s_error + frs_view list"
  fp_get :: "frs_ref \<Rightarrow> k8s_error + frs_view"
  fp_listVMs :: "string list \<Rightarrow> k8s_error + vm list"
  fp_listNamespaces :: "k8s_error + string list"
  fp_listRPs :: "string \<Rightarrow> string \<Rightarrow> k8s_error + restore_point list"
  fp_details :: "string \<Rightarrow> string \<Rightarrow> request_error + volume_artifact list"
  fp_create :: "string \<Rightarrow> FRSpec \<Rightarrow> k8s_error + frs_view"
  fp_delete :: "string \<Rightarrow> string \<Rightarrow> k8s_error option"
  fp_lookup :: "frs_view \<Rightarrow> frs_view"

text \<open>
  The outside during a request: HMAC-SHA256, the random bytes, the clock, the provider, the dial of
  the pool's client, and the fuel for the archive walk.
\<close>

record outside =
  ox_hmac :: mac
  ox_rand :: "string option"
  ox_now :: gotime
  ox_frs :: frs_provider
  ox_dial :: "string \<Rightarrow> string \<Rightarrow> dial_error + sftp_server"
  ox_fuel :: nat

text \<open>The Kubernetes client as the provider.\<close>

definition k8s_provider ::
  "unstructured \<Rightarrow> (string \<Rightarrow> gotime option) \<Rightarrow> ((frs_view \<Rightarrow> frs_view \<Rightarrow> bool) \<Rightarrow> frs_view list \<Rightarrow> frs_view list) \<Rightarrow>
   ((vm \<Rightarrow> vm \<Rightarrow> bool) \<Rightarrow> vm list \<Rightarrow> vm list) \<Rightarrow> ((vm_key \<times> vm) list \<Rightarrow> (vm_key \<times> vm) list) \<Rightarrow>
   (string list \<Rightarrow> string list) \<Rightarrow>
   ((restore_point \<Rightarrow> restore_point \<Rightarrow> bool) \<Rightarrow> restore_point list \<Rightarrow> restore_point list) \<Rightarrow>
   (string \<Rightarrow> json option) \<Rightarrow> k8s_client \<Rightarrow> kube_api \<Rightarrow> gotime \<Rightarrow> frs_provider" where
  "k8s_provider u rfc3339 sort_frs sort_vms range_vms range_ns sort_rps decode c api now =
     \<lparr>fp_listAll = (\<lambda>nss. fst (ListAllFRS u rfc3339 sort_frs api now nss)),
      fp_get = (\<lambda>ref. GetFRS u rfc3339 api ref),
      fp_listVMs = (\<lambda>nss. fst (ListVMs u sort_vms range_vms api nss)),
      fp_listNamespaces = ListVMNamespaces u range_ns api,
      fp_listRPs = (\<lambda>ns app. ListRestorePoints u sort_rps api ns app),
      fp_details = (\<lambda>ns name. GetRestorePointDetails decode c ns name),
      fp_create = (\<lambda>ns spec. CreateFRS u rfc3339 api ns spec),
      fp_delete = (\<lambda>ns name. DeleteFRS api ns name),
      fp_lookup = (\<lambda>v. LookupFRSSource u (kc_isFake c) api v)\<rparr>"

section \<open>Sessions\<close>

definition csrf :: "server \<Rightarrow> outside \<Rightarrow> request \<Rightarrow> string" where
  "csrf s x r = RequestCSRFToken (ox_hmac x) (sr_auth s) r"

definition session_key_of :: "server \<Rightarrow> request \<Rightarrow> frs_ref \<Rightarrow> session_key" where
  "session_key_of s r ref =
     \<lparr>sk_user = userIDFromCookie r (au_cookieName (sr_auth s)),
      sk_frs = \<lparr>nn_ns = ref_ns ref, nn_name = ref_name ref\<rparr>\<rparr>"

text \<open>\<open>s.pool.Get(key)\<close> on the state.\<close>

definition pool_get :: "outside \<Rightarrow> session_key \<Rightarrow> server_state \<Rightarrow> nat option \<times> server_state" where
  "pool_get x key w = (case Get key (ox_now x) (ox_now x) (st_pool w) of (h, p) \<Rightarrow> (h, w\<lparr>st_pool := p\<rparr>))"

text \<open>A call on the session behind a handle.\<close>

definition on_session ::
  "nat \<Rightarrow> (sftp_server \<Rightarrow> session \<Rightarrow> 'a \<times> session) \<Rightarrow> server_state \<Rightarrow> 'a option \<times> server_state" where
  "on_session h f w =
     (case map_of (st_conns w) h of
        None \<Rightarrow> (None, w)
      | Some (srv, sess) \<Rightarrow>
          (case f srv sess of (res, sess') \<Rightarrow> (Some res, w\<lparr>st_conns := AList.update h (srv, sess') (st_conns w)\<rparr>)))"

definition handleLoginPage :: "server \<Rightarrow> outside \<Rightarrow> (page, server_state) handler" where
  "handleLoginPage s x r w = (html 200 LoginPage, w)"

definition handleLogout :: "server \<Rightarrow> outside \<Rightarrow> (page, server_state) handler" where
  "handleLogout s x r w =
     ((redirect r 303 ''/login'')\<lparr>rs_cookies :=
        [\<lparr>ck_name = au_cookieName (sr_auth s), ck_value = [], ck_path = ''/'', ck_maxAge = -1, ck_httpOnly = True,
          ck_secure = True, ck_sameSiteStrict = True\<rparr>]\<rparr>, w)"

definition handleLogin :: "server \<Rightarrow> outside \<Rightarrow> (page, server_state) handler" where
  "handleLogin s x r w =
     (case HandleLogin (ox_hmac x) (sr_auth s) (ox_rand x) (ox_now x) r of
        (resp, None) \<Rightarrow> (resp, w)
      | (resp, Some l) \<Rightarrow> (resp, record_metric (LoginAttempts l) w))"

definition enrichFRSContext :: "frs_provider \<Rightarrow> frs_view list \<Rightarrow> frs_view list" where
  "enrichFRSContext p l = map (fp_lookup p) l"

definition handleSessions :: "server \<Rightarrow> outside \<Rightarrow> (page, server_state) handler" where
  "handleSessions s x r w =
     (case fp_listAll (ox_frs x) (sr_nsWhitelist s) of
        Inl e \<Rightarrow> (renderError 502 ''Failed to list FRSes'' (MsgK8s e), record_metric (FRSListTotal ''error'') w)
      | Inr l \<Rightarrow>
          (html 200 (SessionsPage (enrichFRSContext (ox_frs x) l) (csrf s x r)),
           record_metric (FRSListSize (length l)) (record_metric (FRSListTotal ''ok'') w)))"

definition connect_addr :: "frs_view \<Rightarrow> string" where
  "connect_addr v = v_serviceName v @ ''.'' @ v_serviceNS v @ ''.svc.cluster.local:'' @ int_str (v_port v)"

definition browse_url :: "frs_ref \<Rightarrow> string \<Rightarrow> string" where
  "browse_url ref p = ''/browse?frs='' @ ref_ns ref @ ''/'' @ ref_name ref @ ''&path='' @ p"

definition store_session :: "outside \<Rightarrow> session_key \<Rightarrow> sftp_server \<Rightarrow> server_state \<Rightarrow> server_state" where
  "store_session x key srv w =
     (let p = Store key (st_next w) (ox_now x) (st_pool w) in
      w\<lparr>st_conns := AList.update (st_next w) (srv, new_session) (st_conns w), st_pool := p,
        st_next := st_next w + 1, st_active := Len p\<rparr>)"

definition handleConnect :: "server \<Rightarrow> outside \<Rightarrow> (page, server_state) handler" where
  "handleConnect s x r w =
     (let ref = \<lparr>ref_ns = PathValue r ''ns'', ref_name = PathValue r ''name''\<rparr> in
      case fp_get (ox_frs x) ref of
        Inl e \<Rightarrow> (renderError 502 ''Failed to query FRS'' (MsgK8s e), w)
      | Inr view \<Rightarrow>
          (if v_port view \<noteq> sr_frsPort s
           then (renderError 400 ''FRS port not permitted'' (MsgText
                  (''FRS reports port '' @ int_str (v_port view) @ '' but only '' @ int_str (sr_frsPort s) @ '' is allowed'')), w)
           else (case ox_dial x (connect_addr view) (v_hostKeySig view) of
                   Inl e \<Rightarrow> (renderError 502 ''SFTP connection failed'' (MsgDial e), record_metric (SFTPConnect ''failure'') w)
                 | Inr srv \<Rightarrow>
                     (redirect r 303 (browse_url ref ''/''),
                      store_session x (session_key_of s r ref) srv (record_metric (SFTPConnect ''success'') w)))))"

section \<open>Browsing\<close>

definition renderPreparing :: "server \<Rightarrow> outside \<Rightarrow> request \<Rightarrow> frs_ref \<Rightarrow> watch_state \<Rightarrow> resp" where
  "renderPreparing s x r ref ws = html 200 (PreparingPage ref (ws_state ws) (ws_err ws) (csrf s x r))"

definition renderPreparingBody :: "server \<Rightarrow> outside \<Rightarrow> request \<Rightarrow> frs_ref \<Rightarrow> watch_state \<Rightarrow> resp" where
  "renderPreparingBody s x r ref ws = html 200 (PreparingFragment ref (ws_state ws) (ws_err ws) (csrf s x r))"

definition no_content :: "(string \<times> string) list \<Rightarrow> resp" where
  "no_content hs =
     \<lparr>rs_status = 204, rs_header = (''Content-Type'', ''text/html; charset=utf-8'') # hs, rs_cookies = [], rs_body = NoBody\<rparr>"

definition handlePartialReady ::
  "server \<Rightarrow> outside \<Rightarrow> request \<Rightarrow> frs_ref \<Rightarrow> string \<Rightarrow> server_state \<Rightarrow> resp" where
  "handlePartialReady s x r ref path w =
     (let watch = watch_get ref (st_watches w);
          notReady = (if HeaderGet r ''HX-Request'' = ''true'' then no_content []
                      else renderPreparing s x r ref (case watch of
                             Some ws \<Rightarrow> ws | None \<Rightarrow> pending_state (empty_view\<lparr>v_ref := ref\<rparr>)));
          ready = no_content [(''HX-Redirect'', browse_url ref (query_escape path))];
          query = (case fp_get (ox_frs x) ref of
                     Inl e \<Rightarrow> notReady
                   | Inr view \<Rightarrow>
                       (if v_state view = ''Ready'' then ready
                        else if v_state view = ''Failed''
                        then renderPreparingBody s x r ref
                               \<lparr>ws_state = ''Failed'', ws_view = view, ws_err = None, ws_done = True, ws_createdAt = 0\<rparr>
                        else notReady))
      in case watch of
           None \<Rightarrow> query
         | Some ws \<Rightarrow>
             (if ws_state ws = ''Ready'' then ready
              else if ws_state ws = ''Failed'' \<or> ws_state ws = ''Timeout'' then renderPreparingBody s x r ref ws
              else query))"

definition connect_url :: "frs_ref \<Rightarrow> string" where
  "connect_url ref = ''/sessions/'' @ ref_ns ref @ ''/'' @ ref_name ref @ ''/connect''"

text \<open>The part of \<open>handleBrowse\<close> for a request without a pooled session.\<close>

definition browse_unconnected :: "server \<Rightarrow> outside \<Rightarrow> request \<Rightarrow> frs_ref \<Rightarrow> server_state \<Rightarrow> resp" where
  "browse_unconnected s x r ref w =
     (case fp_get (ox_frs x) ref of
        Inl e \<Rightarrow>
          (case watch_get ref (st_watches w) of
             Some ws \<Rightarrow> renderPreparing s x r ref ws
           | None \<Rightarrow> renderError 502 ''Failed to query FRS'' (MsgK8s e))
      | Inr view \<Rightarrow>
          (if v_state view \<noteq> ''Ready''
           then renderPreparing s x r ref
                  \<lparr>ws_state = v_state view, ws_view = view, ws_err = None, ws_done = True, ws_createdAt = 0\<rparr>
           else redirect r 303 (connect_url ref)))"

definition invalid_query :: resp where
  "invalid_query = renderError 400 ''Invalid frs query'' (MsgText ''invalid frs query'')"

definition handleBrowse :: "server \<Rightarrow> outside \<Rightarrow> (page, server_state) handler" where
  "handleBrowse s x r w =
     (case parseFRSQuery r of
        None \<Rightarrow> (invalid_query, w)
      | Some (ref, path) \<Rightarrow>
          (if QueryGet r ''partial'' = ''ready'' then (handlePartialReady s x r ref path w, w)
           else (let watch = watch_get ref (st_watches w);
                     ended = (case watch of Some ws \<Rightarrow> ws_done ws \<and> ws_state ws \<noteq> ''Ready'' | None \<Rightarrow> False)
                 in if ended then (renderPreparing s x r ref (the watch), w)
                    else (case pool_get x (session_key_of s r ref) w of
                            (None, w1) \<Rightarrow> (browse_unconnected s x r ref w1, w1)
                          | (Some h, w1) \<Rightarrow>
                              (case on_session h (\<lambda>srv. ListDir srv path) w1 of
                                 (None, w2) \<Rightarrow> (http_error 500 ''internal error'', w2)
                               | (Some (Inl e), w2) \<Rightarrow> (renderError 404 ''Failed to list directory'' (MsgSftp e), w2)
                               | (Some (Inr entries), w2) \<Rightarrow>
                                   (html 200 (BrowsePage ref path (map (\<lambda>e. newBrowseEntry e path) entries) (csrf s x r)),
                                    w2))))))"

section \<open>Downloads\<close>

definition session_expired :: resp where
  "session_expired =
     renderError 401 ''SFTP session expired'' (MsgText ''Please return to FRS Sessions and re-click Browse'')"

text \<open>
  The client takes all bytes of the content: a connection that breaks off, and a file that grows between
  the Open and the Stat so that net/http refuses the bytes beyond the declared length, are left out.
\<close>

definition handleDownload :: "server \<Rightarrow> outside \<Rightarrow> (page, server_state) handler" where
  "handleDownload s x r w =
     (case parseFRSQuery r of
        None \<Rightarrow> (invalid_query, w)
      | Some (ref, path) \<Rightarrow>
          (case pool_get x (session_key_of s r ref) w of
             (None, w1) \<Rightarrow> (session_expired, w1)
           | (Some h, w1) \<Rightarrow>
               (case on_session h (\<lambda>srv. Open srv path) w1 of
                  (None, w2) \<Rightarrow> (http_error 500 ''internal error'', w2)
                | (Some (Inl e), w2) \<Rightarrow> (renderError 404 ''Failed to open file'' (MsgSftp e), w2)
                | (Some (Inr content), w2) \<Rightarrow>
                    (case on_session h (\<lambda>srv. Stat srv path) w2 of
                       (stat, w3) \<Rightarrow>
                         (\<lparr>rs_status = 200,
                           rs_header = (''Content-Disposition'', contentDispositionFilename (baseName path)) #
                             (case stat of Some (Inr fi) \<Rightarrow> [(''Content-Length'', int_str (fi_size fi))] | _ \<Rightarrow> []),
                           rs_cookies = [], rs_body = Page (FileBytes content)\<rparr>,
                          record_metric (DownloadBytes (ref_ns ref) (ref_name ref) (length content))
                            (record_metric (DownloadFiles (ref_ns ref) (ref_name ref)) w3))))))"

definition archive_response :: "string \<Rightarrow> (zip_error option \<times> tar_writer) option \<Rightarrow> resp" where
  "archive_response filename a =
     \<lparr>rs_status = 200,
      rs_header = [(''Content-Type'', ''application/gzip''),
        (''Content-Disposition'', ''attachment; filename='' @ [CHR 0x22] @ filename @ [CHR 0x22])],
      rs_cookies = [], rs_body = Page (Archive a)\<rparr>"

definition handleDownloadZip :: "server \<Rightarrow> outside \<Rightarrow> (page, server_state) handler" where
  "handleDownloadZip s x r w =
     (case parseFRSQuery r of
        None \<Rightarrow> (invalid_query, w)
      | Some (ref, path) \<Rightarrow>
          (let root = (if path = [] then ''/'' else path) in
           case pool_get x (session_key_of s r ref) w of
             (None, w1) \<Rightarrow> (session_expired, w1)
           | (Some h, w1) \<Rightarrow>
               (case on_session h (\<lambda>srv. Stat srv root) w1 of
                  (None, w2) \<Rightarrow> (http_error 500 ''internal error'', w2)
                | (Some (Inl e), w2) \<Rightarrow> (renderError 404 ''FRS path does not exist'' (MsgSftp e), w2)
                | (Some (Inr stat), w2) \<Rightarrow>
                    (let isDir = entry_is_dir (Plain stat) in
                     case on_session h (\<lambda>srv sess.
                            case zip_rec (ox_fuel x) srv root root isDir (sess, new_tar) of
                              None \<Rightarrow> (None, sess)
                            | Some (err, sess', tw) \<Rightarrow> (Some (err, tw), sess')) w2 of
                       (a, w3) \<Rightarrow> (archive_response (sanitizeArchiveName ref root isDir) (Option.bind a (\<lambda>b. b)), w3)))))"

end
