(* ===== verification/Wizard.thy ===== *)
theory Wizard
  imports Handlers
begin

text \<open>
  The handlers of internal/handlers/wizard.go and sessions.go: the wizard's pages, the creation of a
  session with its watcher, its cancellation, and the deletion of a session.
\<close>

section \<open>Wizard pages\<close>

definition frsListVMs :: "server \<Rightarrow> outside \<Rightarrow> k8s_error + vm list" where
  "frsListVMs s x = fp_listVMs (ox_frs x) (sr_nsWhitelist s)"

definition handleWizardPage :: "server \<Rightarrow> outside \<Rightarrow> (page, server_state) handler" where
  "handleWizardPage s x r w =
     (case fp_listNamespaces (ox_frs x) of
        Inl e \<Rightarrow> (renderError 502 ''Failed to list namespaces'' (MsgK8s e), w)
      | Inr l \<Rightarrow> (html 200 (WizardPage l (csrf s x r)), w))"

definition handleWizardNamespaces :: "server \<Rightarrow> outside \<Rightarrow> (page, server_state) handler" where
  "handleWizardNamespaces s x r w =
     (case fp_listNamespaces (ox_frs x) of
        Inl e \<Rightarrow> (renderError 502 ''Failed to list namespaces'' (MsgK8s e), w)
      | Inr l \<Rightarrow> (html 200 (NamespacesFragment l), w))"

definition handleWizardVMs :: "server \<Rightarrow> outside \<Rightarrow> (page, server_state) handler" where
  "handleWizardVMs s x r w =
     (let ns = QueryGet r ''ns'' in
      case (if ns \<noteq> [] then fp_listVMs (ox_frs x) [ns] else frsListVMs s x) of
        Inl e \<Rightarrow> (renderError 502 ''Failed to list VMs'' (MsgK8s e), w)
      | Inr l \<Rightarrow> (html 200 (VMsFragment l), w))"

definition handleWizardRPs :: "server \<Rightarrow> outside \<Rightarrow> (page, server_state) handler" where
  "handleWizardRPs s x r w =
     (case fp_listRPs (ox_frs x) (PathValue r ''ns'') (PathValue r ''name'') of
        Inl e \<Rightarrow> (renderError 502 ''Failed to list RestorePoints'' (MsgK8s e), w)
      | Inr l \<Rightarrow> (html 200 (RPsFragment l (PathValue r ''name'')), w))"

definition handleWizardVolumes :: "server \<Rightarrow> outside \<Rightarrow> (page, server_state) handler" where
  "handleWizardVolumes s x r w =
     (case fp_details (ox_frs x) (PathValue r ''ns'') (PathValue r ''name'') of
        Inl e \<Rightarrow> (renderError 502 ''Failed to list volumes'' (MsgRequest e), w)
      | Inr l \<Rightarrow> (html 200 (VolumesFragment l (PathValue r ''name'')), w))"

section \<open>Creation and cancellation\<close>

text \<open>The form's field names, for the log of a rejected request.\<close>

definition formKeys :: "request \<Rightarrow> string list" where
  "formKeys r = (case rq_formErr r of Some e \<Rightarrow> [] | None \<Rightarrow> sort (remdups (map fst (form_values r))))"

definition wizard_missing :: "request \<Rightarrow> missing_field list" where
  "wizard_missing r =
     (if FormValue r ''vmNs'' = [] then [MissVmNs] else []) @
     (if FormValue r ''vmName'' = [] then [MissVmName] else []) @
     (if FormValue r ''rpName'' = [] then [MissRpName] else []) @
     (if length (FormAll r ''pvcNames'') = 0 then [MissPvcNames] else [])"

definition wizard_spec :: "server \<Rightarrow> request \<Rightarrow> FRSpec" where
  "wizard_spec s r =
     \<lparr>sp_name = [], sp_restorePoint = FormValue r ''rpName'', sp_pvcs = FormAll r ''pvcNames'',
      sp_publicKey = sr_pubKeyPEM s\<rparr>"

definition bad_form :: "string \<Rightarrow> resp" where
  "bad_form e = renderError 400 ''Bad form data'' (MsgText e)"

definition handleWizardCreate :: "server \<Rightarrow> outside \<Rightarrow> (page, server_state) handler" where
  "handleWizardCreate s x r w =
     (case rq_formErr r of
        Some e \<Rightarrow> (bad_form e, w)
      | None \<Rightarrow>
          (if wizard_missing r \<noteq> []
           then (renderError 400 ''Missing wizard parameters'' (MsgMissing (wizard_missing r)), w)
           else if sr_pubKeyPEM s = []
           then (renderError 500 ''No SSH public key'' (MsgText ''helper did not load an SSH public key at startup''), w)
           else (case fp_create (ox_frs x) (FormValue r ''vmNs'') (wizard_spec s r) of
                   Inl e \<Rightarrow> (renderError 502 ''Failed to create FRS'' (MsgK8s e), w)
                 | Inr view \<Rightarrow>
                     (redirect r 303 (browse_url (v_ref view) ''/''),
                      w\<lparr>st_watches := watch_set (v_ref view) (pending_state view) (ox_now x) (st_watches w),
                        st_running := v_ref view # st_running w\<rparr>))))"

text \<open>The watcher's goroutine ends: \<open>wait\<close> is what WaitForReady returned it.\<close>

definition watcher_ends :: "server \<Rightarrow> gotime \<Rightarrow> frs_ref \<Rightarrow> frs_view \<times> wait_error option \<Rightarrow> server_state \<Rightarrow> server_state" where
  "watcher_ends s now ref wait w =
     (if ref \<in> set (st_running w)
      then w\<lparr>st_watches := watchFRSCreated (\<lambda>_ _. wait) (sr_frsTimeout s) ref now (st_watches w),
             st_running := remove1 ref (st_running w)\<rparr>
      else w)"

definition handleWizardCancel :: "server \<Rightarrow> outside \<Rightarrow> (page, server_state) handler" where
  "handleWizardCancel s x r w =
     (case rq_formErr r of
        Some e \<Rightarrow> (bad_form e, w)
      | None \<Rightarrow>
          (case splitn_on 2 slash (FormValue r ''frs'') of
             [ns, name] \<Rightarrow>
               (case fp_delete (ox_frs x) ns name of
                  Some e \<Rightarrow> (renderError 502 ''Failed to cancel'' (MsgK8s e), w)
                | None \<Rightarrow>
                    (redirect r 303 ''/wizard'',
                     w\<lparr>st_watches := watch_del \<lparr>ref_ns = ns, ref_name = name\<rparr> (st_watches w)\<rparr>))
           | _ \<Rightarrow> (renderError 400 ''Bad frs parameter'' (MsgText (FormValue r ''frs'')), w)))"

section \<open>Deletion\<close>

definition handleSessionDelete :: "server \<Rightarrow> outside \<Rightarrow> (page, server_state) handler" where
  "handleSessionDelete s x r w =
     (let ns = PathValue r ''ns''; name = PathValue r ''name'' in
      case fp_delete (ox_frs x) ns name of
        Some e \<Rightarrow> (renderError 502 ''Failed to delete FRS'' (MsgK8s e), w)
      | None \<Rightarrow>
          (redirect r 303 ''/sessions'',
           (let p = CloseAllForFRS ns name (st_pool w) in
            w\<lparr>st_pool := p, st_active := Len p,
              st_watches := watch_del \<lparr>ref_ns = ns, ref_name = name\<rparr> (st_watches w)\<rparr>)))"

end
