(* ===== verification/Router.thy ===== *)
theory Router
  imports Wizard
begin

text \<open>
  The routes of internal/handlers/handlers.go and the ServeMux that serves them (the patterns of Go
  1.22: a method, a path of literal segments and wildcards, the most specific pattern wins), and the
  properties of the server as a whole.
\<close>

section \<open>Routing\<close>

text \<open>The path the mux routes on: cleaned, with its trailing slash kept.\<close>

definition mux_clean :: "string \<Rightarrow> string" where
  "mux_clean p0 =
     (if p0 = [] then ''/''
      else (let p = (if hd p0 \<noteq> slash then slash # p0 else p0); np = path_clean p in
            if last p = slash \<and> np \<noteq> ''/'' then np @ ''/'' else np))"

datatype authed_route =
    Sessions
  | Connect string string
  | SessionDelete string string
  | Browse
  | Download
  | DownloadZip
  | WizardLanding
  | WizardNamespaces
  | WizardVMs
  | WizardRPs string string
  | WizardVolumes string string
  | WizardCreate
  | WizardCancel
  | ToSessions
  | MethodNotAllowed bool

text \<open>The inner mux, where \<open>MethodNotAllowed\<close> says whether POST would match.  \<open>GET /\<close> is the pattern of every path that no other matches.\<close>

definition get_route :: "string list \<Rightarrow> authed_route" where
  "get_route segs =
     (if segs = [''sessions''] then Sessions
      else if segs = [''browse''] then Browse
      else if segs = [''download''] then Download
      else if segs = [''download-zip''] then DownloadZip
      else if segs = [''wizard''] then WizardLanding
      else if segs = [''wizard'', ''namespaces''] then WizardNamespaces
      else if segs = [''wizard'', ''vms''] then WizardVMs
      else (case segs of
              [a, b, ns, name, c] \<Rightarrow>
                if a = ''wizard'' \<and> b = ''vms'' \<and> c = ''restorepoints'' then WizardRPs ns name
                else if a = ''wizard'' \<and> b = ''rps'' \<and> c = ''details'' then WizardVolumes ns name
                else ToSessions
            | _ \<Rightarrow> ToSessions))"

definition post_route :: "string list \<Rightarrow> authed_route" where
  "post_route segs =
     (if segs = [''wizard'', ''create''] then WizardCreate
      else if segs = [''wizard'', ''cancel''] then WizardCancel
      else (case segs of
              [a, ns, name, b] \<Rightarrow>
                if a = ''sessions'' \<and> b = ''connect'' then Connect ns name
                else if a = ''sessions'' \<and> b = ''delete'' then SessionDelete ns name
                else MethodNotAllowed False
            | _ \<Rightarrow> MethodNotAllowed False))"

definition authed_route_of :: "string \<Rightarrow> string \<Rightarrow> authed_route" where
  "authed_route_of m path =
     (let segs = tl (split_on slash path) in
      if is_get m then get_route segs else if m = ''POST'' then post_route segs
      else MethodNotAllowed (post_route segs \<noteq> MethodNotAllowed False))"

text \<open>The outer mux: \<open>/\<close> matches everything that no more specific pattern does.\<close>

datatype route =
    MovedTo string
  | Health
  | LoginForm
  | LoginPost
  | Logout
  | Static string
  | Authed authed_route

definition route_of :: "string \<Rightarrow> string \<Rightarrow> route" where
  "route_of m path =
     (if mux_clean path \<noteq> path then MovedTo (mux_clean path)
      else if is_get m \<and> (path = ''/healthz'' \<or> path = ''/readyz'') then Health
      else if path = ''/login'' \<and> is_get m then LoginForm
      else if path = ''/login'' \<and> m = ''POST'' then LoginPost
      else if path = ''/logout'' \<and> (is_get m \<or> m = ''POST'') then Logout
      else if path = ''/static'' then MovedTo ''/static/''
      else if has_prefix path ''/static/'' then Static (drop 8 path)
      else Authed (authed_route_of m path))"

section \<open>Serving\<close>

definition with_values :: "string \<Rightarrow> string \<Rightarrow> request \<Rightarrow> request" where
  "with_values ns name r = r\<lparr>rq_pathValues := [(''ns'', percent_decode ns), (''name'', percent_decode name)]\<rparr>"

definition method_not_allowed :: "bool \<Rightarrow> resp" where
  "method_not_allowed post =
     (let e = http_error 405 ''Method Not Allowed'' in
      e\<lparr>rs_header := (''Allow'', if post then ''GET, HEAD, POST'' else ''GET, HEAD'') # rs_header e\<rparr>)"

fun serve_authed :: "authed_route \<Rightarrow> server \<Rightarrow> outside \<Rightarrow> (page, server_state) handler" where
  "serve_authed Sessions s x r w = handleSessions s x r w"
| "serve_authed (Connect ns name) s x r w = handleConnect s x (with_values ns name r) w"
| "serve_authed (SessionDelete ns name) s x r w = handleSessionDelete s x (with_values ns name r) w"
| "serve_authed Browse s x r w = handleBrowse s x r w"
| "serve_authed Download s x r w = handleDownload s x r w"
| "serve_authed DownloadZip s x r w = handleDownloadZip s x r w"
| "serve_authed WizardLanding s x r w = handleWizardPage s x r w"
| "serve_authed WizardNamespaces s x r w = handleWizardNamespaces s x r w"
| "serve_authed WizardVMs s x r w = handleWizardVMs s x r w"
| "serve_authed (WizardRPs ns name) s x r w = handleWizardRPs s x (with_values ns name r) w"
| "serve_authed (WizardVolumes ns name) s x r w = handleWizardVolumes s x (with_values ns name r) w"
| "serve_authed WizardCreate s x r w = handleWizardCreate s x r w"
| "serve_authed WizardCancel s x r w = handleWizardCancel s x r w"
| "serve_authed ToSessions s x r w = (redirect r 303 ''/sessions'', w)"
| "serve_authed (MethodNotAllowed post) s x r w = (method_not_allowed post, w)"

subsection \<open>The embedded files\<close>

text \<open>
  \<open>http.FileServer\<close> on the files embedded from web/static, behind the handler that forbids caching. The
  name is what follows /static/ in a clean path, so at most its end is not clean. A name that ends as an
  index page, or a file's name with a slash behind it, is redirected by a relative location; the root is
  listed; a name that is not a file is an error, for which the server takes \<open>Cache-Control\<close> back. A name
  that is no UTF-8 is refused as invalid, unless its first component is a file. Conditional requests
  and ranges, and the length of the files, are left out.
\<close>

definition static_files :: "string list" where
  "static_files = [''app.js'', ''favicon.png'', ''veeam-theme.css'']"

definition no_cache :: "(string \<times> string) list" where
  "no_cache = [(''Cache-Control'', ''no-store, no-cache, must-revalidate''), (''Pragma'', ''no-cache''), (''Expires'', ''0'')]"

definition asset_type :: "string \<Rightarrow> string" where
  "asset_type name =
     (if has_suffix name ''.css'' then ''text/css; charset=utf-8''
      else if has_suffix name ''.js'' then ''text/javascript; charset=utf-8'' else ''image/png'')"

definition asset_found :: "string \<Rightarrow> string \<Rightarrow> resp" where
  "asset_found ctype name =
     \<lparr>rs_status = 200, rs_header = no_cache @ [(''Content-Type'', ctype)], rs_cookies = [], rs_body = Page (Asset name)\<rparr>"

text \<open>A relative location, with the query as it came.\<close>

definition localRedirect :: "request \<Rightarrow> string \<Rightarrow> resp" where
  "localRedirect r loc =
     \<lparr>rs_status = 301,
      rs_header = no_cache @ [(''Location'', loc @ (if rq_rawQuery r = [] then [] else CHR ''?'' # rq_rawQuery r))],
      rs_cookies = [], rs_body = NoBody\<rparr>"

definition serveError :: "int \<Rightarrow> string \<Rightarrow> resp" where
  "serveError code msg =
     (let e = http_error code msg
      in e\<lparr>rs_header := filter (\<lambda>(k, v). k \<noteq> ''Cache-Control'') no_cache @ rs_header e\<rparr>)"

definition static_response :: "request \<Rightarrow> string \<Rightarrow> resp" where
  "static_response r name =
     (let file = (if has_suffix name ''/'' then butlast name else name) in
      if has_suffix (slash # name) ''/index.html'' then localRedirect r ''./''
      else if name = [] then asset_found ''text/html; charset=utf-8'' []
      else if file \<in> set static_files
        then (if file = name then asset_found (asset_type name) name else localRedirect r (''../'' @ file))
      else if \<not> valid_utf8 file \<and> hd (split_on slash file) \<notin> set static_files
        then serveError 500 ''500 Internal Server Error''
      else serveError 404 ''404 page not found'')"

text \<open>The redirect of the mux to another path, with the query as it came.\<close>

definition mux_redirect :: "request \<Rightarrow> string \<Rightarrow> resp" where
  "mux_redirect r path =
     redirect r 307 (url_path_escape path @ (if rq_rawQuery r = [] then [] else CHR ''?'' # rq_rawQuery r))"

definition serve :: "server \<Rightarrow> outside \<Rightarrow> (page, server_state) handler" where
  "serve s x r w =
     (case route_of (rq_method r) (rq_path r) of
        MovedTo p \<Rightarrow> (mux_redirect r p, w)
      | Health \<Rightarrow> (\<lparr>rs_status = 200, rs_header = [], rs_cookies = [], rs_body = Text ''ok''\<rparr>, w)
      | LoginForm \<Rightarrow> handleLoginPage s x r w
      | LoginPost \<Rightarrow> handleLogin s x r w
      | Logout \<Rightarrow> handleLogout s x r w
      | Static name \<Rightarrow> (static_response r name, w)
      | Authed a \<Rightarrow> RequireAuth (ox_hmac x) (sr_auth s) (ox_now x) (serve_authed a s x) r w)"

lemma static_body: "rs_body (static_response r name) = Page p \<Longrightarrow> \<exists>file. p = Asset file"
  by (auto simp: static_response_def asset_found_def localRedirect_def serveError_def Let_def split: if_splits)

section \<open>What the handlers touch\<close>

lemma on_sessionD:
  assumes "on_session h f w = (res, w')"
  shows "st_pool w' = st_pool w" "st_watches w' = st_watches w" "st_running w' = st_running w"
    "st_active w' = st_active w" "st_next w' = st_next w" "set (keys (st_conns w')) = set (keys (st_conns w))"
proof -
  have k: "set (keys (AList.update h v (st_conns w))) = set (keys (st_conns w))" if "map_of (st_conns w) h = Some u" for u v
    using that map_of_SomeD [OF that] by (force simp: dom_update)
  show "set (keys (st_conns w')) = set (keys (st_conns w))"
  proof (cases "map_of (st_conns w) h")
    case None
    then show ?thesis using assms by (simp add: on_session_def)
  next
    case (Some p)
    have "w' = w\<lparr>st_conns := AList.update h (fst p, snd (f (fst p) (snd p))) (st_conns w)\<rparr>"
      using assms Some by (auto simp: on_session_def split: prod.splits)
    then show ?thesis using k [OF Some] by simp
  qed
qed (use assms in \<open>auto simp: on_session_def split: option.splits prod.splits\<close>)

text \<open>A handler that uses at most the caller's own session for a FileRecoverySession.\<close>

definition session_only :: "server \<Rightarrow> outside \<Rightarrow> request \<Rightarrow> server_state \<Rightarrow> server_state \<Rightarrow> bool" where
  "session_only s x r w w' \<longleftrightarrow>
     (st_pool w' = st_pool w \<or>
      (\<exists>ref. st_pool w' = snd (Get (session_key_of s r ref) (ox_now x) (ox_now x) (st_pool w)))) \<and>
     st_watches w' = st_watches w \<and> st_running w' = st_running w \<and> st_active w' = st_active w \<and>
     st_next w' = st_next w \<and> set (keys (st_conns w')) = set (keys (st_conns w))"

lemma pool_getD:
  assumes "pool_get x (session_key_of s r ref) w = (h, w')"
  shows "session_only s x r w w'"
proof -
  have "w' = w\<lparr>st_pool := snd (Get (session_key_of s r ref) (ox_now x) (ox_now x) (st_pool w))\<rparr>"
    using assms by (auto simp: pool_get_def split: prod.splits)
  then show ?thesis by (auto simp: session_only_def)
qed

lemma session_only_on:
  assumes "session_only s x r w w1" "on_session h f w1 = (res, w2)"
  shows "session_only s x r w w2"
  using assms(1) on_sessionD [OF assms(2)] by (simp add: session_only_def)

lemma session_only_refl: "session_only s x r w w"
  by (simp add: session_only_def)

lemma session_only_metric: "session_only s x r w (record_metric m w') \<longleftrightarrow> session_only s x r w w'"
  by (simp add: session_only_def record_metric_def)

lemma handleBrowse_only: "session_only s x r w (snd (handleBrowse s x r w))"
  by (auto simp: handleBrowse_def Let_def session_only_refl
      split: option.splits prod.splits sum.splits dest: pool_getD session_only_on)

lemma handleDownload_only: "session_only s x r w (snd (handleDownload s x r w))"
  by (auto simp: handleDownload_def session_only_refl session_only_metric
      split: option.splits prod.splits sum.splits dest!: pool_getD dest: session_only_on)

lemma handleDownloadZip_only: "session_only s x r w (snd (handleDownloadZip s x r w))"
  by (auto simp: handleDownloadZip_def Let_def session_only_refl
      split: option.splits prod.splits sum.splits dest!: pool_getD dest: session_only_on)

text \<open>Handlers that only read, record metrics or work on the wizard's entries.\<close>

lemma handleSessions_only: "session_only s x r w (snd (handleSessions s x r w))"
  by (simp add: handleSessions_def session_only_refl session_only_metric split: sum.splits)

lemma wizard_reads:
  "snd (handleWizardPage s x r w) = w" "snd (handleWizardNamespaces s x r w) = w"
  "snd (handleWizardVMs s x r w) = w" "snd (handleWizardRPs s x r w) = w" "snd (handleWizardVolumes s x r w) = w"
  by (simp_all add: handleWizardPage_def handleWizardNamespaces_def handleWizardVMs_def handleWizardRPs_def
      handleWizardVolumes_def Let_def split: sum.splits)

text \<open>Handlers that leave the connections alone, but may change the watch map.\<close>

definition same_sessions :: "server_state \<Rightarrow> server_state \<Rightarrow> bool" where
  "same_sessions w w' \<longleftrightarrow>
     st_pool w' = st_pool w \<and> st_conns w' = st_conns w \<and> st_next w' = st_next w \<and> st_active w' = st_active w"

lemma wizard_writes:
  "same_sessions w (snd (handleWizardCreate s x r w))" "same_sessions w (snd (handleWizardCancel s x r w))"
  by (auto simp: handleWizardCreate_def handleWizardCancel_def same_sessions_def
      split: option.splits sum.splits list.splits)

definition connected :: "outside \<Rightarrow> session_key \<Rightarrow> server_state \<Rightarrow> server_state \<Rightarrow> bool" where
  "connected x key w w' \<longleftrightarrow>
     (\<exists>srv m. w' = store_session x key srv (record_metric m w))"

lemma handleConnect_result:
  "session_only s x r w (snd (handleConnect s x r w)) \<or> (\<exists>ref. connected x (session_key_of s r ref) w (snd (handleConnect s x r w)))"
  by (auto simp: handleConnect_def Let_def session_only_refl session_only_metric connected_def split: sum.splits)

lemma handleSessionDelete_result:
  "snd (handleSessionDelete s x r w) = w \<or>
   (let ns = PathValue r ''ns''; name = PathValue r ''name''; p = CloseAllForFRS ns name (st_pool w)
    in snd (handleSessionDelete s x r w) =
         w\<lparr>st_pool := p, st_active := Len p, st_watches := watch_del \<lparr>ref_ns = ns, ref_name = name\<rparr> (st_watches w)\<rparr>)"
  by (simp add: handleSessionDelete_def Let_def split: option.splits)

text \<open>The handlers do not look at the request's cookies but for the caller's identity.\<close>

lemma session_only_request:
  "rq_cookies r' = rq_cookies r \<Longrightarrow> session_only s x r' w w' \<longleftrightarrow> session_only s x r w w'"
  by (simp add: session_only_def session_key_of_def userIDFromCookie_def Cookie_def)

lemma session_key_request: "rq_cookies r' = rq_cookies r \<Longrightarrow> session_key_of s r' ref = session_key_of s r ref"
  by (simp add: session_key_of_def userIDFromCookie_def Cookie_def)

lemma request_parts [simp]:
  "rq_cookies (with_values a b r) = rq_cookies r" "rq_cookies (csrf_parsed r) = rq_cookies r"
  by (simp_all add: with_values_def csrf_parsed_def)

text \<open>What an authenticated route does to the sessions.\<close>

lemma serve_authed_effect:
  obtains (own) "session_only s x r w (snd (serve_authed a s x r w))"
  | (wizard) "same_sessions w (snd (serve_authed a s x r w))"
  | (connect) ref where "connected x (session_key_of s r ref) w (snd (serve_authed a s x r w))"
  | (delete) ns name where "a = SessionDelete ns name"
      "snd (serve_authed a s x r w) = w\<lparr>st_pool := CloseAllForFRS (percent_decode ns) (percent_decode name) (st_pool w),
         st_active := Len (CloseAllForFRS (percent_decode ns) (percent_decode name) (st_pool w)),
         st_watches := watch_del \<lparr>ref_ns = percent_decode ns, ref_name = percent_decode name\<rparr> (st_watches w)\<rparr>"
proof (cases a)
  case (Connect ns name)
  then show ?thesis
    using handleConnect_result [of s x "with_values ns name r" w] own connect
    by (auto simp: session_only_request [of "with_values ns name r" r] session_key_request [of "with_values ns name r" r])
next
  case (SessionDelete ns name)
  have "PathValue (with_values ns name r) ''ns'' = percent_decode ns"
    "PathValue (with_values ns name r) ''name'' = percent_decode name"
    by (simp_all add: with_values_def PathValue_def first_value_def)
  then show ?thesis
    using handleSessionDelete_result [of s x "with_values ns name r" w] own session_only_refl [of s x r w] delete SessionDelete
    by (auto simp: Let_def)
qed (use own wizard session_only_refl [of s x r w] handleBrowse_only handleDownload_only handleDownloadZip_only
    handleSessions_only wizard_reads wizard_writes in \<open>simp_all\<close>)

section \<open>The server over time\<close>

text \<open>Requests, watchers that end and ticks of the sweeper, in any order.\<close>

inductive server_step :: "server \<Rightarrow> server_state \<Rightarrow> server_state \<Rightarrow> bool" for s :: server where
  request: "server_step s w (snd (serve s x r w))"
| watcher: "server_step s w (watcher_ends s now ref wait w)"
| tick: "server_step s w (w\<lparr>st_watches := fst (watch_sweep maxAge now (st_watches w))\<rparr>)"

definition server_init :: "server \<Rightarrow> server_state \<Rightarrow> bool" where
  "server_init s w \<longleftrightarrow>
     (\<exists>a username pubKeyPEM frsPort nsWhitelist frsTimeout version poolTTL.
        (s, w) = New a username pubKeyPEM frsPort nsWhitelist frsTimeout version poolTTL)"

abbreviation server_reachable :: "server \<Rightarrow> server_state \<Rightarrow> bool" where
  "server_reachable s \<equiv> reach (server_init s) (server_step s)"

lemma server_started:
  "(s, w) = New a username pubKeyPEM frsPort nsWhitelist frsTimeout version poolTTL \<Longrightarrow> server_reachable s w"
  by (rule reach.start) (unfold server_init_def, blast)

text \<open>
  Every handle the pool knows, pooled or closed, is distinct and has a connection, and the next one
  is new.
\<close>

definition conn_inv :: "server_state \<Rightarrow> bool" where
  "conn_inv w \<longleftrightarrow>
     wf_pool (st_pool w) \<and> distinct (live (st_pool w) @ pool_closed (st_pool w)) \<and>
     set (live (st_pool w) @ pool_closed (st_pool w)) \<subseteq> set (keys (st_conns w)) \<and>
     (\<forall>h \<in> set (keys (st_conns w)). h < st_next w)"

lemma conn_inv_pool_step:
  assumes "conn_inv w" "stored_op op = []" "st_pool w' = pool_step op (st_pool w)"
    and "set (keys (st_conns w')) = set (keys (st_conns w))" "st_next w' = st_next w"
  shows "conn_inv w'"
proof -
  have wf: "wf_pool (st_pool w)" and lt: "\<forall>h \<in> set (keys (st_conns w)). h < st_next w"
    and d: "distinct (live (st_pool w) @ pool_closed (st_pool w) @ stored_op op)"
    and sub: "set (live (st_pool w) @ pool_closed (st_pool w) @ stored_op op) \<subseteq> set (keys (st_conns w))"
    using assms(1) unfolding conn_inv_def assms(2) append_Nil2 by blast+
  have "set (live (st_pool w') @ pool_closed (st_pool w')) \<subseteq> set (keys (st_conns w'))"
    unfolding assms(3,4) using pool_step_handles(2) [OF wf d] sub by (rule subset_trans)
  then show ?thesis
    using pool_step_handles(1) [OF wf d] pool_step_wf [OF wf, of op] lt
    unfolding conn_inv_def assms(3-5) by blast
qed

lemma session_only_inv: "session_only s x r w w' \<Longrightarrow> conn_inv w \<Longrightarrow> conn_inv w'"
proof (unfold session_only_def, elim conjE disjE exE)
  assume "st_pool w' = st_pool w" "st_next w' = st_next w" "set (keys (st_conns w')) = set (keys (st_conns w))" "conn_inv w"
  then show "conn_inv w'" by (simp add: conn_inv_def)
next
  fix ref
  assume a: "st_pool w' = snd (Get (session_key_of s r ref) (ox_now x) (ox_now x) (st_pool w))" "conn_inv w"
    "st_next w' = st_next w" "set (keys (st_conns w')) = set (keys (st_conns w))"
  show "conn_inv w'"
    by (rule conn_inv_pool_step [of w "OpGet (session_key_of s r ref) (ox_now x) (ox_now x)"]) (use a in simp_all)
qed

lemma stored_inv:
  assumes "st_pool w' = Store key (st_next w) now (st_pool w)" "st_next w' = st_next w + 1"
    and "set (keys (st_conns w')) = insert (st_next w) (set (keys (st_conns w)))" "conn_inv w"
  shows "conn_inv w'"
proof -
  let ?op = "OpStore key (st_next w) now"
  have p: "st_pool w' = pool_step ?op (st_pool w)" "st_next w' = st_next w + 1"
    "set (keys (st_conns w')) = insert (st_next w) (set (keys (st_conns w)))"
    using assms(1-3) by simp_all
  have sub: "set (live (st_pool w) @ pool_closed (st_pool w)) \<subseteq> set (keys (st_conns w))"
    and lt: "\<forall>h \<in> set (keys (st_conns w)). h < st_next w"
    and d: "distinct (live (st_pool w) @ pool_closed (st_pool w))" and wf: "wf_pool (st_pool w)"
    using assms(4) unfolding conn_inv_def by blast+
  have "st_next w \<notin> set (live (st_pool w) @ pool_closed (st_pool w))" using sub lt by blast
  then have "distinct (live (st_pool w) @ pool_closed (st_pool w) @ stored_op ?op)" using d by auto
  note h = pool_step_handles [OF wf this] pool_step_wf [OF wf, of ?op]
  have "set (live (st_pool w') @ pool_closed (st_pool w')) \<subseteq> set (keys (st_conns w'))"
  proof -
    have "set (live (st_pool w) @ pool_closed (st_pool w) @ stored_op ?op) \<subseteq> set (keys (st_conns w'))"
      unfolding p(3) using sub by (simp only: set_append stored_op.simps list.set) blast
    with h(2) show ?thesis unfolding p(1) by (rule subset_trans)
  qed
  moreover have "\<forall>h \<in> set (keys (st_conns w')). h < st_next w'" using lt unfolding p(2,3) by auto
  ultimately show ?thesis using h(1,3) unfolding conn_inv_def p(1) by blast
qed

lemma connected_keys:
  "connected x key w w' \<Longrightarrow> set (keys (st_conns w')) = insert (st_next w) (set (keys (st_conns w)))"
  unfolding connected_def store_session_def Let_def record_metric_def by (elim exE) (simp add: dom_update)

lemma connected_inv:
  assumes "connected x key w w'" "conn_inv w"
  shows "conn_inv w'"
  by (rule stored_inv [of _ key w "ox_now x", OF _ _ connected_keys [OF assms(1)] assms(2)])
    (use assms(1) in \<open>auto simp: connected_def store_session_def record_metric_def Let_def\<close>)

lemma serve_authed_inv:
  assumes inv: "conn_inv w"
  shows "conn_inv (snd (serve_authed a s x r w))"
proof (cases a s x r w rule: serve_authed_effect)
  case own
  then show ?thesis using inv by (rule session_only_inv)
next
  case wizard
  then show ?thesis using inv by (simp add: same_sessions_def conn_inv_def)
next
  case (connect ref)
  then show ?thesis using inv by (rule connected_inv)
next
  case (delete ns name)
  show ?thesis
    unfolding delete(2)
    by (rule conn_inv_pool_step [of w "OpCloseAll (percent_decode ns) (percent_decode name)"]) (simp_all add: inv)
qed

text \<open>A request either gets no further than the gate or is served by the handler of its route.\<close>

lemma serve_effect:
  obtains (same) "st_pool (snd (serve s x r w)) = st_pool w" "st_conns (snd (serve s x r w)) = st_conns w"
      "st_next (snd (serve s x r w)) = st_next w" "st_watches (snd (serve s x r w)) = st_watches w"
      "st_running (snd (serve s x r w)) = st_running w" "st_active (snd (serve s x r w)) = st_active w"
  | (authed) a where "route_of (rq_method r) (rq_path r) = Authed a" "authorized (ox_hmac x) (sr_auth s) (ox_now x) r"
      "serve s x r w = serve_authed a s x (csrf_parsed r) w"
proof (cases "route_of (rq_method r) (rq_path r)")
  case (Authed a)
  show ?thesis
  proof (cases "authorized (ox_hmac x) (sr_auth s) (ox_now x) r")
    case True
    show ?thesis by (rule authed [OF Authed True]) (simp add: serve_def Authed auth_gate.passes [OF True])
  next
    case False
    have "snd (serve s x r w) = w"
      by (simp add: serve_def Authed auth_gate.stops [OF False, THEN conjunct1])
    then show ?thesis using same by simp
  qed
qed (use same in \<open>auto simp: serve_def handleLoginPage_def handleLogin_def handleLogout_def record_metric_def
        split: prod.splits option.splits\<close>)

lemma serve_inv: "conn_inv w \<Longrightarrow> conn_inv (snd (serve s x r w))"
proof (cases s x r w rule: serve_effect)
  case same
  then show "conn_inv w \<Longrightarrow> ?thesis" by (simp add: conn_inv_def)
next
  case (authed a)
  then show "conn_inv w \<Longrightarrow> ?thesis" by (simp add: serve_authed_inv)
qed

lemma server_step_inv: "server_step s w w' \<Longrightarrow> conn_inv w \<Longrightarrow> conn_inv w'"
proof (induction rule: server_step.induct)
  case (request w x r)
  then show ?case by (rule serve_inv)
next
  case (watcher w now ref wait)
  then show ?case by (simp add: watcher_ends_def conn_inv_def)
next
  case (tick w maxAge now)
  then show ?case by (simp add: conn_inv_def)
qed

lemma server_reachable_inv: "server_reachable s w \<Longrightarrow> conn_inv w"
proof (induction rule: reach_invariant)
  case (init w)
  then show ?case by (auto simp: server_init_def New_def conn_inv_def)
qed (rule server_step_inv)

lemma Get_other_key:
  "key' \<noteq> key \<Longrightarrow> map_of (pool_entries (snd (Get key now bump p))) key' = map_of (pool_entries p) key'"
  by (simp add: Get_def find_simps split: option.splits)

lemma store_other_key:
  "connected x key w w' \<Longrightarrow> key' \<noteq> key \<Longrightarrow>
     map_of (pool_entries (st_pool w')) key' = map_of (pool_entries (st_pool w)) key'"
  by (auto simp: connected_def store_session_def record_metric_def Store_def Let_def find_simps)

lemma CloseAll_key:
  "wf_pool p \<Longrightarrow> map_of (pool_entries (CloseAllForFRS ns name p)) key =
     (if sk_frs key = \<lparr>nn_ns = ns, nn_name = name\<rparr> then None else map_of (pool_entries p) key)"
  by (auto simp: CloseAllForFRS_def find_simps of_frs_def split: option.splits)

text \<open>The watch map of the server is a state of the wizard's transition system.\<close>

definition wizard_view :: "server_state \<Rightarrow> wizard_state" where
  "wizard_view w = \<lparr>wz_watches = st_watches w, wz_running = mset (st_running w)\<rparr>"

lemma wizard_view_eq: "st_watches w' = st_watches w \<Longrightarrow> st_running w' = st_running w \<Longrightarrow> wizard_view w' = wizard_view w"
  by (simp add: wizard_view_def)

lemma wizard_deleted:
  "st_watches w' = watch_del ref (st_watches w) \<Longrightarrow> st_running w' = st_running w \<Longrightarrow>
     wizard_step (wizard_view w) (wizard_view w')"
  using wizard_step.deleted [of "wizard_view w" ref] by (simp add: wizard_view_def)

lemma handleWizardCreate_step:
  "wizard_view (snd (handleWizardCreate s x r w)) = wizard_view w \<or>
   wizard_step (wizard_view w) (wizard_view (snd (handleWizardCreate s x r w)))"
  using wizard_step.created [of "wizard_view w"]
  by (auto simp: handleWizardCreate_def wizard_view_def split: option.splits sum.splits)

lemma handleWizardCancel_step:
  "wizard_view (snd (handleWizardCancel s x r w)) = wizard_view w \<or>
   wizard_step (wizard_view w) (wizard_view (snd (handleWizardCancel s x r w)))"
  by (auto simp: handleWizardCancel_def intro!: wizard_deleted wizard_view_eq split: option.splits sum.splits list.splits)

lemma session_only_view: "session_only s x r w w' \<Longrightarrow> wizard_view w' = wizard_view w"
  by (simp add: session_only_def wizard_view_def)

lemma serve_authed_step:
  "wizard_view (snd (serve_authed a s x r w)) = wizard_view w \<or>
   wizard_step (wizard_view w) (wizard_view (snd (serve_authed a s x r w)))"
proof (cases a)
  case (Connect ns name)
  then show ?thesis
    using handleConnect_result [of s x "with_values ns name r" w] session_only_view
    by (auto simp: connected_def store_session_def record_metric_def Let_def wizard_view_def)
next
  case (SessionDelete ns name)
  then show ?thesis
    using handleSessionDelete_result [of s x "with_values ns name r" w]
    by (auto simp: Let_def intro!: wizard_deleted)
next
  case WizardCreate
  then show ?thesis using handleWizardCreate_step by simp
next
  case WizardCancel
  then show ?thesis using handleWizardCancel_step by simp
qed (simp_all add: wizard_reads session_only_view [OF handleBrowse_only] session_only_view [OF handleDownload_only]
    session_only_view [OF handleDownloadZip_only] session_only_view [OF handleSessions_only])

lemma serve_step:
  "wizard_view (snd (serve s x r w)) = wizard_view w \<or> wizard_step (wizard_view w) (wizard_view (snd (serve s x r w)))"
proof (cases s x r w rule: serve_effect)
  case same
  then show ?thesis by (simp add: wizard_view_def)
next
  case (authed a)
  then show ?thesis using serve_authed_step by simp
qed

lemma server_step_wizard:
  "server_step s w w' \<Longrightarrow> wizard_view w' = wizard_view w \<or> wizard_step (wizard_view w) (wizard_view w')"
proof (induction rule: server_step.induct)
  case (request w x r)
  show ?case by (rule serve_step)
next
  case (watcher w now ref wait)
  then show ?case
    using wizard_step.finished [of ref "wizard_view w" wait "sr_frsTimeout s" now]
    by (auto simp: watcher_ends_def wizard_view_def)
next
  case (tick w maxAge now)
  then show ?case using wizard_step.swept [of "wizard_view w" maxAge now] by (simp add: wizard_view_def)
qed

interpretation wizard_refinement: simulation "server_init s" "server_step s" "\<lambda>a. a = wizard_init" wizard_step wizard_view for s
  by unfold_locales (auto simp: server_init_def New_def wizard_view_def wizard_init_def dest: server_step_wizard)

section \<open>A server for the examples\<close>

definition demo_mac :: mac where
  "demo_mac = (\<lambda>k m. k @ m)"

definition demo_signed :: string where
  "demo_signed = snd (the (Issue demo_mac demo_store (Some ''id'') 0))"

definition demo_site :: server where
  "demo_site = \<lparr>sr_auth = demo_auth, sr_username = ''root'', sr_pubKeyPEM = ''ssh-ed25519 AAAA'', sr_frsPort = 2222,
     sr_nsWhitelist = [], sr_version = ''dev'', sr_frsTimeout = 120 * Second\<rparr>"

definition demo_ref :: frs_ref where
  "demo_ref = \<lparr>ref_ns = ''db'', ref_name = ''frs-1''\<rparr>"

definition demo_view :: frs_view where
  "demo_view = empty_view\<lparr>v_ref := demo_ref, v_serviceName := ''svc'', v_serviceNS := ''kasten-io'', v_port := 2222,
     v_state := ''Ready'', v_connectable := True\<rparr>"

definition demo_provider :: frs_provider where
  "demo_provider = \<lparr>fp_listAll = (\<lambda>_. Inr []), fp_get = (\<lambda>_. Inr demo_view), fp_listVMs = (\<lambda>_. Inr []),
     fp_listNamespaces = Inr [], fp_listRPs = (\<lambda>_ _. Inr []), fp_details = (\<lambda>_ _. Inr []),
     fp_create = (\<lambda>_ _. Inr demo_view), fp_delete = (\<lambda>_ _. None), fp_lookup = (\<lambda>v. v)\<rparr>"

definition demo_outside :: outside where
  "demo_outside = \<lparr>ox_hmac = demo_mac, ox_rand = Some ''id'', ox_now = 0, ox_frs = demo_provider,
     ox_dial = (\<lambda>_ _. Inr file_server), ox_fuel = 5\<rparr>"

definition demo_get :: "string \<Rightarrow> request" where
  "demo_get path = demo_request\<lparr>rq_path := path, rq_cookies := [(''kfrs_sid'', demo_signed)]\<rparr>"

definition demo_post :: "string \<Rightarrow> request" where
  "demo_post path = demo_request\<lparr>rq_method := ''POST'', rq_path := path, rq_cookies := [(''kfrs_sid'', demo_signed)],
     rq_header := [(''X-CSRF-Token'', CSRFToken demo_mac demo_store demo_signed)]\<rparr>"

definition demo_state :: server_state where
  "demo_state = snd (New demo_auth ''root'' ''ssh-ed25519 AAAA'' 2222 [] (120 * Second) ''dev'' (30 * Minute))"

lemma demo_verifies: "Verify demo_mac demo_store 0 demo_signed"
proof -
  have "Issue demo_mac demo_store (Some ''id'') 0 = Some (fst (the (Issue demo_mac demo_store (Some ''id'') 0)), demo_signed)"
    unfolding demo_signed_def Issue_cookie by simp
  then show ?thesis
    using Verify_issued [of 0 demo_store demo_mac "''id''" _ demo_signed 0]
    by (simp add: sane_time_def alive_def demo_store_def max_i64_def)
qed

lemma demo_token_neq: "CSRFToken demo_mac demo_store demo_signed \<noteq> []"
  by (simp add: CSRFToken_def demo_mac_def demo_store_def)

lemma demo_site_simps [simp]:
  "sr_auth demo_site = demo_auth" "au_cookieName demo_auth = ''kfrs_sid''" "au_sessions demo_auth = demo_store"
  "ox_hmac demo_outside = demo_mac" "ox_now demo_outside = 0" "ox_frs demo_outside = demo_provider"
  by (simp_all add: demo_site_def demo_auth_def NewAuthenticator_def demo_outside_def)

lemma demo_get_authorized: "authorized demo_mac demo_auth 0 (demo_get path)"
  using demo_verifies by (simp add: authorized_def demo_get_def demo_request_def Cookie_def isUnsafeMethod_def)

lemma demo_post_authorized: "authorized demo_mac demo_auth 0 (demo_post path)"
  using demo_verifies demo_token_neq
  by (simp add: authorized_def demo_post_def demo_request_def Cookie_def csrf_of_def HeaderGet_def first_value_def Let_def)

section \<open>Properties\<close>

text \<open>
  C1: a request without a valid session cookie, or an unsafe one without the cookie's CSRF token,
  reaches no handler behind the gate: it changes no session, connection, watch entry or watcher, and
  of all pages and files it is shown only the login form and the embedded assets.
\<close>

theorem unauthorized_no_effect:
  assumes "\<not> authorized (ox_hmac x) (sr_auth s) (ox_now x) r"
  shows "st_pool (snd (serve s x r w)) = st_pool w \<and> st_conns (snd (serve s x r w)) = st_conns w \<and>
    st_watches (snd (serve s x r w)) = st_watches w \<and> st_running (snd (serve s x r w)) = st_running w \<and>
    (\<forall>p. rs_body (fst (serve s x r w)) = Page p \<longrightarrow> p = LoginPage \<or> (\<exists>name. p = Asset name))"
proof -
  have "st_pool (snd (serve s x r w)) = st_pool w \<and> st_conns (snd (serve s x r w)) = st_conns w \<and>
    st_watches (snd (serve s x r w)) = st_watches w \<and> st_running (snd (serve s x r w)) = st_running w"
    by (cases s x r w rule: serve_effect) (use assms in auto)
  moreover have "rs_body (fst (RequireAuth (ox_hmac x) (sr_auth s) (ox_now x) h r w)) \<noteq> Page p"
    for h :: "(page, server_state) handler" and p
    using assms by (auto simp: RequireAuth_def authorized_def VerifyCSRF_def split: option.splits)
  ultimately show ?thesis
    by (auto simp: serve_def mux_redirect_def handleLoginPage_def html_def handleLogin_def HandleLogin_def
        handleLogout_def dest: static_body split: route.splits option.splits prod.splits if_splits)
qed

theorem unauthorized_no_effect_witness:
  "st_pool (snd (serve demo_site demo_outside demo_request demo_state)) = st_pool demo_state"
  by (rule unauthorized_no_effect [THEN conjunct1]) (simp add: authorized_def demo_request_def Cookie_def)

text \<open>
  C36: the page that opens a session cannot be reached by following the redirect of the file browser.
  When a FileRecoverySession is ready and not connected, browsing it answers with a redirect to the
  session's connect URL; a browser follows it with GET, under which that path belongs to no handler
  but the redirect to the session list, so that no connection is made.
\<close>

theorem browse_redirect_never_connects:
  assumes "fp_get (ox_frs x) ref = Inr view" "v_state view = ''Ready''"
    and "normal_seg (ref_ns ref)" "normal_seg (ref_name ref)" "is_get (rq_method r)"
    and "rq_path r = connect_url ref" "authorized (ox_hmac x') (sr_auth s) (ox_now x') r"
  shows "browse_unconnected s x r0 ref w = redirect r0 303 (connect_url ref) \<and>
    fst (serve s x' r w') = redirect r 303 ''/sessions'' \<and> snd (serve s x' r w') = w'"
proof -
  have segs: "connect_url ref = abs_path [''sessions'', ref_ns ref, ref_name ref, ''connect'']"
    by (simp add: connect_url_def)
  have n: "\<forall>y \<in> set [''sessions'', ref_ns ref, ref_name ref, ''connect'']. normal_seg y"
    using assms(3,4) by (simp add: normal_seg_def)
  have last: "last (connect_url ref) \<noteq> slash" by (simp add: connect_url_def)
  have clean: "mux_clean (connect_url ref) = connect_url ref"
    using normal_path_clean_id [OF n] last unfolding mux_clean_def segs by (simp add: Let_def)
  have split: "split_on slash (connect_url ref) = [[], ''sessions'', ref_ns ref, ref_name ref, ''connect'']"
    using split_abs_path [OF n] unfolding segs by simp
  have "\<not> has_prefix (connect_url ref) ''/static/''" by (simp add: connect_url_def)
  then have "route_of (rq_method r) (rq_path r) = Authed ToSessions"
    using clean assms(5,6) split
    by (simp add: route_of_def authed_route_of_def get_route_def connect_url_def)
  moreover have "csrf_parsed r = r"
    using assms(5) by (auto simp: csrf_parsed_def isUnsafeMethod_def is_get_def)
  ultimately have "serve s x' r w' = (redirect r 303 ''/sessions'', w')"
    by (simp add: serve_def auth_gate.passes [OF assms(7)])
  then show ?thesis using assms(1,2) by (simp add: browse_unconnected_def)
qed

theorem browse_redirect_never_connects_witness:
  "fst (serve demo_site demo_outside (demo_get ''/sessions/db/frs-1/connect'') demo_state) =
     redirect (demo_get ''/sessions/db/frs-1/connect'') 303 ''/sessions''"
proof -
  have "connect_url demo_ref = ''/sessions/db/frs-1/connect''" by (simp add: connect_url_def demo_ref_def)
  then show ?thesis
    using browse_redirect_never_connects [of demo_outside demo_ref demo_view "demo_get ''/sessions/db/frs-1/connect''"
        demo_outside demo_site] demo_get_authorized
    by (simp add: demo_provider_def demo_view_def demo_ref_def normal_seg_def is_get_def demo_get_def demo_request_def)
qed

lemma demo_conn_inv: "conn_inv demo_state"
  by (simp add: demo_state_def New_def conn_inv_def)

lemma live_unique:
  assumes "distinct (live p)" "map_of (pool_entries p) k = Some e" "map_of (pool_entries p) k' = Some e'" "pe_sess e = pe_sess e'"
  shows "k = k'"
proof -
  have "inj_on handle (set (pool_entries p))" using assms(1) by (simp add: live_def distinct_map)
  moreover have "handle (k, e) = handle (k', e')" using assms(4) by (simp add: handle_def)
  ultimately have "(k, e) = (k', e')" using map_of_SomeD [OF assms(2)] map_of_SomeD [OF assms(3)] by (rule inj_onD)
  then show ?thesis by simp
qed

lemma pool_get_SomeD:
  assumes "conn_inv w" "pool_get x key w = (Some h, w')"
  shows "conn_inv w'" "pool_closed (st_pool w') = pool_closed (st_pool w)"
    "\<exists>e. map_of (pool_entries (st_pool w')) key = Some e \<and> pe_sess e = h"
proof -
  have w': "w' = w\<lparr>st_pool := snd (Get key (ox_now x) (ox_now x) (st_pool w))\<rparr>"
    and h: "fst (Get key (ox_now x) (ox_now x) (st_pool w)) = Some h"
    using assms(2) by (auto simp: pool_get_def split: prod.splits)
  show "conn_inv w'"
    by (rule conn_inv_pool_step [OF assms(1), of "OpGet key (ox_now x) (ox_now x)"]) (simp_all add: w')
  show "pool_closed (st_pool w') = pool_closed (st_pool w)" using Get_SomeD(2) [OF h] by (simp add: w')
  show "\<exists>e. map_of (pool_entries (st_pool w')) key = Some e \<and> pe_sess e = h"
    using h by (auto simp: w' Get_def find_simps split: option.splits if_splits)
qed

lemma conn_inv_wf: "conn_inv w \<Longrightarrow> wf_pool (st_pool w)"
  unfolding conn_inv_def by blast

text \<open>A connection in the pool is open: it exists and Close has not been called on it.\<close>

lemma pooled_open:
  assumes "conn_inv w" "map_of (pool_entries (st_pool w)) key = Some e"
  shows "map_of (st_conns w) (pe_sess e) \<noteq> None" "pe_sess e \<notin> set (pool_closed (st_pool w))"
proof -
  have live: "pe_sess e \<in> set (live (st_pool w))" using map_of_SomeD [OF assms(2)] by (force simp: live_def handle_def)
  have d: "distinct (live (st_pool w) @ pool_closed (st_pool w))"
    and sub: "set (live (st_pool w) @ pool_closed (st_pool w)) \<subseteq> set (keys (st_conns w))"
    using assms(1) unfolding conn_inv_def by blast+
  show "pe_sess e \<notin> set (pool_closed (st_pool w))" using d live by auto
  have "pe_sess e \<in> set (keys (st_conns w))" using sub live unfolding set_append by blast
  then show "map_of (st_conns w) (pe_sess e) \<noteq> None" by (simp add: map_of_eq_None_iff)
qed

lemma demo_reachable: "server_reachable demo_site demo_state"
  by (rule reach.start) (auto simp: server_init_def demo_site_def demo_state_def New_def)

text \<open>
  C2: at every time of the server's life, under any requests, watchers and sweeps, a handle that a
  handler gets from the pool stands for a connection that exists, has not been closed, and belongs
  to no other entry of the pool.
\<close>

theorem server_sessions_open:
  assumes "server_reachable s w" and "pool_get x key w = (Some h, w')"
  shows "map_of (st_conns w') h \<noteq> None \<and> h \<notin> set (pool_closed (st_pool w')) \<and>
    (\<forall>key' e. map_of (pool_entries (st_pool w')) key' = Some e \<and> pe_sess e = h \<longrightarrow> key' = key)"
proof -
  note got = pool_get_SomeD [OF server_reachable_inv [OF assms(1)] assms(2)]
  obtain e where e: "map_of (pool_entries (st_pool w')) key = Some e" "pe_sess e = h" using got(3) by blast
  have "distinct (live (st_pool w'))" using got(1) unfolding conn_inv_def distinct_append by blast
  then have "key' = key" if "map_of (pool_entries (st_pool w')) key' = Some e'" "pe_sess e' = h" for key' e'
    using live_unique [OF _ that(1) e(1)] that(2) e(2) by simp
  then show ?thesis using pooled_open [OF got(1) e(1)] e(2) by blast
qed

definition demo_connected :: server_state where
  "demo_connected = snd (serve demo_site demo_outside (demo_post ''/sessions/db/frs-1/connect'') demo_state)"

lemma demo_connected_reachable: "server_reachable demo_site demo_connected"
  unfolding demo_connected_def by (rule reach.next_step [OF demo_reachable server_step.request])

lemma demo_connect:
  "handleConnect demo_site demo_outside (with_values ''db'' ''frs-1'' (demo_post path)) demo_state =
     (redirect (with_values ''db'' ''frs-1'' (demo_post path)) 303 (browse_url demo_ref ''/''),
      store_session demo_outside (demo_key demo_signed) file_server (record_metric (SFTPConnect ''success'') demo_state))"
proof -
  have "percent_decode ''db'' = ''db''" "percent_decode ''frs-1'' = ''frs-1''" by code_simp+
  then show ?thesis
    by (simp add: handleConnect_def Let_def with_values_def PathValue_def first_value_def demo_provider_def demo_view_def
        demo_site_def demo_outside_def demo_ref_def session_key_of_def userIDFromCookie_def Cookie_def demo_post_def
        demo_request_def demo_auth_def NewAuthenticator_def demo_key_def)
qed

lemma demo_connected_eq:
  "demo_connected =
     store_session demo_outside (demo_key demo_signed) file_server (record_metric (SFTPConnect ''success'') demo_state)"
proof -
  have "route_of ''POST'' ''/sessions/db/frs-1/connect'' = Authed (Connect ''db'' ''frs-1'')" by code_simp
  then have "serve demo_site demo_outside (demo_post ''/sessions/db/frs-1/connect'') demo_state =
      handleConnect demo_site demo_outside (with_values ''db'' ''frs-1'' (csrf_parsed (demo_post ''/sessions/db/frs-1/connect''))) demo_state"
    using demo_post_authorized [of "''/sessions/db/frs-1/connect''"]
    by (simp add: serve_def auth_gate.passes demo_post_def demo_request_def)
  moreover have "csrf_parsed (demo_post path) = demo_post path" for path
    using demo_token_neq by (simp add: csrf_parsed_def demo_post_def demo_request_def HeaderGet_def first_value_def)
  ultimately show ?thesis by (simp add: demo_connected_def demo_connect)
qed

lemma demo_got: "fst (pool_get demo_outside (demo_key demo_signed) demo_connected) = Some 0"
  unfolding demo_connected_eq
  by (simp add: pool_get_def Get_def store_session_def record_metric_def Store_def Let_def demo_state_def New_def
      NewPool_def time_sub_def demo_outside_def max_i64_def min_i64_def)

theorem server_sessions_open_witness:
  "map_of (st_conns (snd (pool_get demo_outside (demo_key demo_signed) demo_connected))) 0 \<noteq> None"
proof -
  have "pool_get demo_outside (demo_key demo_signed) demo_connected =
      (Some 0, snd (pool_get demo_outside (demo_key demo_signed) demo_connected))"
    using demo_got by (simp add: prod_eq_iff)
  from server_sessions_open [OF demo_connected_reachable this] show ?thesis by blast
qed

text \<open>
  The server refines the wizard's transition system: its watch map and running watchers are at
  every time a reachable state of that system, so that each of its entries is pending with a watcher
  or in a terminal state.
\<close>

lemma server_refines_wizard:
  assumes "server_reachable s w"
  shows "reachable \<lparr>wz_watches = st_watches w, wz_running = mset (st_running w)\<rparr>"
  using wizard_refinement.reach_view [OF assms] by (simp only: wizard_view_def)

lemma server_refines_wizard_witness:
  "reachable \<lparr>wz_watches = st_watches demo_state, wz_running = mset (st_running demo_state)\<rparr>"
  by (rule server_refines_wizard [OF demo_reachable])

text \<open>
  C5: deleting a FileRecoverySession releases exactly what the server holds for it. Its entries leave the
  pool, whoever they belong to, and their connections, once each and no others, are closed; its watch entry
  is gone; and the gauge of active connections is right. Every other pool entry and watch entry, the open
  connections' table and the running watchers stay as they are.
\<close>

theorem delete_releases_session:
  assumes "conn_inv w" "route_of (rq_method r) (rq_path r) = Authed (SessionDelete ns name)"
    and "authorized (ox_hmac x) (sr_auth s) (ox_now x) r"
    and "fp_delete (ox_frs x) (percent_decode ns) (percent_decode name) = None"
  shows "let w' = snd (serve s x r w); frs = \<lparr>nn_ns = percent_decode ns, nn_name = percent_decode name\<rparr> in
    (\<forall>key. map_of (pool_entries (st_pool w')) key =
       (if sk_frs key = frs then None else map_of (pool_entries (st_pool w)) key)) \<and>
    mset (pool_closed (st_pool w')) = mset (pool_closed (st_pool w)) +
       mset [pe_sess e. (key, e) \<leftarrow> pool_entries (st_pool w), sk_frs key = frs] \<and>
    (\<forall>ref. watch_get ref (st_watches w') =
       (if ref = \<lparr>ref_ns = percent_decode ns, ref_name = percent_decode name\<rparr> then None else watch_get ref (st_watches w))) \<and>
    st_active w' = Len (st_pool w') \<and> st_conns w' = st_conns w \<and> st_running w' = st_running w"
proof -
  let ?p = "CloseAllForFRS (percent_decode ns) (percent_decode name) (st_pool w)"
  let ?r = "with_values ns name (csrf_parsed r)" and ?frs = "\<lparr>nn_ns = percent_decode ns, nn_name = percent_decode name\<rparr>"
  have v: "PathValue ?r ''ns'' = percent_decode ns" "PathValue ?r ''name'' = percent_decode name"
    by (simp_all add: with_values_def PathValue_def first_value_def)
  have "serve s x r w = handleSessionDelete s x ?r w"
    by (simp add: serve_def assms(2) auth_gate.passes [OF assms(3)])
  then have w': "snd (serve s x r w) = w\<lparr>st_pool := ?p, st_active := Len ?p,
      st_watches := watch_del \<lparr>ref_ns = percent_decode ns, ref_name = percent_decode name\<rparr> (st_watches w)\<rparr>"
    using assms(4) v by (simp add: handleSessionDelete_def Let_def)
  have wf: "wf_pool (st_pool w)" using assms(1) unfolding conn_inv_def by blast
  have "of_frs (percent_decode ns) (percent_decode name) (key, e) \<longleftrightarrow> sk_frs key = ?frs" for key and e :: "nat pool_entry"
    by (cases "sk_frs key") (simp add: of_frs_def)
  then have "[pe_sess e. (key, e) \<leftarrow> es, sk_frs key = ?frs] =
      map (\<lambda>(key, e). pe_sess e) (filter (of_frs (percent_decode ns) (percent_decode name)) es)" for es :: "(session_key \<times> nat pool_entry) list"
    by (induction es) auto
  then have "mset (pool_closed ?p) = mset (pool_closed (st_pool w)) + mset [pe_sess e. (key, e) \<leftarrow> pool_entries (st_pool w), sk_frs key = ?frs]"
    by (simp add: CloseAllForFRS_def)
  then show ?thesis unfolding w' Let_def using CloseAll_key [OF wf] by (simp add: find_simps)
qed

text \<open>A connected server that also waits for two sessions: the deletion of one.\<close>

definition demo_waiting :: server_state where
  "demo_waiting = demo_connected\<lparr>st_watches :=
     [(demo_ref, pending_state demo_view), (\<lparr>ref_ns = ''db'', ref_name = ''other''\<rparr>, pending_state empty_view)]\<rparr>"

lemma demo_waiting_inv: "conn_inv demo_waiting"
  using server_reachable_inv [OF demo_connected_reachable] by (simp add: demo_waiting_def conn_inv_def)

theorem delete_releases_session_witness:
  "let w' = snd (serve demo_site demo_outside (demo_post ''/sessions/db/frs-1/delete'') demo_waiting) in
   mset (pool_closed (st_pool w')) = {#0#} \<and> watch_get demo_ref (st_watches w') = None \<and>
   watch_get \<lparr>ref_ns = ''db'', ref_name = ''other''\<rparr> (st_watches w') = Some (pending_state empty_view)"
proof -
  have "route_of ''POST'' ''/sessions/db/frs-1/delete'' = Authed (SessionDelete ''db'' ''frs-1'')" by code_simp
  then have route: "route_of (rq_method (demo_post ''/sessions/db/frs-1/delete'')) (rq_path (demo_post ''/sessions/db/frs-1/delete'')) =
      Authed (SessionDelete ''db'' ''frs-1'')"
    by (simp add: demo_post_def demo_request_def)
  have n: "percent_decode ''db'' = ''db''" "percent_decode ''frs-1'' = ''frs-1''" by code_simp+
  have pool: "pool_closed (st_pool demo_waiting) = []" "pool_entries (st_pool demo_waiting) = [(demo_key demo_signed, \<lparr>pe_sess = 0, pe_lastUsedAt = 0\<rparr>)]"
    by (simp_all add: demo_waiting_def demo_connected_eq store_session_def record_metric_def Store_def Let_def demo_state_def New_def
        NewPool_def demo_outside_def)
  have watches: "watch_get \<lparr>ref_ns = ''db'', ref_name = ''other''\<rparr> (st_watches demo_waiting) = Some (pending_state empty_view)"
    by (simp add: demo_waiting_def watch_get_def demo_ref_def)
  have auth: "authorized (ox_hmac demo_outside) (sr_auth demo_site) (ox_now demo_outside) (demo_post ''/sessions/db/frs-1/delete'')"
    using demo_post_authorized by simp
  have del: "fp_delete (ox_frs demo_outside) (percent_decode ''db'') (percent_decode ''frs-1'') = None" by (simp add: demo_provider_def)
  show ?thesis
    using delete_releases_session [OF demo_waiting_inv route auth del] watches
    by (simp add: Let_def n pool demo_key_def demo_ref_def)
qed

end
