(* ===== verification/Headers.thy ===== *)
theory Headers
  imports Router
begin

text \<open>
  The headers of the router's responses. A policy is a predicate on header fields; where it holds for
  the fields the handlers are known to set and for the locations they redirect to, it holds for every
  field of every response of \<open>serve\<close>. The middleware's headers and the locations are two policies.
\<close>

section \<open>Header policies\<close>

definition policy_ok :: "(string \<Rightarrow> string \<Rightarrow> bool) \<Rightarrow> 'p response \<Rightarrow> bool" where
  "policy_ok P res \<longleftrightarrow> (\<forall>(k, v) \<in> set (rs_header res). P k v)"

text \<open>The paths the mux redirects to: rooted, and not by two slashes.\<close>

definition rooted_once :: "string \<Rightarrow> bool" where
  "rooted_once p \<longleftrightarrow> (\<exists>r. p = slash # r \<and> (r = [] \<or> hd r \<noteq> slash))"

lemma mux_clean_rooted: "rooted_once (mux_clean p)"
proof (cases "p = []")
  case False
  let ?p = "if hd p \<noteq> slash then slash # p else p"
  have abs: "is_abs ?p" using False by (cases p) auto
  have "rooted_once (path_clean ?p)" by (rule path_clean_rooted [OF abs]) (auto simp: rooted_once_def)
  then show ?thesis using False by (auto simp: mux_clean_def Let_def rooted_once_def)
qed (simp add: mux_clean_def rooted_once_def)

locale header_policy =
  fixes P :: "string \<Rightarrow> string \<Rightarrow> bool" and target :: "string \<Rightarrow> bool"
  assumes content_type: "P ''Content-Type'' v" and nosniff: "P ''X-Content-Type-Options'' ''nosniff''"
    and other: "k \<in> set [''Allow'', ''Cache-Control'', ''Pragma'', ''Expires'', ''Content-Disposition'', ''Content-Length''] \<Longrightarrow> P k v"
    and hx_redirect: "P ''HX-Redirect'' (browse_url ref q)"
    and location: "target url \<Longrightarrow> P ''Location'' (hexEscapeNonASCII (redirect_location url))"
    and fixed: "target ''/login''" "target ''/sessions''" "target ''/wizard''"
    and browse: "target (browse_url ref q)"
    and moved: "rooted_once p \<Longrightarrow> target (url_path_escape p @ (if raw = [] then [] else CHR ''?'' # raw))"
begin

lemmas fields = content_type nosniff other hx_redirect

lemma ok_simps [simp]:
  "policy_ok P (html status p)" "policy_ok P (renderError status title msg)" "policy_ok P (http_error status m)"
  "policy_ok P (method_not_allowed b)" "policy_ok P (archive_response f a)"
  "policy_ok P (no_content [])" "policy_ok P (no_content [(''HX-Redirect'', browse_url ref q)])"
  "policy_ok P invalid_query" "policy_ok P session_expired" "policy_ok P (renderPreparing s x r ref ws)"
  "policy_ok P (renderPreparingBody s x r ref ws)" "policy_ok P (bad_form e)"
  by (simp_all add: policy_ok_def html_def renderError_def http_error_def method_not_allowed_def
      archive_response_def no_content_def invalid_query_def session_expired_def renderPreparing_def renderPreparingBody_def
      bad_form_def Let_def fields)

lemma ok_redirect: "target url \<Longrightarrow> policy_ok P (redirect r code url)"
  by (simp add: policy_ok_def redirect_def Let_def location content_type)

lemma ok_targets [simp]:
  "policy_ok P (redirect r code ''/login'')" "policy_ok P (redirect r code ''/sessions'')"
  "policy_ok P (redirect r code ''/wizard'')" "policy_ok P (redirect r code (browse_url ref q))"
  by (simp_all add: ok_redirect fixed browse)

lemma ok_cookies [simp]:
  "policy_ok P (res\<lparr>rs_cookies := cs\<rparr>) = policy_ok P res"
  "policy_ok P \<lparr>rs_status = st, rs_header = [], rs_cookies = cs, rs_body = b\<rparr>"
  by (simp_all add: policy_ok_def)

lemma ok_partial [simp]: "policy_ok P (handlePartialReady s x r ref path w)"
  by (auto simp: handlePartialReady_def Let_def split: sum.splits option.splits)

lemma ok_handlers [simp]:
  "policy_ok P (fst (handleSessions s x r w))" "policy_ok P (fst (handleConnect s x r w))"
  "policy_ok P (fst (handleSessionDelete s x r w))" "policy_ok P (fst (handleDownloadZip s x r w))"
  by (auto simp: handleSessions_def handleConnect_def handleSessionDelete_def handleDownloadZip_def Let_def
      split: sum.splits option.splits prod.splits)

lemma ok_download [simp]: "policy_ok P (fst (handleDownload s x r w))"
  by (auto simp: handleDownload_def split: option.splits prod.splits sum.splits)
    (auto simp: policy_ok_def fields split: option.splits sum.splits)

lemma ok_wizard [simp]:
  "policy_ok P (fst (handleWizardPage s x r w))" "policy_ok P (fst (handleWizardNamespaces s x r w))"
  "policy_ok P (fst (handleWizardVMs s x r w))" "policy_ok P (fst (handleWizardRPs s x r w))"
  "policy_ok P (fst (handleWizardVolumes s x r w))" "policy_ok P (fst (handleWizardCreate s x r w))"
  "policy_ok P (fst (handleWizardCancel s x r w))"
  by (auto simp: handleWizardPage_def handleWizardNamespaces_def handleWizardVMs_def handleWizardRPs_def handleWizardVolumes_def
      handleWizardCreate_def handleWizardCancel_def Let_def split: sum.splits option.splits list.splits)

lemma ok_login [simp]:
  "policy_ok P (fst (handleLoginPage s x r w))" "policy_ok P (fst (handleLogin s x r w))" "policy_ok P (fst (handleLogout s x r w))"
  by (auto simp: handleLoginPage_def handleLogin_def HandleLogin_def handleLogout_def split: option.splits prod.splits if_splits)

text \<open>Of the embedded files only the relative redirects are left to the policy.\<close>

lemma ok_static:
  assumes "\<And>loc. loc = ''./'' \<or> (\<exists>file. loc = ''../'' @ file) \<Longrightarrow> policy_ok P (localRedirect r loc)"
  shows "policy_ok P (static_response r name)"
  using assms by (auto simp: static_response_def asset_found_def serveError_def no_cache_def http_error_def policy_ok_def
      Let_def fields)

text \<open>The one location made of names that the provider has to know: the redirect to a ready session's connect URL.\<close>

lemma ok_browse:
  assumes "\<And>ref view. fp_get (ox_frs x) ref = Inr view \<Longrightarrow> target (connect_url ref)"
  shows "policy_ok P (fst (handleBrowse s x r w))"
proof -
  have "policy_ok P (browse_unconnected s x r ref w')" for ref w'
    by (auto simp: browse_unconnected_def split: sum.splits option.splits intro: ok_redirect assms)
  then show ?thesis by (auto simp: handleBrowse_def Let_def split: option.splits prod.splits sum.splits)
qed

lemma ok_serve:
  assumes "\<And>ref view. fp_get (ox_frs x) ref = Inr view \<Longrightarrow> target (connect_url ref)"
    and "\<And>name. route_of (rq_method r) (rq_path r) = Static name \<Longrightarrow> policy_ok P (static_response r name)"
  shows "policy_ok P (fst (serve s x r w))"
proof -
  have "policy_ok P (fst (serve_authed a s x r' w))" for a r' by (cases a) (simp_all add: ok_browse [OF assms(1)])
  moreover have "route_of (rq_method r) (rq_path r) = MovedTo p \<Longrightarrow> rooted_once p" for p
    using mux_clean_rooted by (auto simp: route_of_def rooted_once_def split: if_splits)
  moreover have "rooted_once p \<Longrightarrow> policy_ok P (mux_redirect r p)" for p
    unfolding mux_redirect_def by (intro ok_redirect moved)
  ultimately show ?thesis using assms(2) by (auto simp: serve_def RequireAuth_def split: route.splits option.splits)
qed

end

section \<open>The headers of the middleware\<close>

definition quoted :: "string \<Rightarrow> string" where
  "quoted s = [CHR 0x27] @ s @ [CHR 0x27]"

definition security_headers :: "(string \<times> string) list" where
  "security_headers =
     [(''Strict-Transport-Security'', ''max-age=63072000; includeSubDomains''),
      (''X-Content-Type-Options'', ''nosniff''),
      (''X-Frame-Options'', ''DENY''),
      (''Referrer-Policy'', ''strict-origin-when-cross-origin''),
      (''Content-Security-Policy'',
       ''default-src '' @ quoted ''self'' @ ''; img-src '' @ quoted ''self'' @ '' data:; style-src '' @ quoted ''self'' @
       '' '' @ quoted ''unsafe-inline'' @ ''; script-src '' @ quoted ''self'' @ ''; base-uri '' @ quoted ''self'' @
       ''; form-action '' @ quoted ''self'' @ ''; frame-ancestors '' @ quoted ''none''),
      (''Permissions-Policy'', ''geolocation=(), microphone=(), camera=()'')]"

definition fixed_headers :: "string list" where
  "fixed_headers = ''X-Request-Id'' # map fst security_headers"

text \<open>The router sets none of them to another value.\<close>

definition plain_field :: "string \<Rightarrow> string \<Rightarrow> bool" where
  "plain_field k v \<longleftrightarrow> (k \<in> set fixed_headers \<longrightarrow> (k, v) = (''X-Content-Type-Options'', ''nosniff''))"

interpretation plain: header_policy plain_field "\<lambda>_. True"
  by unfold_locales (auto simp: plain_field_def fixed_headers_def security_headers_def)

lemma plain_serve: "policy_ok plain_field (fst (serve s x r w))"
proof (rule plain.ok_serve)
  have "policy_ok plain_field (localRedirect r loc)" for loc
    by (simp add: policy_ok_def localRedirect_def no_cache_def plain_field_def fixed_headers_def security_headers_def)
  then show "policy_ok plain_field (static_response r name)" for name by (rule plain.ok_static)
qed simp

section \<open>Locations\<close>

text \<open>
  A location on the site itself, as browsers read it: rooted, and the slash followed neither by another
  slash, by a backslash (which they take for a slash) nor by a control character (which they drop).
\<close>

definition same_site :: "string \<Rightarrow> bool" where
  "same_site loc \<longleftrightarrow>
     (\<exists>r. loc = slash # r \<and> (r = [] \<or> hd r \<noteq> slash \<and> hd r \<noteq> CHR 0x5C \<and> \<not> url_control (hd r)))"

text \<open>A relative location of the file server: it starts with a dot segment, so it has no scheme and no host.\<close>

definition relative_ref :: "string \<Rightarrow> bool" where
  "relative_ref loc \<longleftrightarrow> has_prefix loc ''./'' \<or> has_prefix loc ''../''"

definition harmless :: "char \<Rightarrow> bool" where
  "harmless c \<longleftrightarrow> c \<noteq> CHR 0x5C \<and> \<not> url_control c"

definition harmless_url :: "string \<Rightarrow> bool" where
  "harmless_url url \<longleftrightarrow> rooted_once url \<and> (\<forall>c \<in> set (until_char CHR ''?'' url). harmless c)"

lemma until_from_char: "until_char c s @ from_char c s = s"
  by (simp add: until_char_def from_char_def)

lemma from_char_hd: "from_char c s = [] \<or> hd (from_char c s) = c"
  using hd_dropWhile [of "\<lambda>x. x \<noteq> c" s] by (auto simp: from_char_def)

lemma same_site_start:
  assumes "rooted_once p" "\<forall>c \<in> set p. harmless c" "q = [] \<or> hd q = CHR ''?'' \<or> hd q = slash \<and> p \<noteq> ''/''"
  shows "same_site (p @ q)"
proof -
  obtain r where r: "p = slash # r" "r = [] \<or> hd r \<noteq> slash" using assms(1) by (auto simp: rooted_once_def)
  have "hd (r @ q) \<noteq> slash \<and> hd (r @ q) \<noteq> CHR 0x5C \<and> \<not> url_control (hd (r @ q))" if "r @ q \<noteq> []"
    using that assms(2,3) r by (cases r) (auto simp: harmless_def url_control_def)
  then show ?thesis using r(1) by (auto simp: same_site_def)
qed

lemma redirect_location_site:
  assumes "harmless_url url"
  shows "same_site (redirect_location url)"
proof -
  let ?p = "until_char CHR ''?'' url" and ?q = "from_char CHR ''?'' url"
  obtain r where r: "url = slash # r" "r = [] \<or> hd r \<noteq> slash"
    using assms by (auto simp: harmless_url_def rooted_once_def)
  have harm: "\<forall>c \<in> set ?p. harmless c" using assms by (simp add: harmless_url_def)
  have p: "?p = slash # until_char CHR ''?'' r" by (simp add: r(1) until_char_def)
  have once: "rooted_once ?p" unfolding p using r(2) by (cases r) (auto simp: rooted_once_def until_char_def)
  have q: "?q = [] \<or> hd ?q = CHR ''?''" by (rule from_char_hd)
  have "same_site (?p @ ?q)" by (rule same_site_start [OF once harm]) (use q in blast)
  moreover have "same_site ((if has_suffix ?p ''/'' \<and> \<not> has_suffix (path_clean ?p) ''/'' then path_clean ?p @ ''/''
      else path_clean ?p) @ ?q)"
  proof (rule path_clean_rooted [of ?p])
    show "is_abs ?p" by (simp add: p)
    fix c assume c: "path_clean ?p = slash # c" "c = [] \<or> hd c \<noteq> slash" "set c \<subseteq> set ?p"
    have once': "rooted_once (path_clean ?p)" using c(1,2) by (simp add: rooted_once_def)
    have harm': "\<forall>x \<in> set (path_clean ?p). harmless x" unfolding c(1) using harm c(3) p by auto
    have tail: "same_site (path_clean ?p @ ?q)" by (rule same_site_start [OF once' harm']) (use q in blast)
    have slashed: "same_site (path_clean ?p @ ''/'' @ ?q)" if "\<not> has_suffix (path_clean ?p) ''/''"
    proof (rule same_site_start [OF once' harm'])
      have "path_clean ?p \<noteq> ''/''" using that by (auto simp: has_suffix_single)
      then show "''/'' @ ?q = [] \<or> hd (''/'' @ ?q) = CHR ''?'' \<or> hd (''/'' @ ?q) = slash \<and> path_clean ?p \<noteq> ''/''" by simp
    qed
    show ?thesis using tail slashed by (cases "has_suffix (path_clean ?p) ''/''") simp_all
  qed
  ultimately show ?thesis by (simp add: redirect_location_def Let_def until_from_char)
qed

lemma hexEscape_site: "same_site loc \<Longrightarrow> same_site (hexEscapeNonASCII loc)"
proof -
  assume "same_site loc"
  then obtain r where r: "loc = slash # r" "r = [] \<or> hd r \<noteq> slash \<and> hd r \<noteq> CHR 0x5C \<and> \<not> url_control (hd r)"
    by (auto simp: same_site_def)
  have "hexEscapeNonASCII loc = slash # hexEscapeNonASCII r" by (simp add: r(1) hexEscapeNonASCII_def)
  moreover have "hexEscapeNonASCII r = [] \<or> hd (hexEscapeNonASCII r) \<in> {hd r, CHR ''%''}"
    by (cases r) (auto simp: hexEscapeNonASCII_def Let_def)
  moreover have "\<not> url_control CHR ''%''" by (simp add: url_control_def)
  ultimately show ?thesis using r(2) by (cases r) (auto simp: same_site_def hexEscapeNonASCII_def)
qed

lemma header_safe_harmless: "header_safe c \<Longrightarrow> harmless c"
  by (auto simp: header_safe_def harmless_def url_control_def)

lemma until_char_append: "c \<notin> set s \<Longrightarrow> until_char c (s @ c # t) = s" and until_char_id: "c \<notin> set s \<Longrightarrow> until_char c s = s"
  unfolding until_char_def by (induction s) auto

lemma url_path_escape_rooted: "rooted_once p \<Longrightarrow> rooted_once (url_path_escape p)"
proof -
  have slash: "url_path_keep slash" by (simp add: url_path_keep_def)
  have "hd (percent_byte c) \<noteq> slash \<and> percent_byte c \<noteq> []" for c by (simp add: percent_byte_def Let_def)
  then have "c \<noteq> slash \<Longrightarrow> hd (url_path_escape (c # r)) \<noteq> slash" for c r
    by (simp add: url_path_escape_def hd_append)
  then have "r = [] \<or> hd r \<noteq> slash \<Longrightarrow> url_path_escape r = [] \<or> hd (url_path_escape r) \<noteq> slash" for r
    by (cases r) (auto simp: url_path_escape_def)
  moreover have "url_path_escape (slash # r) = slash # url_path_escape r" for r
    using slash by (simp add: url_path_escape_def)
  ultimately show "rooted_once p \<Longrightarrow> rooted_once (url_path_escape p)" by (auto simp: rooted_once_def)
qed

lemma query_harmless:
  assumes "rooted_once p" "\<forall>c \<in> set p. harmless c \<and> c \<noteq> CHR ''?''"
  shows "harmless_url p" "harmless_url (p @ CHR ''?'' # q)"
proof -
  have q: "CHR ''?'' \<notin> set p" using assms(2) by blast
  show "harmless_url p" using assms by (simp add: harmless_url_def until_char_id [OF q])
  have "rooted_once (p @ CHR ''?'' # q)" using assms(1) by (auto simp: rooted_once_def hd_append)
  then show "harmless_url (p @ CHR ''?'' # q)" using assms(2) by (simp add: harmless_url_def until_char_append [OF q])
qed

lemma moved_harmless:
  assumes "rooted_once p"
  shows "harmless_url (url_path_escape p @ (if raw = [] then [] else CHR ''?'' # raw))"
proof -
  have "\<forall>c \<in> set (url_path_escape p). harmless c \<and> c \<noteq> CHR ''?''"
    using url_path_escape_safe header_safe_harmless by blast
  then show ?thesis using query_harmless [OF url_path_escape_rooted [OF assms]] by simp
qed

lemma fixed_harmless: "harmless_url ''/login''" "harmless_url ''/sessions''" "harmless_url ''/wizard''"
  by (rule query_harmless(1); simp add: rooted_once_def harmless_def url_control_def)+

lemma browse_url_harmless: "harmless_url (browse_url ref q)"
proof -
  have "\<exists>t. browse_url ref q = ''/browse'' @ CHR ''?'' # t" by (simp add: browse_url_def)
  then show ?thesis using query_harmless(2) [of "''/browse''"]
    by (auto simp: rooted_once_def harmless_def url_control_def)
qed

text \<open>Names without \<open>?\<close> are not asked for: what follows it is only the query.\<close>

lemma connect_url_harmless:
  assumes "\<forall>c \<in> set (ref_ns ref) \<union> set (ref_name ref). harmless c"
  shows "harmless_url (connect_url ref)"
proof -
  have "\<forall>c \<in> set (connect_url ref). harmless c"
    using assms by (auto simp: connect_url_def harmless_def url_control_def)
  then show ?thesis
    by (auto simp: harmless_url_def until_char_def dest: set_takeWhileD) (simp add: connect_url_def rooted_once_def)
qed

definition site_field :: "string \<Rightarrow> string \<Rightarrow> bool" where
  "site_field k v \<longleftrightarrow> (k = ''Location'' \<or> k = ''HX-Redirect'' \<longrightarrow> same_site v)"

lemma browse_url_site: "same_site (browse_url ref q)"
  by (simp add: browse_url_def same_site_def url_control_def)

interpretation site: header_policy site_field harmless_url
proof unfold_locales
  show "harmless_url url \<Longrightarrow> site_field ''Location'' (hexEscapeNonASCII (redirect_location url))" for url
    by (simp add: site_field_def hexEscape_site redirect_location_site)
  show "rooted_once p \<Longrightarrow> harmless_url (url_path_escape p @ (if raw = [] then [] else CHR ''?'' # raw))" for p raw
    by (rule moved_harmless)
qed (auto simp: site_field_def browse_url_site fixed_harmless browse_url_harmless)

lemma static_location:
  assumes "(k, v) \<in> set (rs_header (static_response r name))" "k = ''Location'' \<or> k = ''HX-Redirect''"
  shows "relative_ref v"
  using assms by (auto simp: static_response_def asset_found_def serveError_def localRedirect_def no_cache_def http_error_def
      relative_ref_def Let_def split: if_splits)

section \<open>Properties\<close>

text \<open>
  C8: no response of the handlers, the mux and the file server leads off the site: every \<open>Location\<close> and
  \<open>HX-Redirect\<close> they send is a rooted path whose second character is no slash, no backslash and no
  control character, or, for an embedded file only, a location relative to /static/; whatever
  the request's path, query and form are, as long as the objects the cluster answers for have
  no backslash and no control character in their names (which Kubernetes' naming rules out).
\<close>

theorem no_open_redirect:
  assumes "\<And>ref view. fp_get (ox_frs x) ref = Inr view \<Longrightarrow> \<forall>c \<in> set (ref_ns ref) \<union> set (ref_name ref). harmless c"
    and "(k, v) \<in> set (rs_header (fst (serve s x r w)))" and "k = ''Location'' \<or> k = ''HX-Redirect''"
  shows "same_site v \<or> has_prefix (rq_path r) ''/static/'' \<and> relative_ref v"
proof (cases "\<exists>name. route_of (rq_method r) (rq_path r) = Static name")
  case True
  then have "has_prefix (rq_path r) ''/static/''" by (auto simp: route_of_def split: if_splits)
  then show ?thesis using static_location True assms(2,3) by (auto simp: serve_def)
next
  case False
  have "policy_ok site_field (fst (serve s x r w))"
    by (rule site.ok_serve [OF connect_url_harmless]) (use assms(1) False in blast)+
  then show ?thesis using assms(2,3) by (auto simp: policy_ok_def site_field_def)
qed

theorem no_open_redirect_witness:
  "same_site (hexEscapeNonASCII (redirect_location ''/evil.example?next=1''))"
proof -
  let ?x = "demo_outside\<lparr>ox_frs := demo_provider\<lparr>fp_get := \<lambda>ref. if ref = demo_ref then Inr demo_view else Inl (NotConnectable ref)\<rparr>\<rparr>"
  let ?r = "demo_request\<lparr>rq_path := ''//evil.example'', rq_rawQuery := ''next=1''\<rparr>"
  have names: "\<forall>c \<in> set (ref_ns ref) \<union> set (ref_name ref). harmless c"
    if "fp_get (ox_frs ?x) ref = Inr view" for ref view
    using that by (simp add: demo_ref_def harmless_def url_control_def split: if_splits)
  have "mux_clean ''//evil.example'' = ''/evil.example''" "url_path_escape ''/evil.example'' = ''/evil.example''" by code_simp+
  then have "fst (serve demo_site ?x ?r demo_state) = redirect ?r 307 ''/evil.example?next=1''"
    by (simp add: serve_def route_of_def mux_redirect_def demo_request_def)
  then have "(''Location'', hexEscapeNonASCII (redirect_location ''/evil.example?next=1'')) \<in>
      set (rs_header (fst (serve demo_site ?x ?r demo_state)))"
    by (simp add: redirect_def Let_def)
  then have "same_site (hexEscapeNonASCII (redirect_location ''/evil.example?next=1'')) \<or> has_prefix (rq_path ?r) ''/static/'' \<and>
      relative_ref (hexEscapeNonASCII (redirect_location ''/evil.example?next=1''))"
    by (rule no_open_redirect [OF names, where k = "''Location''", rotated]) simp_all
  moreover have "\<not> has_prefix (rq_path ?r) ''/static/''" by simp
  ultimately show ?thesis by blast
qed

end
