(* ===== verification/Middleware.thy ===== *)
theory Middleware
  imports Headers
begin

text \<open>
  internal/logging/logging.go, internal/server/middleware.go and the chain cmd/helper/main.go builds
  of them around the router. A handler's output is the list of calls it makes on its ResponseWriter,
  ended early by a panic; the writer of net/http and the recorder of the access log execute it.
\<close>

section \<open>The ResponseWriter\<close>

datatype call =
    CallSet string string
  | CallDel string
  | CallHeader int
  | CallWrite string
  | CallPanic string

text \<open>
  The writer of one request: the headers as set so far, what has been sent of status and headers, the
  number of body bytes the handler has written and those the client gets, which is none in
  the answer to a HEAD request.
\<close>

record writer =
  wr_head :: bool
  wr_header :: "(string, string) gomap"
  wr_sent :: "(int \<times> (string, string) gomap) option"
  wr_written :: nat
  wr_body :: string

definition new_writer :: "string \<Rightarrow> writer" where
  "new_writer method = \<lparr>wr_head = (method = ''HEAD''), wr_header = [], wr_sent = None, wr_written = 0, wr_body = []\<rparr>"

text \<open>
  Of several calls of WriteHeader (with the code of a final response) the first counts; the headers
  are sent as they are then.  A Write before it sends 200; one to a status without a body is refused;
  one that answers HEAD counts, and returns, the bytes it discards.
\<close>

definition write_header :: "int \<Rightarrow> writer \<Rightarrow> writer" where
  "write_header code w = (if wr_sent w = None then w\<lparr>wr_sent := Some (code, wr_header w)\<rparr> else w)"

definition body_allowed :: "int \<Rightarrow> bool" where
  "body_allowed status \<longleftrightarrow> status \<noteq> 204 \<and> status \<noteq> 304"

definition write_bytes :: "string \<Rightarrow> writer \<Rightarrow> nat \<times> writer" where
  "write_bytes b w0 =
     (let w = write_header 200 w0 in
      case wr_sent w of
        Some (status, hs) \<Rightarrow> if body_allowed status
          then (length b, w\<lparr>wr_written := wr_written w + length b, wr_body := (if wr_head w then wr_body w else wr_body w @ b)\<rparr>)
          else (0, w)
      | None \<Rightarrow> (0, w))"

fun do_call :: "call \<Rightarrow> writer \<Rightarrow> writer" where
  "do_call (CallSet k v) w = w\<lparr>wr_header := AList.update k v (wr_header w)\<rparr>"
| "do_call (CallDel k) w = w\<lparr>wr_header := AList.delete k (wr_header w)\<rparr>"
| "do_call (CallHeader code) w = write_header code w"
| "do_call (CallWrite b) w = snd (write_bytes b w)"
| "do_call (CallPanic v) w = w"

text \<open>The calls up to a panic, and its value.\<close>

fun until_panic :: "call list \<Rightarrow> call list" where
  "until_panic [] = []"
| "until_panic (CallPanic v # cs) = []"
| "until_panic (c # cs) = c # until_panic cs"

fun panic_of :: "call list \<Rightarrow> string option" where
  "panic_of [] = None"
| "panic_of (CallPanic v # cs) = Some v"
| "panic_of (c # cs) = panic_of cs"

definition exec_calls :: "call list \<Rightarrow> writer \<Rightarrow> writer" where
  "exec_calls cs w = fold do_call (until_panic cs) w"

text \<open>What the client gets: a handler that returns without sending anything has sent 200.\<close>

definition finish :: "writer \<Rightarrow> writer" where
  "finish w = write_header 200 w"

definition error_calls :: "string \<Rightarrow> int \<Rightarrow> call list" where
  "error_calls msg code =
     [CallDel ''Content-Length'', CallSet ''Content-Type'' ''text/plain; charset=utf-8'',
      CallSet ''X-Content-Type-Options'' ''nosniff'', CallHeader code, CallWrite (msg @ [CHR 0x0A])]"

section \<open>Logging\<close>

datatype log_level = LevelDebug | LevelInfo | LevelWarn | LevelError

definition level_of :: "string \<Rightarrow> log_level" where
  "level_of level =
     (let l = to_lower level in
      if l = ''debug'' then LevelDebug else if l = ''warn'' then LevelWarn
      else if l = ''error'' then LevelError else LevelInfo)"

fun level_rank :: "log_level \<Rightarrow> int" where
  "level_rank LevelDebug = -4"
| "level_rank LevelInfo = 0"
| "level_rank LevelWarn = 4"
| "level_rank LevelError = 8"

text \<open>Levels are ordered by their numbers, as in log/slog.\<close>

instantiation log_level :: linorder
begin

definition less_eq_log_level :: "log_level \<Rightarrow> log_level \<Rightarrow> bool" where
  "less_eq_log_level l m \<longleftrightarrow> level_rank l \<le> level_rank m"

definition less_log_level :: "log_level \<Rightarrow> log_level \<Rightarrow> bool" where
  "less_log_level l m \<longleftrightarrow> level_rank l < level_rank m"

instance
proof
  fix l m :: log_level
  assume "l \<le> m" "m \<le> l"
  then show "l = m" by (cases l; cases m) (simp_all add: less_eq_log_level_def)
qed (auto simp: less_eq_log_level_def less_log_level_def)

end

lemmas log_level_order = less_eq_log_level_def less_log_level_def

definition log_enabled :: "log_level \<Rightarrow> log_level \<Rightarrow> bool" where
  "log_enabled lvl l \<longleftrightarrow> lvl \<le> l"

text \<open>The two values of a context, empty when absent, and the attributes they give a logger.\<close>

record log_context =
  lc_requestID :: string
  lc_sessionID :: string

definition WithRequestID :: "log_context \<Rightarrow> string \<Rightarrow> log_context" where
  "WithRequestID ctx i = ctx\<lparr>lc_requestID := i\<rparr>"

definition WithSessionID :: "log_context \<Rightarrow> string \<Rightarrow> log_context" where
  "WithSessionID ctx i = ctx\<lparr>lc_sessionID := i\<rparr>"

definition FromContext :: "log_context \<Rightarrow> (string \<times> string) list \<Rightarrow> (string \<times> string) list" where
  "FromContext ctx base =
     (let l = (if lc_requestID ctx \<noteq> [] then base @ [(''request_id'', lc_requestID ctx)] else base)
      in if lc_sessionID ctx \<noteq> [] then l @ [(''session_id'', lc_sessionID ctx)] else l)"

definition hex_lower :: "nat \<Rightarrow> char" where
  "hex_lower n = (if n < 10 then char_of (48 + n) else char_of (87 + n))"

definition hex_encode :: "string \<Rightarrow> string" where
  "hex_encode bs = concat (map (\<lambda>c. [hex_lower (of_char c div 16), hex_lower (of_char c mod 16)]) bs)"

text \<open>\<open>rand\<close>: the eight random bytes, or \<open>None\<close> when reading them fails; \<open>stamp\<close>: the time as \<open>150405.000000\<close>.\<close>

definition newRequestID :: "string option \<Rightarrow> string \<Rightarrow> string" where
  "newRequestID rand stamp = (case rand of Some b \<Rightarrow> hex_encode b | None \<Rightarrow> filter (\<lambda>c. c \<noteq> dot) stamp)"

datatype log_line =
    AccessLine (al_id: string) (al_method: string) (al_path: string) (al_status: int) (al_bytes: int)
  | PanicLine (pl_attrs: "(string \<times> string) list") (pl_method: string) (pl_path: string) (pl_value: string)

section \<open>The recorder of the access log\<close>

record recorder =
  rc_writer :: writer
  rc_status :: int
  rc_written :: int

definition new_recorder :: "writer \<Rightarrow> recorder" where
  "new_recorder w = \<lparr>rc_writer = w, rc_status = 200, rc_written = 0\<rparr>"

fun rec_call :: "call \<Rightarrow> recorder \<Rightarrow> recorder" where
  "rec_call (CallHeader code) r = r\<lparr>rc_status := code, rc_writer := write_header code (rc_writer r)\<rparr>"
| "rec_call (CallWrite b) r =
     (case write_bytes b (rc_writer r) of (n, w) \<Rightarrow> r\<lparr>rc_written := rc_written r + int n, rc_writer := w\<rparr>)"
| "rec_call c r = r\<lparr>rc_writer := do_call c (rc_writer r)\<rparr>"

definition rec_calls :: "call list \<Rightarrow> recorder \<Rightarrow> recorder" where
  "rec_calls cs r = fold rec_call (until_panic cs) r"

section \<open>The middleware\<close>

text \<open>A handler: the calls it makes, the lines it logs and the state it leaves.\<close>

type_synonym 'w layer = "request \<Rightarrow> log_context \<Rightarrow> 'w \<Rightarrow> call list \<times> log_line list \<times> 'w"

definition SecurityHeaders :: "'w layer \<Rightarrow> 'w layer" where
  "SecurityHeaders next_handler r ctx w =
     (case next_handler r ctx w of
        (cs, ls, w') \<Rightarrow> (map (\<lambda>(k, v). CallSet k v) security_headers @ cs, ls, w'))"

text \<open>The deferred function of \<open>Recoverer\<close> runs when the handler has panicked.\<close>

definition Recoverer :: "'w layer \<Rightarrow> 'w layer" where
  "Recoverer next_handler r ctx w =
     (case next_handler r ctx w of
        (cs, ls, w') \<Rightarrow>
          (case panic_of cs of
             None \<Rightarrow> (cs, ls, w')
           | Some v \<Rightarrow>
               (until_panic cs @ error_calls ''internal error'' 500,
                ls @ [PanicLine (FromContext ctx []) (rq_method r) (rq_path r) v], w')))"

text \<open>
  \<open>AccessLog\<close> with the level of its logger. The writer it wraps has sent nothing: only the security
  headers are set before it. A panic that goes through it leaves no line.
\<close>

definition is_probe :: "string \<Rightarrow> bool" where
  "is_probe path \<longleftrightarrow> path = ''/healthz'' \<or> path = ''/readyz''"

definition request_id_of :: "string \<Rightarrow> request \<Rightarrow> string" where
  "request_id_of fresh r =
     (let i = HeaderGet r ''X-Request-Id'' in if i = [] then fresh else i)"

definition AccessLog :: "log_level \<Rightarrow> string \<Rightarrow> 'w layer \<Rightarrow> 'w layer" where
  "AccessLog lvl fresh next_handler r ctx w =
     (if is_probe (rq_path r) then next_handler r ctx w
      else (let reqID = request_id_of fresh r in
            case next_handler r (WithRequestID ctx reqID) w of
              (cs, ls, w') \<Rightarrow>
                (let ww = rec_calls cs (new_recorder (do_call (CallSet ''X-Request-Id'' reqID) (new_writer (rq_method r)))) in
                 (CallSet ''X-Request-Id'' reqID # cs,
                  ls @ (if panic_of cs = None \<and> log_enabled lvl LevelInfo
                        then [AccessLine reqID (rq_method r) (rq_path r) (rc_status ww) (rc_written ww)] else []),
                  w'))))"

section \<open>The program's handler\<close>

text \<open>
  The calls that write a response of the router: its headers, its cookies (at most one, whose
  serialisation is a parameter), the status and the body, rendered by \<open>render\<close>. How the body is cut into writes, and
  that a status of 200 is often left to the first write, makes no difference to what follows.
\<close>

definition response_calls :: "(set_cookie \<Rightarrow> string) \<Rightarrow> ('p \<Rightarrow> string) \<Rightarrow> 'p response \<Rightarrow> call list" where
  "response_calls cookie_str render res =
     map (\<lambda>(k, v). CallSet k v) (rs_header res) @
     map (\<lambda>c. CallSet ''Set-Cookie'' (cookie_str c)) (rs_cookies res) @
     [CallHeader (rs_status res)] @
     (case rs_body res of NoBody \<Rightarrow> [] | Text t \<Rightarrow> [CallWrite t] | Page p \<Rightarrow> [CallWrite (render p)])"

definition router_layer ::
  "(set_cookie \<Rightarrow> string) \<Rightarrow> (page \<Rightarrow> string) \<Rightarrow> server \<Rightarrow> outside \<Rightarrow> server_state layer" where
  "router_layer cookie_str render s x r ctx w =
     (case serve s x r w of (res, w') \<Rightarrow> (response_calls cookie_str render res, [], w'))"

text \<open>
  The mux of main: the metrics handler's calls are a parameter. A path that is not clean is answered
  by the mux itself, before any middleware.
\<close>

definition program_handler ::
  "log_level \<Rightarrow> string \<Rightarrow> (set_cookie \<Rightarrow> string) \<Rightarrow> (page \<Rightarrow> string) \<Rightarrow> call list \<Rightarrow> server \<Rightarrow> outside \<Rightarrow> server_state layer" where
  "program_handler lvl fresh cookie_str render metrics s x r ctx w =
     (if mux_clean (rq_path r) \<noteq> rq_path r
      then (response_calls cookie_str render (mux_redirect r (mux_clean (rq_path r))), [], w)
      else if rq_path r = ''/metrics'' then (metrics, [], w)
      else SecurityHeaders (AccessLog lvl fresh (Recoverer (router_layer cookie_str render s x))) r ctx w)"

definition served :: "string \<Rightarrow> call list \<Rightarrow> writer" where
  "served method cs = finish (exec_calls cs (new_writer method))"

section \<open>Lemmas about call lists\<close>

lemma until_panic_append:
  "until_panic (cs @ ds) = (if panic_of cs = None then cs @ until_panic ds else until_panic cs)"
  by (induction cs rule: until_panic.induct) auto

lemma panic_of_append: "panic_of (cs @ ds) = (case panic_of cs of None \<Rightarrow> panic_of ds | Some v \<Rightarrow> Some v)"
  by (induction cs rule: until_panic.induct) auto

lemma until_panic_id: "panic_of cs = None \<Longrightarrow> until_panic cs = cs"
  using until_panic_append [of cs "[]"] by simp

lemma panic_of_until_panic [simp]: "panic_of (until_panic cs) = None"
  by (induction cs rule: until_panic.induct) auto

lemma panic_free: "(\<forall>v. CallPanic v \<notin> set cs) \<Longrightarrow> panic_of cs = None"
  by (induction cs rule: until_panic.induct) auto

lemma panic_of_sets [simp]: "panic_of (map (\<lambda>(k, v). CallSet k v) kvs) = None"
  by (rule panic_free) auto

lemma panic_of_error [simp]: "panic_of (error_calls msg code) = None"
  by (simp add: error_calls_def)

lemma panic_of_response [simp]: "panic_of (response_calls cs render res) = None"
  by (rule panic_free) (auto simp: response_calls_def split: body.splits)

lemma exec_append: "panic_of cs = None \<Longrightarrow> exec_calls (cs @ ds) w = exec_calls ds (exec_calls cs w)"
  by (simp add: exec_calls_def until_panic_append until_panic_id)

lemma exec_simps [simp]:
  "exec_calls [] w = w"
  "exec_calls (CallSet k v # cs) w = exec_calls cs (do_call (CallSet k v) w)"
  "exec_calls (CallDel k # cs) w = exec_calls cs (do_call (CallDel k) w)"
  "exec_calls (CallHeader code # cs) w = exec_calls cs (write_header code w)"
  "exec_calls (CallWrite b # cs) w = exec_calls cs (snd (write_bytes b w))"
  "exec_calls (CallPanic v # cs) w = w"
  by (simp_all add: exec_calls_def)

lemma exec_until_panic [simp]: "exec_calls (until_panic cs) w = exec_calls cs w"
  by (simp add: exec_calls_def until_panic_id)

text \<open>The recorder forwards every call: what it wraps ends as without it.\<close>

lemma rec_call_refines: "rc_writer (rec_call c r) = do_call c (rc_writer r)"
  by (cases c) (auto split: prod.splits)

lemma rec_calls_refines: "rc_writer (rec_calls cs r) = exec_calls cs (rc_writer r)"
proof -
  have "rc_writer (fold rec_call cs r) = fold do_call cs (rc_writer r)" for cs
    by (induction cs arbitrary: r) (simp_all add: rec_call_refines)
  then show ?thesis by (simp add: rec_calls_def exec_calls_def)
qed

text \<open>The bytes it counts are those that are written, which but for HEAD are those of the body.\<close>

lemma rec_call_bytes:
  "rc_written (rec_call c r) + int (wr_written (rc_writer r)) = rc_written r + int (wr_written (rc_writer (rec_call c r)))"
  by (cases c) (auto simp: write_bytes_def write_header_def Let_def split: prod.splits option.splits if_splits)

lemma rec_calls_bytes:
  "rc_written (rec_calls cs r) + int (wr_written (rc_writer r)) = rc_written r + int (wr_written (rc_writer (rec_calls cs r)))"
proof -
  have "rc_written (fold rec_call cs r) + int (wr_written (rc_writer r)) =
      rc_written r + int (wr_written (rc_writer (fold rec_call cs r)))" for cs
  proof (induction cs arbitrary: r)
    case (Cons c cs)
    show ?case using Cons.IH [of "rec_call c r"] rec_call_bytes [of c r] by simp
  qed simp
  then show ?thesis by (simp add: rec_calls_def)
qed

definition counts_body :: "writer \<Rightarrow> bool" where
  "counts_body w \<longleftrightarrow> (if wr_head w then wr_body w = [] else wr_written w = length (wr_body w))"

lemma do_call_body: "counts_body w \<Longrightarrow> counts_body (do_call c w) \<and> wr_head (do_call c w) = wr_head w"
  by (cases c) (auto simp: counts_body_def write_bytes_def write_header_def Let_def split: option.splits)

lemma served_body:
  "if m = ''HEAD'' then wr_body (served m cs) = [] else wr_written (served m cs) = length (wr_body (served m cs))"
proof -
  have "counts_body w \<Longrightarrow> counts_body (fold do_call cs w) \<and> wr_head (fold do_call cs w) = wr_head w" for cs w
    by (induction cs arbitrary: w) (simp_all add: do_call_body)
  moreover have "counts_body (new_writer m)" "wr_head (new_writer m) = (m = ''HEAD'')"
    by (simp_all add: counts_body_def new_writer_def)
  ultimately have "counts_body (exec_calls cs (new_writer m))" "wr_head (exec_calls cs (new_writer m)) = (m = ''HEAD'')"
    unfolding exec_calls_def by blast+
  then show ?thesis by (auto simp: served_def finish_def counts_body_def write_header_def split: if_splits)
qed

text \<open>A header that is set to \<open>v\<close>, also in what has been sent, and calls that leave it so.\<close>

definition shows_header :: "string \<Rightarrow> string \<Rightarrow> writer \<Rightarrow> bool" where
  "shows_header k v w \<longleftrightarrow>
     map_of (wr_header w) k = Some v \<and> (case wr_sent w of None \<Rightarrow> True | Some (st, h) \<Rightarrow> map_of h k = Some v)"

definition keeps_header :: "string \<Rightarrow> string \<Rightarrow> call list \<Rightarrow> bool" where
  "keeps_header k v cs \<longleftrightarrow> CallDel k \<notin> set cs \<and> (\<forall>v'. CallSet k v' \<in> set cs \<longrightarrow> v' = v)"

lemma write_header_shows: "shows_header k v w \<Longrightarrow> shows_header k v (write_header code w)"
  by (auto simp: shows_header_def write_header_def)

lemma write_bytes_shows: "shows_header k v w \<Longrightarrow> shows_header k v (snd (write_bytes b w))"
  by (auto simp: shows_header_def write_bytes_def write_header_def Let_def split: option.splits)

lemma do_call_shows:
  assumes "keeps_header k v [c]" "shows_header k v w"
  shows "shows_header k v (do_call c w)"
proof (cases c)
  case (CallSet k' v')
  then show ?thesis using assms by (auto simp: shows_header_def keeps_header_def find_simps)
next
  case (CallDel k')
  then show ?thesis using assms by (auto simp: shows_header_def keeps_header_def find_simps)
qed (use assms(2) write_header_shows write_bytes_shows in simp_all)

lemma keeps_header_Cons: "keeps_header k v (c # cs) \<longleftrightarrow> keeps_header k v [c] \<and> keeps_header k v cs"
  by (auto simp: keeps_header_def)

lemma keeps_header_append: "keeps_header k v (cs @ ds) \<longleftrightarrow> keeps_header k v cs \<and> keeps_header k v ds"
  by (auto simp: keeps_header_def)

lemma set_until_panic: "set (until_panic cs) \<subseteq> set cs"
  by (induction cs rule: until_panic.induct) auto

lemma keeps_until_panic: "keeps_header k v cs \<Longrightarrow> keeps_header k v (until_panic cs)"
  using set_until_panic unfolding keeps_header_def by blast

lemma exec_shows:
  assumes "keeps_header k v cs" "shows_header k v w"
  shows "shows_header k v (exec_calls cs w)"
proof -
  have "keeps_header k v ds \<Longrightarrow> shows_header k v w \<Longrightarrow> shows_header k v (fold do_call ds w)" for ds
  proof (induction ds arbitrary: w)
    case (Cons c ds)
    have "keeps_header k v [c]" "keeps_header k v ds" using Cons.prems(1) keeps_header_Cons by blast+
    then show ?case using Cons.IH do_call_shows [OF _ Cons.prems(2)] by simp
  qed simp
  then show ?thesis using assms keeps_until_panic unfolding exec_calls_def by blast
qed

lemma finish_shows:
  "shows_header k v w \<Longrightarrow> \<exists>st hs. wr_sent (finish w) = Some (st, hs) \<and> map_of hs k = Some v"
  by (cases "wr_sent w") (auto simp: shows_header_def finish_def write_header_def)

text \<open>
  The status the client gets is that of the first call that sends something; the recorder has that
  of the last WriteHeader.
\<close>

fun first_status :: "call list \<Rightarrow> int" where
  "first_status [] = 200"
| "first_status (CallHeader code # cs) = code"
| "first_status (CallWrite b # cs) = 200"
| "first_status (c # cs) = first_status cs"

fun last_status :: "int \<Rightarrow> call list \<Rightarrow> int" where
  "last_status st [] = st"
| "last_status st (CallHeader code # cs) = last_status code cs"
| "last_status st (c # cs) = last_status st cs"

fun starts :: "call list \<Rightarrow> bool" where
  "starts [] \<longleftrightarrow> False"
| "starts (CallHeader code # cs) \<longleftrightarrow> True"
| "starts (CallWrite b # cs) \<longleftrightarrow> True"
| "starts (c # cs) \<longleftrightarrow> starts cs"

lemma first_status_append: "first_status (cs @ ds) = (if starts cs then first_status cs else first_status ds)"
  by (induction cs rule: first_status.induct) auto

lemma last_status_append: "last_status st (cs @ ds) = last_status (last_status st cs) ds"
  by (induction st cs rule: last_status.induct) auto

lemma first_status_until_panic: "first_status (until_panic cs) = (if panic_of cs = None then first_status cs else first_status (until_panic cs))"
  by (simp add: until_panic_id)

lemma write_bytes_sent: "wr_sent w = Some x \<Longrightarrow> wr_sent (snd (write_bytes b w)) = Some x"
  by (simp add: write_bytes_def write_header_def Let_def split: prod.splits)

lemma do_call_sent: "wr_sent w = Some x \<Longrightarrow> wr_sent (do_call c w) = Some x"
  by (cases c) (simp_all add: write_header_def write_bytes_sent)

lemma exec_sent: "wr_sent w = Some x \<Longrightarrow> wr_sent (finish (exec_calls cs w)) = Some x"
proof -
  have "wr_sent w = Some x \<Longrightarrow> wr_sent (fold do_call cs w) = Some x" for cs
    by (induction cs arbitrary: w) (simp_all add: do_call_sent)
  then show "wr_sent w = Some x \<Longrightarrow> ?thesis" by (simp add: exec_calls_def finish_def write_header_def)
qed

lemma write_bytes_sends:
  "wr_sent w = None \<Longrightarrow> wr_sent (snd (write_bytes b w)) = Some (200, wr_header w)"
  by (simp add: write_bytes_def write_header_def Let_def)

lemma exec_status:
  "wr_sent w = None \<Longrightarrow> \<exists>hs. wr_sent (finish (exec_calls cs w)) = Some (first_status (until_panic cs), hs)"
proof (induction cs arbitrary: w rule: until_panic.induct [case_names nil panic set_header del_header status body])
  case (status code cs)
  then show ?case using exec_sent [of "write_header code w"] by (simp add: write_header_def)
next
  case (body b cs)
  then show ?case using exec_sent [OF write_bytes_sends] by (simp del: split_paired_Ex)
qed (simp_all add: finish_def write_header_def)

lemma rec_status: "rc_status (rec_calls cs r) = last_status (rc_status r) (until_panic cs)"
proof -
  have "rc_status (fold rec_call cs r) = last_status (rc_status r) cs" for cs
    by (induction "rc_status r" cs arbitrary: r rule: last_status.induct) (simp_all split: prod.splits)
  then show ?thesis by (simp add: rec_calls_def)
qed

lemma response_status:
  "first_status (response_calls cs render res) = rs_status res" "last_status st (response_calls cs render res) = rs_status res"
proof -
  have "\<not> starts (map (\<lambda>(k, v). CallSet k v) kvs)" "last_status st (map (\<lambda>(k, v). CallSet k v) kvs) = st" for kvs st
    by (induction kvs) auto
  moreover have "\<not> starts (map (\<lambda>c. CallSet k (f c)) xs)" "last_status st (map (\<lambda>c. CallSet k (f c)) xs) = st"
    for k and f :: "set_cookie \<Rightarrow> string" and xs st
    by (induction xs) auto
  ultimately show "first_status (response_calls cs render res) = rs_status res"
    "last_status st (response_calls cs render res) = rs_status res"
    by (simp_all add: response_calls_def first_status_append last_status_append split: body.splits)
qed

text \<open>The chain of main, for any handler behind it that does not panic through the recoverer.\<close>

definition chain :: "log_level \<Rightarrow> string \<Rightarrow> 'w layer \<Rightarrow> 'w layer" where
  "chain lvl fresh h = SecurityHeaders (AccessLog lvl fresh (Recoverer h))"

lemma served_sets:
  "served m (map (\<lambda>(k, v). CallSet k v) kvs @ cs) = finish (exec_calls cs (exec_calls (map (\<lambda>(k, v). CallSet k v) kvs) (new_writer m)))"
  by (simp add: served_def exec_append)

lemma exec_sets_unsent: "wr_sent (exec_calls (map (\<lambda>(k, v). CallSet k v) kvs) w) = wr_sent w"
  by (induction kvs arbitrary: w) auto

lemma exec_sets_written: "wr_written (exec_calls (map (\<lambda>(k, v). CallSet k v) kvs) w) = wr_written w"
  by (induction kvs arbitrary: w) auto

lemma security_headers_set:
  "(k, v) \<in> set security_headers \<Longrightarrow> shows_header k v (exec_calls (map (\<lambda>(k, v). CallSet k v) security_headers) (new_writer m))"
  by (auto simp: security_headers_def shows_header_def new_writer_def)

text \<open>The recorder started on any writer that has sent nothing counts and records the same.\<close>

definition same_sent :: "writer \<Rightarrow> writer \<Rightarrow> bool" where
  "same_sent w w' \<longleftrightarrow> map_option fst (wr_sent w) = map_option fst (wr_sent w') \<and> wr_written w = wr_written w'"

lemma do_call_same_sent: "same_sent w w' \<Longrightarrow> same_sent (do_call c w) (do_call c w')"
  by (cases c) (auto simp: same_sent_def write_bytes_def write_header_def Let_def split: option.splits)

lemma exec_same_sent: "same_sent w w' \<Longrightarrow> same_sent (exec_calls cs w) (exec_calls cs w')"
proof -
  have "same_sent w w' \<Longrightarrow> same_sent (fold do_call cs w) (fold do_call cs w')" for cs
    by (induction cs arbitrary: w w') (simp_all add: do_call_same_sent)
  then show "same_sent w w' \<Longrightarrow> ?thesis" by (simp add: exec_calls_def)
qed

lemma Recoverer_panic_free [simp]: "panic_of (fst (Recoverer h r ctx w)) = None"
  by (auto simp: Recoverer_def panic_of_append split: prod.splits option.splits)

lemma served_after_sets:
  assumes "panic_of cs = None" and out_def: "out = served m (map (\<lambda>(k, v). CallSet k v) kvs @ CallSet k0 v0 # cs)"
  shows "\<exists>hs. wr_sent out = Some (first_status cs, hs)"
    and "rc_written (rec_calls cs (new_recorder (do_call (CallSet k1 v1) (new_writer m)))) = int (wr_written out)"
proof -
  let ?w = "do_call (CallSet k0 v0) (exec_calls (map (\<lambda>(k, v). CallSet k v) kvs) (new_writer m))"
    and ?w' = "do_call (CallSet k1 v1) (new_writer m)"
  have out: "out = finish (exec_calls cs ?w)" unfolding out_def by (simp add: served_sets)
  have unsent: "wr_sent ?w = None" by (simp add: exec_sets_unsent) (simp add: new_writer_def)
  show "\<exists>hs. wr_sent out = Some (first_status cs, hs)"
    using exec_status [OF unsent, of cs] until_panic_id [OF assms(1)] by (simp add: out)
  have "same_sent ?w ?w'" using unsent by (simp add: same_sent_def exec_sets_written) (simp add: new_writer_def)
  then have "wr_written (exec_calls cs ?w) = wr_written (exec_calls cs ?w')"
    using exec_same_sent unfolding same_sent_def by blast
  moreover have "wr_written out = wr_written (exec_calls cs ?w)" by (simp add: out finish_def write_header_def)
  moreover have "rc_written (rec_calls cs (new_recorder ?w')) = int (wr_written (exec_calls cs ?w'))"
    using rec_calls_bytes [of cs "new_recorder ?w'"] rec_calls_refines [of cs "new_recorder ?w'"]
    by (simp add: new_recorder_def new_writer_def)
  ultimately show "rc_written (rec_calls cs (new_recorder ?w')) = int (wr_written out)" by simp
qed

text \<open>What the chain makes of a handler: its calls with the headers before them, and the access line.\<close>

lemma chain_eq:
  assumes "\<not> is_probe (rq_path r)" "Recoverer h r (WithRequestID ctx (request_id_of fresh r)) w = (cs, ls, w')"
  shows "chain lvl fresh h r ctx w =
    (map (\<lambda>(k, v). CallSet k v) security_headers @ CallSet ''X-Request-Id'' (request_id_of fresh r) # cs,
     ls @ (if log_enabled lvl LevelInfo
           then [AccessLine (request_id_of fresh r) (rq_method r) (rq_path r) (last_status 200 cs)
                  (rc_written (rec_calls cs (new_recorder (do_call (CallSet ''X-Request-Id'' (request_id_of fresh r)) (new_writer (rq_method r))))))]
           else []), w')"
proof -
  have "panic_of cs = None" using Recoverer_panic_free [of h r _ w] assms(2) by (metis fst_conv)
  then show ?thesis
    using assms by (simp add: chain_def SecurityHeaders_def AccessLog_def Let_def rec_status new_recorder_def until_panic_id)
qed

lemma chain_sent:
  assumes "\<not> is_probe (rq_path r)" "Recoverer h r (WithRequestID ctx (request_id_of fresh r)) w = (cs, ls, w')"
  shows "\<exists>hs. wr_sent (served (rq_method r) (fst (chain lvl fresh h r ctx w))) = Some (first_status cs, hs)"
    and "rc_written (rec_calls cs (new_recorder (do_call (CallSet ''X-Request-Id'' (request_id_of fresh r)) (new_writer (rq_method r))))) =
      int (wr_written (served (rq_method r) (fst (chain lvl fresh h r ctx w))))"
proof -
  have n: "panic_of cs = None" using Recoverer_panic_free [of h r _ w] assms(2) by (metis fst_conv)
  show "\<exists>hs. wr_sent (served (rq_method r) (fst (chain lvl fresh h r ctx w))) = Some (first_status cs, hs)"
    using served_after_sets(1) [OF n refl] by (simp add: chain_eq [OF assms])
  show "rc_written (rec_calls cs (new_recorder (do_call (CallSet ''X-Request-Id'' (request_id_of fresh r)) (new_writer (rq_method r))))) =
      int (wr_written (served (rq_method r) (fst (chain lvl fresh h r ctx w))))"
    using served_after_sets(2) [OF n refl] by (simp add: chain_eq [OF assms])
qed

section \<open>Headers of the router\<close>

lemma keeps_fixed:
  assumes "policy_ok plain_field res" "(k, v) \<in> set ((''X-Request-Id'', reqID) # security_headers)"
    and "k = ''X-Content-Type-Options'' \<longrightarrow> v = ''nosniff''"
  shows "keeps_header k v (response_calls cookie_str render res)"
proof -
  have k: "k \<in> set fixed_headers" using assms(2) by (force simp: fixed_headers_def)
  have "k \<noteq> ''Set-Cookie''" using k by (auto simp: fixed_headers_def security_headers_def)
  then show ?thesis
    using assms(1,3) k by (auto simp: keeps_header_def response_calls_def policy_ok_def plain_field_def split: body.splits)
qed

lemma program_handler_eq:
  assumes "mux_clean (rq_path r) = rq_path r" "rq_path r \<noteq> ''/metrics''"
  shows "program_handler lvl fresh cookie_str render metrics s x r ctx w = chain lvl fresh (router_layer cookie_str render s x) r ctx w"
  using assms by (simp add: program_handler_def chain_def)

lemma Recoverer_router:
  "Recoverer (router_layer cookie_str render s x) r ctx w =
     (response_calls cookie_str render (fst (serve s x r w)), [], snd (serve s x r w))"
  by (simp add: Recoverer_def router_layer_def split: prod.splits)

lemma security_headers_literal:
  "(''Strict-Transport-Security'', ''max-age=63072000; includeSubDomains'') \<in> set security_headers"
  "(''X-Content-Type-Options'', ''nosniff'') \<in> set security_headers"
  "(''X-Frame-Options'', ''DENY'') \<in> set security_headers"
  "(''Referrer-Policy'', ''strict-origin-when-cross-origin'') \<in> set security_headers"
  "(''Content-Security-Policy'',
    ''default-src 'self'; img-src 'self' data:; style-src 'self' 'unsafe-inline'; script-src 'self'; '' @
       ''base-uri 'self'; form-action 'self'; frame-ancestors 'none'' @ [CHR 0x27]) \<in> set security_headers"
  "(''Permissions-Policy'', ''geolocation=(), microphone=(), camera=()'') \<in> set security_headers"
  by (simp_all add: security_headers_def quoted_def)

text \<open>One of the headers in what is sent, whatever the router answers.\<close>

lemma security_header_sent:
  assumes "mux_clean (rq_path r) = rq_path r" "rq_path r \<noteq> ''/metrics''" "(k, v) \<in> set security_headers"
  shows "\<exists>st hs. wr_sent (served (rq_method r) (fst (program_handler lvl fresh cookie_str render metrics s x r ctx w))) = Some (st, hs) \<and>
    map_of hs k = Some v"
proof -
  let ?cs = "response_calls cookie_str render (fst (serve s x r w))"
  have kv: "k = ''X-Content-Type-Options'' \<longrightarrow> v = ''nosniff''" "k \<noteq> ''X-Request-Id''"
    using assms(3) by (auto simp: security_headers_def)
  have kept: "keeps_header k v ?cs" using keeps_fixed [OF plain_serve] assms(3) kv(1) by simp
  obtain cs where cs: "fst (program_handler lvl fresh cookie_str render metrics s x r ctx w) =
      map (\<lambda>(k, v). CallSet k v) security_headers @ cs" "keeps_header k v cs"
  proof (cases "is_probe (rq_path r)")
    case True
    show ?thesis
      by (rule that [of ?cs]) (use True kept in \<open>simp_all add: program_handler_eq [OF assms(1,2)] chain_def SecurityHeaders_def
          AccessLog_def Recoverer_router\<close>)
  next
    case False
    show ?thesis
      by (rule that [of "CallSet ''X-Request-Id'' (request_id_of fresh r) # ?cs"])
        (use kept kv(2) in \<open>simp_all add: program_handler_eq [OF assms(1,2)] chain_eq [OF False Recoverer_router] keeps_header_def\<close>)
  qed
  show ?thesis
    unfolding cs(1) served_sets by (rule finish_shows [OF exec_shows [OF cs(2) security_headers_set [OF assms(3)]]])
qed

text \<open>The bytes written do not depend on the method they answer.\<close>

lemma written_any_method: "wr_written (served m cs) = wr_written (served m' cs)"
proof -
  have "same_sent (new_writer m) (new_writer m')" by (simp add: same_sent_def new_writer_def)
  then have "same_sent (exec_calls cs (new_writer m)) (exec_calls cs (new_writer m'))" by (rule exec_same_sent)
  then show ?thesis by (simp add: served_def finish_def write_header_def same_sent_def)
qed

section \<open>Properties\<close>

text \<open>
  C30: every response of the program but that of the metrics endpoint and the mux's own redirect of an
  unclean path carries the six security headers with these values, error pages, redirects, downloads and
  probes included, whatever the handler behind them answers.
\<close>

theorem security_headers_everywhere:
  assumes "mux_clean (rq_path r) = rq_path r" "rq_path r \<noteq> ''/metrics''"
  shows "\<exists>st hs. wr_sent (served (rq_method r) (fst (program_handler lvl fresh cookie_str render metrics s x r ctx w))) = Some (st, hs) \<and>
    map_of hs ''Strict-Transport-Security'' = Some ''max-age=63072000; includeSubDomains'' \<and>
    map_of hs ''X-Content-Type-Options'' = Some ''nosniff'' \<and>
    map_of hs ''X-Frame-Options'' = Some ''DENY'' \<and>
    map_of hs ''Referrer-Policy'' = Some ''strict-origin-when-cross-origin'' \<and>
    map_of hs ''Content-Security-Policy'' = Some
      (''default-src 'self'; img-src 'self' data:; style-src 'self' 'unsafe-inline'; script-src 'self'; '' @
       ''base-uri 'self'; form-action 'self'; frame-ancestors 'none'' @ [CHR 0x27]) \<and>
    map_of hs ''Permissions-Policy'' = Some ''geolocation=(), microphone=(), camera=()''"
proof -
  note sent = security_header_sent [OF assms, of _ _ lvl fresh cookie_str render metrics s x ctx w]
  obtain st hs where out:
    "wr_sent (served (rq_method r) (fst (program_handler lvl fresh cookie_str render metrics s x r ctx w))) = Some (st, hs)"
    using sent [OF security_headers_literal(1)] by blast
  have "map_of hs k = Some v" if "(k, v) \<in> set security_headers" for k v using sent [OF that] out by auto
  from this [OF security_headers_literal(1)] this [OF security_headers_literal(2)] this [OF security_headers_literal(3)]
    this [OF security_headers_literal(4)] this [OF security_headers_literal(5)] this [OF security_headers_literal(6)]
  show ?thesis using out by blast
qed

theorem security_headers_everywhere_witness:
  "\<exists>st hs. wr_sent (served ''GET'' (fst (program_handler LevelInfo ''id'' ck_value (\<lambda>_. []) [] demo_site demo_outside
     (demo_request\<lparr>rq_path := ''/login''\<rparr>) \<lparr>lc_requestID = [], lc_sessionID = []\<rparr> demo_state))) = Some (st, hs) \<and>
     map_of hs ''X-Frame-Options'' = Some ''DENY''"
proof -
  let ?r = "demo_request\<lparr>rq_path := ''/login''\<rparr>"
  have "mux_clean ''/login'' = ''/login''" by code_simp
  then have r: "mux_clean (rq_path ?r) = rq_path ?r" "rq_path ?r \<noteq> ''/metrics''" "rq_method ?r = ''GET''"
    by (simp_all add: demo_request_def)
  show ?thesis
    using security_headers_everywhere [OF r(1,2), of LevelInfo "''id''" ck_value "\<lambda>_. []" "[]" demo_site demo_outside
        "\<lparr>lc_requestID = [], lc_sessionID = []\<rparr>" demo_state] unfolding r(3) by blast
qed



text \<open>
  C31: a panic of any handler stops at the recoverer: it is logged with the request's id and the
  handler's effects so far remain. If nothing had been sent the client gets status 500; otherwise it
  keeps the status already sent, while the access line says 500. Its byte count is that of the body the client
  gets, or for HEAD of the body it would have got.
\<close>

theorem panic_contained:
  assumes "\<not> is_probe (rq_path r)" "h r (WithRequestID ctx (request_id_of fresh r)) w = (cs, ls, w')"
    and "panic_of cs = Some v" "log_enabled lvl LevelInfo"
  shows "let out = chain lvl fresh h r ctx w; pre = until_panic cs;
      sent = served (rq_method r) (fst out); counted = (if rq_method r = ''HEAD'' then served ''GET'' (fst out) else sent) in
    panic_of (fst out) = None \<and> snd (snd out) = w' \<and>
    map_option fst (wr_sent sent) = Some (if starts pre then first_status pre else 500) \<and>
    fst (snd out) = ls @
      [PanicLine (FromContext (WithRequestID ctx (request_id_of fresh r)) []) (rq_method r) (rq_path r) v,
       AccessLine (request_id_of fresh r) (rq_method r) (rq_path r) 500 (int (length (wr_body counted)))]"
proof -
  let ?cs = "until_panic cs @ error_calls ''internal error'' 500" and ?out = "chain lvl fresh h r ctx w"
  have rec: "Recoverer h r (WithRequestID ctx (request_id_of fresh r)) w =
      (?cs, ls @ [PanicLine (FromContext (WithRequestID ctx (request_id_of fresh r)) []) (rq_method r) (rq_path r) v], w')"
    using assms(2,3) by (simp add: Recoverer_def)
  have "last_status 200 ?cs = 500" "first_status ?cs = (if starts (until_panic cs) then first_status (until_panic cs) else 500)"
    by (simp_all add: last_status_append first_status_append error_calls_def)
  moreover have "panic_of ?cs = None" by (simp add: panic_of_append)
  ultimately have res: "panic_of (fst ?out) = None \<and> snd (snd ?out) = w'"
    "map_option fst (wr_sent (served (rq_method r) (fst ?out))) = Some (if starts (until_panic cs) then first_status (until_panic cs) else 500)"
    "fst (snd ?out) = ls @
      [PanicLine (FromContext (WithRequestID ctx (request_id_of fresh r)) []) (rq_method r) (rq_path r) v,
       AccessLine (request_id_of fresh r) (rq_method r) (rq_path r) 500 (int (wr_written (served (rq_method r) (fst ?out))))]"
    using chain_sent [OF assms(1) rec, of lvl] assms(4) by (auto simp: chain_eq [OF assms(1) rec] panic_of_append)
  have "wr_written (served (rq_method r) (fst ?out)) =
      length (wr_body (if rq_method r = ''HEAD'' then served ''GET'' (fst ?out) else served (rq_method r) (fst ?out)))"
    using written_any_method [of "rq_method r" "fst ?out" "''GET''"] served_body [of "''GET''" "fst ?out"]
      served_body [of "rq_method r" "fst ?out"] by auto
  then show ?thesis using res unfolding Let_def by metis
qed

theorem panic_contained_witness:
  "fst (snd (chain LevelInfo ''id'' (\<lambda>r ctx w. ([CallWrite ''half'', CallPanic ''nil map''], [], w)) demo_request
     \<lparr>lc_requestID = [], lc_sessionID = []\<rparr> ())) =
   [PanicLine [(''request_id'', ''id'')] ''GET'' ''/'' ''nil map'', AccessLine ''id'' ''GET'' ''/'' 500 19]"
proof -
  let ?h = "\<lambda>r ctx w. ([CallWrite ''half'', CallPanic ''nil map''], [], w) :: call list \<times> log_line list \<times> unit"
    and ?ctx = "\<lparr>lc_requestID = [], lc_sessionID = []\<rparr>"
  have i: "request_id_of ''id'' demo_request = ''id''" "rq_method demo_request = ''GET''" "rq_path demo_request = ''/''"
    by (simp_all add: request_id_of_def HeaderGet_def first_value_def demo_request_def)
  have "length (wr_body (served ''GET'' (fst (chain LevelInfo ''id'' ?h demo_request ?ctx ())))) = 19"
    by code_simp
  then show ?thesis
    using panic_contained [of demo_request ?h ?ctx "''id''" "()" "[CallWrite ''half'', CallPanic ''nil map'']" "[]" "()" "''nil map''" LevelInfo]
    by (simp add: i Let_def is_probe_def log_enabled_def log_level_order FromContext_def WithRequestID_def)
qed

end
