(* ===== verification/Config.thy ===== *)
theory Config
  imports Auth
begin

text \<open>
  internal/config/config.go: the configuration read from the environment, with Go's
  \<open>time.ParseDuration\<close>, whose fractions are truncated exactly here and through a float64 in Go.
\<close>

section \<open>Durations\<close>

definition micro_1 :: string where "micro_1 = [CHR 0xC2, CHR 0xB5, CHR ''s'']"
definition micro_2 :: string where "micro_2 = [CHR 0xCE, CHR 0xBC, CHR ''s'']"

definition duration_unit :: "string \<Rightarrow> int option" where
  "duration_unit w =
     map_of [(''ns'', 1), (''us'', 1000), (micro_1, 1000), (micro_2, 1000), (''ms'', Millisecond),
             (''s'', Second), (''m'', Minute), (''h'', Hour)] w"

text \<open>The value of a run of digits; \<open>leadingInt\<close> refuses one above \<open>2^63\<close>.\<close>

definition digit_val :: "char \<Rightarrow> int" where
  "digit_val c = int (of_char c) - 48"

definition digits_int :: "string \<Rightarrow> int" where
  "digits_int ds = foldl (\<lambda>acc c. 10 * acc + digit_val c) 0 ds"

definition two63 :: int where
  "two63 = 9223372036854775808"

definition not_unit :: "char \<Rightarrow> bool" where
  "not_unit c \<longleftrightarrow> c = dot \<or> is_digit c"

text \<open>
  The loop over the groups of a number and a unit, with the nanoseconds so far. Digits of a fraction
  past the point where its value no longer fits are dropped, as \<open>leadingFraction\<close> does.
\<close>

fun fraction_value :: "int \<Rightarrow> int \<Rightarrow> string \<Rightarrow> int \<times> int" where
  "fraction_value f scale [] = (f, scale)"
| "fraction_value f scale (c # cs) =
     (let y = 10 * f + digit_val c in
      if f > max_i64 div 10 \<or> y > two63 then (f, scale) else fraction_value y (10 * scale) cs)"

lemma dropWhile_length_le: "length (dropWhile P s) \<le> length s"
  by (induction s) auto

function duration_loop :: "int \<Rightarrow> string \<Rightarrow> int option" where
  "duration_loop d s =
     (if s = [] then Some d
      else (let int_part = takeWhile is_digit s;
                s1 = dropWhile is_digit s;
                has_dot = (s1 \<noteq> [] \<and> hd s1 = dot);
                frac = (if has_dot then takeWhile is_digit (tl s1) else []);
                s2 = (if has_dot then dropWhile is_digit (tl s1) else s1);
                unit_name = takeWhile (\<lambda>c. \<not> not_unit c) s2;
                s3 = dropWhile (\<lambda>c. \<not> not_unit c) s2;
                v = digits_int int_part
            in if int_part = [] \<and> frac = [] \<or> unit_name = [] \<or> v > two63 then None
               else (case duration_unit unit_name of
                       None \<Rightarrow> None
                     | Some unit \<Rightarrow>
                         (if v > two63 div unit then None
                          else (let fs = fraction_value 0 1 frac;
                                    v' = v * unit + fst fs * unit div snd fs
                                in if v' > two63 \<or> d + v' > two63 then None
                                   else duration_loop (d + v') s3)))))"
  by pat_completeness auto

termination
proof (relation "measure (\<lambda>(d, s). length s)")
  fix d and s int_part s1 :: string and has_dot and frac s2 unit_name s3 v unit fs v'
  assume a: "s \<noteq> []" "s1 = dropWhile is_digit s"
    "s2 = (if has_dot then dropWhile is_digit (tl s1) else s1)" "unit_name = takeWhile (\<lambda>c. \<not> not_unit c) s2"
    "s3 = dropWhile (\<lambda>c. \<not> not_unit c) s2"
    "\<not> (int_part = [] \<and> frac = [] \<or> unit_name = [] \<or> v > two63)"
  have "length s2 \<le> length s"
    using a(2,3) dropWhile_length_le [of is_digit s] dropWhile_length_le [of is_digit "tl s1"] by auto
  moreover have "length s3 < length s2"
    using a(4-6) dropWhile_length_le [of "\<lambda>c. \<not> not_unit c" "tl s2"] by (cases s2) auto
  ultimately show "((d + v', s3), d, s) \<in> measure (\<lambda>(d, s). length s)" by simp
qed simp

declare duration_loop.simps [simp del]

definition parse_duration :: "string \<Rightarrow> duration option" where
  "parse_duration s =
     (let neg = (s \<noteq> [] \<and> hd s = CHR ''-'');
          t = (if s \<noteq> [] \<and> (hd s = CHR ''-'' \<or> hd s = CHR ''+'') then tl s else s)
      in if t = ''0'' then Some 0
         else if t = [] then None
         else (case duration_loop 0 t of
                 None \<Rightarrow> None
               | Some d \<Rightarrow> if neg then Some (- d) else if d > max_i64 then None else Some d))"

section \<open>Loading\<close>

record config =
  cf_listen :: string
  cf_port :: int
  cf_username :: string
  cf_password :: string
  cf_cookieSecret :: string
  cf_sessionCookieName :: string
  cf_sessionTTL :: duration
  cf_sftpPoolTTL :: duration
  cf_sftpConnectTimeout :: duration
  cf_frsPort :: int
  cf_frsWaitTimeout :: duration
  cf_nsWhitelist :: "string list"
  cf_frsDefaultUsername :: string
  cf_keySecretName :: string
  cf_keySecretNamespace :: string
  cf_privateKeyField :: string
  cf_usernameField :: string
  cf_k8sInCluster :: bool
  cf_logLevel :: string

datatype config_error =
    BadInt string
  | BadDuration string
  | Required string
  | ShortSecret

type_synonym environment = "string \<Rightarrow> string option"

definition getenv :: "environment \<Rightarrow> string \<Rightarrow> string \<Rightarrow> string" where
  "getenv env key def = (case env key of Some v \<Rightarrow> if v \<noteq> [] then v else def | None \<Rightarrow> def)"

text \<open>\<open>os.Getenv\<close>.\<close>

definition os_getenv :: "environment \<Rightarrow> string \<Rightarrow> string" where
  "os_getenv env key = (case env key of Some v \<Rightarrow> v | None \<Rightarrow> [])"

definition int_env :: "environment \<Rightarrow> string \<Rightarrow> string \<Rightarrow> (config_error, int) result" where
  "int_env env key def = (case parse_int (getenv env key def) of None \<Rightarrow> Inl (BadInt key) | Some n \<Rightarrow> Inr n)"

definition duration_env :: "environment \<Rightarrow> string \<Rightarrow> string \<Rightarrow> (config_error, duration) result" where
  "duration_env env key def =
     (case parse_duration (getenv env key def) of None \<Rightarrow> Inl (BadDuration key) | Some d \<Rightarrow> Inr d)"

definition bind_result :: "('e, 'a) result \<Rightarrow> ('a \<Rightarrow> ('e, 'b) result) \<Rightarrow> ('e, 'b) result" where
  "bind_result r f = (case r of Inl e \<Rightarrow> Inl e | Inr x \<Rightarrow> f x)"

lemma bind_result_simps [simp]: "bind_result (Inl e) f = Inl e" "bind_result (Inr x) f = f x"
  by (simp_all add: bind_result_def)

lemma bind_result_Inr [simp]: "bind_result r f = Inr y \<longleftrightarrow> (\<exists>x. r = Inr x \<and> f x = Inr y)"
  by (cases r) auto

definition whitelist_env :: "environment \<Rightarrow> string list" where
  "whitelist_env env =
     (let ns = trim_space (getenv env ''HELPER_FRS_NAMESPACES'' []) in if ns \<noteq> [] then split_on (CHR '','') ns else [])"

definition Load :: "environment \<Rightarrow> (config_error, config) result" where
  "Load env =
     bind_result (int_env env ''HELPER_PORT'' ''8080'') (\<lambda>port.
     bind_result (duration_env env ''HELPER_SESSION_TTL'' ''8h'') (\<lambda>sessionTTL.
     bind_result (duration_env env ''HELPER_SFTP_TTL'' ''30m'') (\<lambda>poolTTL.
     bind_result (duration_env env ''HELPER_SFTP_TIMEOUT'' ''10s'') (\<lambda>connectTimeout.
     bind_result (duration_env env ''HELPER_FRS_WAIT_TIMEOUT'' ''120s'') (\<lambda>wait.
     bind_result (int_env env ''HELPER_FRS_PORT'' ''2222'') (\<lambda>frsPort.
     (let c = \<lparr>cf_listen = getenv env ''HELPER_LISTEN'' ''0.0.0.0'',
        cf_port = port,
        cf_username = os_getenv env ''HELPER_USERNAME'',
        cf_password = os_getenv env ''HELPER_PASSWORD'',
        cf_cookieSecret = os_getenv env ''HELPER_COOKIE_SECRET'',
        cf_sessionCookieName = getenv env ''HELPER_SESSION_COOKIE'' ''kfrs_sid'',
        cf_sessionTTL = sessionTTL,
        cf_sftpPoolTTL = poolTTL,
        cf_sftpConnectTimeout = connectTimeout,
        cf_frsPort = frsPort,
        cf_frsWaitTimeout = wait,
        cf_nsWhitelist = whitelist_env env,
        cf_frsDefaultUsername = getenv env ''HELPER_FRS_DEFAULT_USERNAME'' ''root'',
        cf_keySecretName = getenv env ''HELPER_PRIVATE_KEY_SECRET_NAME'' ''kasten-frs-helper-private-key'',
        cf_keySecretNamespace = getenv env ''HELPER_PRIVATE_KEY_SECRET_NAMESPACE'' ''kasten-io'',
        cf_privateKeyField = getenv env ''HELPER_PRIVATE_KEY_SECRET_FIELD'' ''ssh-privatekey'',
        cf_usernameField = getenv env ''HELPER_USERNAME_FIELD'' ''username'',
        cf_k8sInCluster = (getenv env ''HELPER_K8S_INCLUSTER'' ''true'' \<in> {''true'', ''1'', ''yes''}),
        cf_logLevel = getenv env ''HELPER_LOG_LEVEL'' ''info''\<rparr>
      in if cf_username c = [] then Inl (Required ''HELPER_USERNAME'')
         else if cf_password c = [] then Inl (Required ''HELPER_PASSWORD'')
         else if length (cf_cookieSecret c) < 16 then Inl ShortSecret
         else Inr c)))))))"

section \<open>Properties\<close>

lemma getenv_default: "def \<noteq> [] \<Longrightarrow> getenv env key def \<noteq> []"
  by (auto simp: getenv_def split: option.splits)

lemma Load_Inr:
  assumes "Load env = Inr c"
  shows "cf_username c \<noteq> []" "cf_password c \<noteq> []" "16 \<le> length (cf_cookieSecret c)"
    "cf_frsDefaultUsername c \<noteq> []" "cf_sessionCookieName c \<noteq> []"
  using assms by (auto simp: Load_def Let_def getenv_default split: if_splits)

lemma default_durations:
  "parse_duration ''8h'' = Some (8 * Hour)" "parse_duration ''30m'' = Some (30 * Minute)"
  "parse_duration ''10s'' = Some (10 * Second)" "parse_duration ''120s'' = Some (120 * Second)"
  "parse_duration ''1h15m30.918s'' = Some (4530918 * Millisecond)" "parse_duration ''-1.5h'' = Some (- 90 * Minute)"
  "parse_duration ''1'' = None" "parse_duration ''9223372036854775808ns'' = None" "parse_duration ''.s'' = None"
  by code_simp+

definition demo_env :: environment where
  "demo_env = map_of [(''HELPER_USERNAME'', ''admin''), (''HELPER_PASSWORD'', ''pw''),
                      (''HELPER_COOKIE_SECRET'', ''0123456789abcdef'')]"

text \<open>
  With only the account and a cookie secret of at least 16 bytes set, the configuration loads
  with the documented defaults; without one of them it does not load.
\<close>

lemma load_defaults:
  assumes "\<forall>key. key \<notin> {''HELPER_USERNAME'', ''HELPER_PASSWORD'', ''HELPER_COOKIE_SECRET''} \<longrightarrow> env key = None"
  shows "Load env =
    (if os_getenv env ''HELPER_USERNAME'' = [] then Inl (Required ''HELPER_USERNAME'')
     else if os_getenv env ''HELPER_PASSWORD'' = [] then Inl (Required ''HELPER_PASSWORD'')
     else if length (os_getenv env ''HELPER_COOKIE_SECRET'') < 16 then Inl ShortSecret
     else Inr \<lparr>cf_listen = ''0.0.0.0'', cf_port = 8080, cf_username = os_getenv env ''HELPER_USERNAME'',
       cf_password = os_getenv env ''HELPER_PASSWORD'', cf_cookieSecret = os_getenv env ''HELPER_COOKIE_SECRET'',
       cf_sessionCookieName = ''kfrs_sid'', cf_sessionTTL = 8 * Hour, cf_sftpPoolTTL = 30 * Minute,
       cf_sftpConnectTimeout = 10 * Second, cf_frsPort = 2222, cf_frsWaitTimeout = 120 * Second, cf_nsWhitelist = [],
       cf_frsDefaultUsername = ''root'', cf_keySecretName = ''kasten-frs-helper-private-key'',
       cf_keySecretNamespace = ''kasten-io'', cf_privateKeyField = ''ssh-privatekey'', cf_usernameField = ''username'',
       cf_k8sInCluster = True, cf_logLevel = ''info''\<rparr>)"
proof -
  have g: "getenv env key def = def"
    if "key \<notin> {''HELPER_USERNAME'', ''HELPER_PASSWORD'', ''HELPER_COOKIE_SECRET''}" for key def
    using assms that by (simp add: getenv_def)
  have ports: "parse_int ''8080'' = Some 8080" "parse_int ''2222'' = Some 2222" "trim_space [] = []"
    by code_simp+
  show ?thesis
    by (simp add: Load_def Let_def int_env_def duration_env_def whitelist_env_def g ports default_durations)
qed

lemma load_defaults_witness:
  "map_sum id cf_port (Load demo_env) = Inr 8080 \<and> cf_cookieSecret (case Load demo_env of Inr c \<Rightarrow> c) = ''0123456789abcdef''"
  by (subst (1 2) load_defaults) (simp_all add: demo_env_def os_getenv_def)

end
