(* ===== verification/Startup.thy ===== *)
theory Startup
  imports Config
begin

text \<open>
  internal/startup/preflight.go: the diagnostic that main runs before it loads the SSH key. Each
  check's log line is an event, each call to the outside is recorded with the deadline it is given;
  what the calls return is a parameter.
\<close>

section \<open>Helpers\<close>

datatype api_hint =
    HintTimeout
  | HintRefused
  | HintForbidden
  | HintUnauthorized
  | HintCertificate
  | HintNoSuchHost
  | HintUnclassified

definition classifyAPICallError :: "string \<Rightarrow> api_hint" where
  "classifyAPICallError s =
     (if contains s ''i/o timeout'' then HintTimeout
      else if contains s ''connection refused'' then HintRefused
      else if contains s ''forbidden'' \<or> contains s ''Forbidden'' then HintForbidden
      else if contains s ''Unauthorized'' \<or> contains s ''401'' then HintUnauthorized
      else if contains s ''x509'' \<or> contains s ''certificate'' then HintCertificate
      else if contains s ''no such host'' then HintNoSuchHost
      else HintUnclassified)"

definition quote_char :: char where
  "quote_char = CHR 0x22"

definition sa_key :: string where
  "sa_key = quote_char # ''kubernetes.io/serviceaccount.name'' @ [quote_char, CHR '':'', quote_char]"

text \<open>The name of the service account in a token file's content (\<open>None\<close>: it cannot be read).\<close>

definition name_in_payload :: "string \<Rightarrow> string" where
  "name_in_payload payload =
     (let i = index_of sa_key payload in
      if i \<ge> 0
      then (let rest = drop (nat i + length sa_key) payload; j = index_of [quote_char] rest in
            if j > 0 then take (nat j) rest else ''unknown'')
      else ''unknown'')"

definition readSANameFromToken :: "string option \<Rightarrow> string" where
  "readSANameFromToken file =
     (case file of
        None \<Rightarrow> ''unknown''
      | Some token \<Rightarrow>
          (case splitn_on 3 dot token of
             _ # part # _ \<Rightarrow> (case b64_decode part of None \<Rightarrow> ''unknown'' | Some payload \<Rightarrow> name_in_payload payload)
           | _ \<Rightarrow> ''unknown''))"

text \<open>\<open>net.JoinHostPort\<close>.\<close>

definition join_host_port :: "string \<Rightarrow> string \<Rightarrow> string" where
  "join_host_port host port =
     (if CHR '':'' \<in> set host then ''['' @ host @ '']:'' @ port else host @ '':'' @ port)"

section \<open>The preflight\<close>

text \<open>The options; the logger and the clientset are present or not.\<close>

record preflight_options =
  po_logger :: bool
  po_clientset :: bool
  po_namespace :: string
  po_secretName :: string
  po_serviceAccount :: string
  po_dialTimeout :: duration
  po_overallTimeout :: duration

definition preflight_defaults :: "string option \<Rightarrow> preflight_options \<Rightarrow> preflight_options" where
  "preflight_defaults token o0 =
     (let o1 = (if po_dialTimeout o0 = 0 then o0\<lparr>po_dialTimeout := 5 * Second\<rparr> else o0);
          o2 = (if po_overallTimeout o1 = 0 then o1\<lparr>po_overallTimeout := 30 * Second\<rparr> else o1);
          o3 = (if po_namespace o2 = [] then o2\<lparr>po_namespace := ''kasten-io''\<rparr> else o2);
          o4 = (if po_secretName o3 = [] then o3\<lparr>po_secretName := ''kasten-frs-helper-private-key''\<rparr> else o3)
      in if po_serviceAccount o4 = [] then o4\<lparr>po_serviceAccount := readSANameFromToken token\<rparr> else o4)"

text \<open>The calls, with the deadline of their context (\<open>VersionCall\<close> is given none).\<close>

datatype preflight_call =
    LookupCall duration
  | DialCall string duration
  | VersionCall
  | AccessCall string duration

text \<open>What the outside answers: addresses, the local address, the server's version, allowed or a reason.\<close>

record preflight_outside =
  px_env :: environment
  px_token :: "string option"
  px_lookup :: "string + string list"
  px_dial :: "string \<Rightarrow> string + string"
  px_version :: "string + string"
  px_access :: "string \<Rightarrow> string + bool \<times> string"

datatype preflight_event =
    PreflightStart string string string
  | ConfigNoEnv
  | ConfigHost string string
  | DnsFailed string
  | DnsOk "string list"
  | TcpSkipped
  | TcpFailed string string
  | TcpOk string string
  | ClientsetSkipped
  | DiscoveryFailed string api_hint
  | DiscoveryOk string
  | AccessFailed string string
  | AccessAllowed string
  | AccessDenied string string
  | PreflightDone

definition check_config :: "string \<Rightarrow> string \<Rightarrow> preflight_event" where
  "check_config host port = (if host = [] then ConfigNoEnv else ConfigHost host port)"

definition check_dns :: "string + string list \<Rightarrow> preflight_event" where
  "check_dns r = (case r of Inl e \<Rightarrow> DnsFailed e | Inr addrs \<Rightarrow> DnsOk addrs)"

text \<open>The address to dial; on a failed lookup \<open>addrs\<close> is empty.\<close>

definition dial_addr :: "string \<Rightarrow> string \<Rightarrow> string list \<Rightarrow> string" where
  "dial_addr host port addrs =
     (if host = [] \<and> length addrs > 0 then join_host_port (hd addrs) port else join_host_port host port)"

definition check_tcp :: "(string \<Rightarrow> string + string) \<Rightarrow> string \<Rightarrow> duration \<Rightarrow> preflight_event \<times> preflight_call list" where
  "check_tcp dial addr timeout =
     (if addr = '':'' then (TcpSkipped, [])
      else (case dial addr of Inl e \<Rightarrow> TcpFailed addr e | Inr laddr \<Rightarrow> TcpOk addr laddr, [DialCall addr timeout]))"

definition check_discovery :: "string + string \<Rightarrow> preflight_event" where
  "check_discovery r = (case r of Inl e \<Rightarrow> DiscoveryFailed e (classifyAPICallError e) | Inr v \<Rightarrow> DiscoveryOk v)"

definition check_access :: "(string \<Rightarrow> string + bool \<times> string) \<Rightarrow> string \<Rightarrow> preflight_event" where
  "check_access acc verb =
     (case acc verb of
        Inl e \<Rightarrow> AccessFailed verb e
      | Inr (allowed, reason) \<Rightarrow> if allowed then AccessAllowed verb else AccessDenied verb reason)"

definition preflight_verbs :: "string list" where
  "preflight_verbs = [''get'', ''create'']"

text \<open>\<open>Run\<close>: the error it returns, its events and its calls.\<close>

definition RunPreflight ::
  "preflight_outside \<Rightarrow> preflight_options \<Rightarrow> string option \<times> preflight_event list \<times> preflight_call list" where
  "RunPreflight x o0 =
     (if \<not> po_logger o0 then (Some ''startup: Logger is required'', [], [])
      else (let opts = preflight_defaults (px_token x) o0;
                host = os_getenv (px_env x) ''KUBERNETES_SERVICE_HOST'';
                port = os_getenv (px_env x) ''KUBERNETES_SERVICE_PORT'';
                addrs = (case px_lookup x of Inl e \<Rightarrow> [] | Inr l \<Rightarrow> l);
                tcp = check_tcp (px_dial x) (dial_addr host port addrs) (po_dialTimeout opts);
                events = [PreflightStart (po_namespace opts) (po_secretName opts) (po_serviceAccount opts),
                          check_config host port, check_dns (px_lookup x), fst tcp];
                calls = LookupCall (po_dialTimeout opts) # snd tcp
            in if \<not> po_clientset opts then (None, events @ [ClientsetSkipped], calls)
               else (None,
                     events @ [check_discovery (px_version x)] @ map (check_access (px_access x)) preflight_verbs @ [PreflightDone],
                     calls @ [VersionCall] @ map (\<lambda>v. AccessCall v (po_overallTimeout opts)) preflight_verbs)))"

section \<open>Lemmas\<close>

lemma index_of_first:
  assumes "\<forall>i < length pre. \<not> has_prefix (drop i (pre @ sub @ post)) sub"
  shows "index_of sub (pre @ sub @ post) = int (length pre)"
  using assms
proof (induction pre)
  case Nil
  show ?case using has_prefix_append [of sub post] by (cases "sub @ post") simp_all
next
  case (Cons c pre)
  have "\<not> has_prefix (c # pre @ sub @ post) sub" using Cons.prems by force
  moreover have "index_of sub (pre @ sub @ post) = int (length pre)"
    using Cons.IH Cons.prems by (metis Suc_less_eq append_Cons drop_Suc_Cons length_Cons)
  ultimately show ?case by simp
qed

lemma splitn_sep: "c \<notin> set a \<Longrightarrow> splitn_on (Suc (Suc n)) c (a @ c # b) = a # splitn_on (Suc n) c b"
  by (induction a) (auto split: if_splits)

lemma index_of_char: "c \<notin> set name \<Longrightarrow> index_of [c] (name @ c # post) = int (length name)"
  by (induction name) auto

lemma name_in_payload_found:
  assumes "\<forall>i < length pre. \<not> has_prefix (drop i (pre @ sa_key @ name @ quote_char # post)) sa_key"
    and "name \<noteq> []" "quote_char \<notin> set name"
  shows "name_in_payload (pre @ sa_key @ name @ quote_char # post) = name"
  using index_of_first [OF assms(1)] index_of_char [OF assms(3), of post] assms(2)
  by (simp add: name_in_payload_def Let_def nat_add_distrib)

text \<open>The layer an event belongs to, and whether it reports a problem.\<close>

datatype preflight_layer = LayerStart | LayerConfig | LayerDns | LayerTcp | LayerClientset | LayerDiscovery | LayerAccess | LayerDone

fun layer_of :: "preflight_event \<Rightarrow> preflight_layer" where
  "layer_of (PreflightStart ns sec sa) = LayerStart"
| "layer_of ConfigNoEnv = LayerConfig"
| "layer_of (ConfigHost host port) = LayerConfig"
| "layer_of (DnsFailed e) = LayerDns"
| "layer_of (DnsOk addrs) = LayerDns"
| "layer_of TcpSkipped = LayerTcp"
| "layer_of (TcpFailed addr e) = LayerTcp"
| "layer_of (TcpOk addr l) = LayerTcp"
| "layer_of ClientsetSkipped = LayerClientset"
| "layer_of (DiscoveryFailed e hint) = LayerDiscovery"
| "layer_of (DiscoveryOk v) = LayerDiscovery"
| "layer_of (AccessFailed verb e) = LayerAccess"
| "layer_of (AccessAllowed verb) = LayerAccess"
| "layer_of (AccessDenied verb reason) = LayerAccess"
| "layer_of PreflightDone = LayerDone"

fun reports_problem :: "preflight_event \<Rightarrow> bool" where
  "reports_problem ConfigNoEnv \<longleftrightarrow> True"
| "reports_problem (DnsFailed e) \<longleftrightarrow> True"
| "reports_problem TcpSkipped \<longleftrightarrow> True"
| "reports_problem (TcpFailed addr e) \<longleftrightarrow> True"
| "reports_problem ClientsetSkipped \<longleftrightarrow> True"
| "reports_problem (DiscoveryFailed e hint) \<longleftrightarrow> True"
| "reports_problem (AccessFailed verb e) \<longleftrightarrow> True"
| "reports_problem (AccessDenied verb reason) \<longleftrightarrow> True"
| "reports_problem _ \<longleftrightarrow> False"

lemma layers [simp]:
  "layer_of (check_config h p) = LayerConfig" "layer_of (check_dns r) = LayerDns"
  "layer_of (fst (check_tcp d a t)) = LayerTcp" "layer_of (check_discovery v) = LayerDiscovery"
  "layer_of (check_access acc verb) = LayerAccess"
  by (auto simp: check_config_def check_dns_def check_tcp_def check_discovery_def check_access_def split: sum.splits)

lemma problems [simp]:
  "reports_problem (check_config h p) \<longleftrightarrow> h = []" "reports_problem (check_dns r) \<longleftrightarrow> isl r"
  "reports_problem (fst (check_tcp d a t)) \<longleftrightarrow> a = '':'' \<or> isl (d a)" "reports_problem (check_discovery v) \<longleftrightarrow> isl v"
  "reports_problem (check_access acc verb) \<longleftrightarrow> \<not> (\<exists>reason. acc verb = Inr (True, reason))"
  by (auto simp: check_config_def check_dns_def check_tcp_def check_discovery_def check_access_def split: sum.splits)

lemma join_host_port_empty: "join_host_port host port = '':'' \<longleftrightarrow> host = [] \<and> port = []"
  by (cases host) (auto simp: join_host_port_def)

lemma dial_addr_host: "host \<noteq> [] \<Longrightarrow> dial_addr host port addrs = join_host_port host port"
  by (simp add: dial_addr_def)

section \<open>Properties\<close>

text \<open>
  C40: the preflight never stops the start and leaves one event per layer, in order, ending early only
  without a clientset; its log is free of problems exactly when the API server's host is known, the
  lookup, the dial and the version call succeed and both verbs on the Secret are allowed.
\<close>

theorem preflight_reports_every_layer:
  assumes "po_logger opts"
  shows "case RunPreflight x opts of (err, es, cs) \<Rightarrow>
    err = None \<and>
    map layer_of es = [LayerStart, LayerConfig, LayerDns, LayerTcp] @
      (if po_clientset opts then [LayerDiscovery, LayerAccess, LayerAccess, LayerDone] else [LayerClientset]) \<and>
    ((\<forall>e \<in> set es. \<not> reports_problem e) \<longleftrightarrow>
       (let host = os_getenv (px_env x) ''KUBERNETES_SERVICE_HOST''; port = os_getenv (px_env x) ''KUBERNETES_SERVICE_PORT'' in
        host \<noteq> [] \<and> \<not> isl (px_lookup x) \<and> \<not> isl (px_dial x (join_host_port host port)) \<and> po_clientset opts \<and>
        \<not> isl (px_version x) \<and> (\<forall>verb \<in> {''get'', ''create''}. \<exists>reason. px_access x verb = Inr (True, reason))))"
proof -
  have "po_clientset (preflight_defaults (px_token x) opts) = po_clientset opts"
    by (simp add: preflight_defaults_def Let_def)
  moreover have "os_getenv (px_env x) ''KUBERNETES_SERVICE_HOST'' \<noteq> [] \<Longrightarrow>
      dial_addr (os_getenv (px_env x) ''KUBERNETES_SERVICE_HOST'') p addrs =
      join_host_port (os_getenv (px_env x) ''KUBERNETES_SERVICE_HOST'') p" for p addrs
    by (rule dial_addr_host)
  ultimately show ?thesis
    using assms by (auto simp: RunPreflight_def Let_def preflight_verbs_def join_host_port_empty)
qed

definition demo_preflight :: preflight_outside where
  "demo_preflight = \<lparr>px_env = map_of [(''KUBERNETES_SERVICE_HOST'', ''172.30.0.1''), (''KUBERNETES_SERVICE_PORT'', ''443'')],
     px_token = None, px_lookup = Inr [''172.30.0.1''], px_dial = (\<lambda>a. Inr ''10.0.0.7:5000''), px_version = Inr ''v1.30'',
     px_access = (\<lambda>verb. Inr (verb = ''get'', ''no rule''))\<rparr>"

definition demo_options :: preflight_options where
  "demo_options = \<lparr>po_logger = True, po_clientset = True, po_namespace = ''kasten-io'', po_secretName = [],
     po_serviceAccount = [], po_dialTimeout = 0, po_overallTimeout = 0\<rparr>"

theorem preflight_reports_every_layer_witness:
  "\<not> (\<forall>e \<in> set (fst (snd (RunPreflight demo_preflight demo_options))). \<not> reports_problem e)"
proof -
  have "po_logger demo_options" by (simp add: demo_options_def)
  from preflight_reports_every_layer [OF this, of demo_preflight] show ?thesis
    by (auto simp: demo_preflight_def Let_def split: prod.splits)
qed

text \<open>
  The calls of a preflight with a clientset and the deadlines of their contexts: lookup and dial
  get the dial timeout each, the two access reviews the overall timeout each and the version call
  none. The overall timeout caps a single review and not the preflight as a whole.
\<close>

lemma preflight_deadlines:
  assumes "po_logger opts" "po_clientset opts" "os_getenv (px_env x) ''KUBERNETES_SERVICE_HOST'' \<noteq> []"
  shows "let dial = (if po_dialTimeout opts = 0 then 5 * Second else po_dialTimeout opts);
             overall = (if po_overallTimeout opts = 0 then 30 * Second else po_overallTimeout opts) in
    snd (snd (RunPreflight x opts)) =
      [LookupCall dial,
       DialCall (join_host_port (os_getenv (px_env x) ''KUBERNETES_SERVICE_HOST'') (os_getenv (px_env x) ''KUBERNETES_SERVICE_PORT'')) dial,
       VersionCall, AccessCall ''get'' overall, AccessCall ''create'' overall]"
  using assms by (simp add: RunPreflight_def preflight_defaults_def Let_def preflight_verbs_def dial_addr_host
      check_tcp_def join_host_port_empty)

lemma preflight_deadlines_witness:
  "snd (snd (RunPreflight demo_preflight demo_options)) =
     [LookupCall (5 * Second), DialCall ''172.30.0.1:443'' (5 * Second), VersionCall,
      AccessCall ''get'' (30 * Second), AccessCall ''create'' (30 * Second)]"
  using preflight_deadlines [of demo_options demo_preflight]
  by (simp add: demo_options_def demo_preflight_def os_getenv_def join_host_port_def)

text \<open>
  The service account's name is read back from a token whose payload has the claim: the payload
  may contain anything before the claim's first occurrence and after the name.
\<close>

lemma service_account_read_back:
  assumes "dot \<notin> set header" "name \<noteq> []" "quote_char \<notin> set name"
    and "\<forall>i < length pre. \<not> has_prefix (drop i (pre @ sa_key @ name @ quote_char # post)) sa_key"
  shows "readSANameFromToken (Some (header @ ''.'' @ b64_encode (pre @ sa_key @ name @ quote_char # post) @ ''.'' @ signature)) = name"
proof -
  let ?p = "b64_encode (pre @ sa_key @ name @ quote_char # post)"
  have "splitn_on 3 dot (header @ ''.'' @ ?p @ ''.'' @ signature) = [header, ?p, signature]"
    using splitn_sep [OF assms(1)] splitn_sep [OF b64_encode_no_dot] by (simp add: numeral_3_eq_3 del: splitn_on.simps(3))
  then show ?thesis
    using name_in_payload_found [OF assms(4,2,3)] by (simp add: readSANameFromToken_def b64_decode_encode)
qed

lemma service_account_read_back_witness:
  "readSANameFromToken (Some (''h'' @ ''.'' @ b64_encode ([] @ sa_key @ ''helper'' @ quote_char # []) @ ''.'' @ ''s'')) = ''helper''"
  by (rule service_account_read_back) (simp_all add: quote_char_def)

end
