(* ===== verification/KeyMgr.thy ===== *)
theory KeyMgr
  imports RestorePoints
begin

text \<open>
  internal/keymgr/keymgr.go: the SSH key pair kept in a Secret. The ssh package, the key generator
  and the API server's Secrets are parameters; the laws of the latter two that the properties rely
  on are named here.
\<close>

section \<open>Parameters\<close>

text \<open>
  The ssh package: parsing and marshalling of keys, and the generated private key with its PEM
  encoding and its public key (or the error of one of these steps).
\<close>

record ('g, 'k, 'r) ssh_lib =
  ssh_parsePrivate :: "string \<Rightarrow> string + 'g"
  ssh_publicKey :: "'g \<Rightarrow> 'k"
  ssh_parseAuthorized :: "string \<Rightarrow> string + 'k"
  ssh_marshalAuthorized :: "'k \<Rightarrow> string"
  ssh_generate :: "string + 'r"
  ssh_marshalPrivate :: "'r \<Rightarrow> string + string"
  ssh_newPublicKey :: "'r \<Rightarrow> string + 'k"

record 's secret_service =
  sv_get :: "'s \<Rightarrow> string \<Rightarrow> string \<Rightarrow> api_error + secret"
  sv_create :: "'s \<Rightarrow> string \<Rightarrow> string \<Rightarrow> secret \<Rightarrow> api_error + 's"
  sv_update :: "'s \<Rightarrow> string \<Rightarrow> string \<Rightarrow> secret \<Rightarrow> api_error + 's"

section \<open>The manager\<close>

record ('g, 'k) key_manager =
  km_signer :: 'g
  km_publicKey :: 'k
  km_pubKeyPEM :: string
  km_signerRaw :: string

datatype key_error =
    GetSecretFailed api_error
  | PublicWithoutPrivate
  | GenerateFailed string
  | CreateSecretFailed api_error
  | UpdateSecretFailed api_error
  | ParsePrivateFailed string
  | ParsePublicFailed string

definition fieldPrivate :: string where "fieldPrivate = ''ssh-privatekey''"
definition fieldPublic :: string where "fieldPublic = ''ssh-publickey''"

definition marshalEd25519 :: "('g, 'k, 'r) ssh_lib \<Rightarrow> 'r \<Rightarrow> (string, string \<times> string) result" where
  "marshalEd25519 l priv =
     (case ssh_marshalPrivate l priv of
        Inl e \<Rightarrow> Inl e
      | Inr privPEM \<Rightarrow>
          (case ssh_newPublicKey l priv of
             Inl e \<Rightarrow> Inl e
           | Inr pub \<Rightarrow> Inr (privPEM, ssh_marshalAuthorized l pub)))"

definition parseInto :: "('g, 'k, 'r) ssh_lib \<Rightarrow> string \<Rightarrow> string \<Rightarrow> (key_error, ('g, 'k) key_manager) result" where
  "parseInto l priv pub =
     (case ssh_parsePrivate l priv of
        Inl e \<Rightarrow> Inl (ParsePrivateFailed e)
      | Inr signer \<Rightarrow>
          (case (if length pub > 0 then ssh_parseAuthorized l pub else Inr (ssh_publicKey l signer)) of
             Inl e \<Rightarrow> Inl (ParsePublicFailed e)
           | Inr pubKey \<Rightarrow> Inr \<lparr>km_signer = signer, km_publicKey = pubKey,
                              km_pubKeyPEM = ssh_marshalAuthorized l pubKey, km_signerRaw = priv\<rparr>))"

definition generateAndPersist ::
  "('g, 'k, 'r) ssh_lib \<Rightarrow> 's secret_service \<Rightarrow> 's \<Rightarrow> string \<Rightarrow> string \<Rightarrow>
   (key_error, ('g, 'k) key_manager) result \<times> 's" where
  "generateAndPersist l sv st ns name =
     (case ssh_generate l of
        Inl e \<Rightarrow> (Inl (GenerateFailed e), st)
      | Inr priv \<Rightarrow>
          (case marshalEd25519 l priv of
             Inl e \<Rightarrow> (Inl (GenerateFailed e), st)
           | Inr (privPEM, pubPEM) \<Rightarrow>
               (case sv_create sv st ns name
                       \<lparr>sec_type = secret_type_ssh, sec_data = [(fieldPrivate, privPEM), (fieldPublic, pubPEM)]\<rparr> of
                  Inl e \<Rightarrow> (Inl (CreateSecretFailed e), st)
                | Inr st' \<Rightarrow> (parseInto l privPEM pubPEM, st'))))"

definition deriveAndPatch ::
  "('g, 'k, 'r) ssh_lib \<Rightarrow> 's secret_service \<Rightarrow> 's \<Rightarrow> string \<Rightarrow> string \<Rightarrow> secret \<Rightarrow> string \<Rightarrow>
   (key_error, ('g, 'k) key_manager) result \<times> 's" where
  "deriveAndPatch l sv st ns name sec priv =
     (case ssh_parsePrivate l priv of
        Inl e \<Rightarrow> (Inl (ParsePrivateFailed e), st)
      | Inr signer \<Rightarrow>
          (let pubPEM = ssh_marshalAuthorized l (ssh_publicKey l signer) in
           case sv_update sv st ns name (sec\<lparr>sec_data := AList.update fieldPublic pubPEM (sec_data sec)\<rparr>) of
             Inl e \<Rightarrow> (Inl (UpdateSecretFailed e), st)
           | Inr st' \<Rightarrow> (Inr \<lparr>km_signer = signer, km_publicKey = ssh_publicKey l signer, km_pubKeyPEM = pubPEM,
                            km_signerRaw = priv\<rparr>, st')))"

definition is_not_found :: "api_error \<Rightarrow> bool" where
  "is_not_found e = (case e of StatusErr code reason msg \<Rightarrow> reason = ''NotFound'' | OtherErr msg \<Rightarrow> False)"

definition LoadOrGenerate ::
  "('g, 'k, 'r) ssh_lib \<Rightarrow> 's secret_service \<Rightarrow> 's \<Rightarrow> string \<Rightarrow> string \<Rightarrow>
   (key_error, ('g, 'k) key_manager) result \<times> 's" where
  "LoadOrGenerate l sv st ns name =
     (case sv_get sv st ns name of
        Inl e \<Rightarrow> if is_not_found e then generateAndPersist l sv st ns name else (Inl (GetSecretFailed e), st)
      | Inr sec \<Rightarrow>
          (let priv = label_of (sec_data sec) fieldPrivate; pub = label_of (sec_data sec) fieldPublic in
           if length priv = 0 \<and> length pub = 0 then generateAndPersist l sv st ns name
           else if length priv = 0 then (Inl PublicWithoutPrivate, st)
           else if length pub = 0 then deriveAndPatch l sv st ns name sec priv
           else (parseInto l priv pub, st)))"

section \<open>Laws\<close>

text \<open>
  A Secret is read back as it was created or updated, and creating one that exists is refused.
\<close>

definition secret_service_ok :: "'s secret_service \<Rightarrow> bool" where
  "secret_service_ok sv \<longleftrightarrow>
     (\<forall>st ns name sec st'. sv_create sv st ns name sec = Inr st' \<longrightarrow> sv_get sv st' ns name = Inr sec) \<and>
     (\<forall>st ns name sec st'. sv_update sv st ns name sec = Inr st' \<longrightarrow> sv_get sv st' ns name = Inr sec) \<and>
     (\<forall>st ns name sec old. sv_get sv st ns name = Inr old \<longrightarrow> (\<exists>e. sv_create sv st ns name sec = Inl e))"

text \<open>
  Marshalled keys are not empty; a marshalled public key parses back, and a generated private key
  parses back to a signer with the key's public key.
\<close>

definition ssh_lib_ok :: "('g, 'k, 'r) ssh_lib \<Rightarrow> bool" where
  "ssh_lib_ok l \<longleftrightarrow>
     (\<forall>k. ssh_marshalAuthorized l k \<noteq> [] \<and> ssh_parseAuthorized l (ssh_marshalAuthorized l k) = Inr k) \<and>
     (\<forall>r pem. ssh_marshalPrivate l r = Inr pem \<longrightarrow> pem \<noteq> [] \<and>
        (\<exists>g. ssh_parsePrivate l pem = Inr g \<and> ssh_newPublicKey l r = Inr (ssh_publicKey l g)))"

lemma ssh_lib_okD:
  assumes "ssh_lib_ok l"
  shows "ssh_marshalAuthorized l k \<noteq> []" "ssh_parseAuthorized l (ssh_marshalAuthorized l k) = Inr k"
    and "ssh_marshalPrivate l r = Inr pem \<Longrightarrow> pem \<noteq> []"
    and "ssh_marshalPrivate l r = Inr pem \<Longrightarrow>
      \<exists>g. ssh_parsePrivate l pem = Inr g \<and> ssh_newPublicKey l r = Inr (ssh_publicKey l g)"
  using assms unfolding ssh_lib_ok_def by blast+

lemma secret_service_okD:
  assumes "secret_service_ok sv"
  shows "sv_create sv st ns name sec = Inr st' \<Longrightarrow> sv_get sv st' ns name = Inr sec"
    and "sv_update sv st ns name sec = Inr st' \<Longrightarrow> sv_get sv st' ns name = Inr sec"
    and "sv_get sv st ns name = Inr old \<Longrightarrow> \<exists>e. sv_create sv st ns name sec = Inl e"
  using assms unfolding secret_service_ok_def by blast+

lemma label_of_simps [simp]:
  "label_of [] k = []"
  "label_of ((k, v) # m) k = v"
  "k' \<noteq> k \<Longrightarrow> label_of ((k', v) # m) k = label_of m k"
  "label_of (AList.update k v m) k = v"
  "k' \<noteq> k \<Longrightarrow> label_of (AList.update k' v m) k = label_of m k"
  by (simp_all add: label_of_def find_simps)

lemma fields_differ [simp]: "fieldPrivate \<noteq> fieldPublic" "fieldPublic \<noteq> fieldPrivate"
  by (simp_all add: fieldPrivate_def fieldPublic_def)

text \<open>A new key pair is stored, and loading it again gives the same manager.\<close>

lemma generate_then_load:
  assumes "secret_service_ok sv" "ssh_lib_ok l" "generateAndPersist l sv st ns name = (Inr m, st')"
  shows "LoadOrGenerate l sv st' ns name = (Inr m, st')"
proof -
  from assms(3) obtain r privPEM pubPEM where r: "marshalEd25519 l r = Inr (privPEM, pubPEM)"
    "sv_create sv st ns name \<lparr>sec_type = secret_type_ssh, sec_data = [(fieldPrivate, privPEM), (fieldPublic, pubPEM)]\<rparr> = Inr st'"
    "parseInto l privPEM pubPEM = Inr m"
    by (auto simp: generateAndPersist_def split: sum.splits prod.splits)
  then have "privPEM \<noteq> []" "pubPEM \<noteq> []"
    using ssh_lib_okD(1,3) [OF assms(2)] by (auto simp: marshalEd25519_def split: sum.splits)
  then show ?thesis using secret_service_okD(1) [OF assms(1) r(2)] r(3) by (simp add: LoadOrGenerate_def)
qed

lemma derive_then_load:
  assumes "secret_service_ok sv" "ssh_lib_ok l" "priv \<noteq> []" "label_of (sec_data sec) fieldPrivate = priv"
    and "deriveAndPatch l sv st ns name sec priv = (Inr m, st')"
  shows "LoadOrGenerate l sv st' ns name = (Inr m, st')"
proof -
  from assms(5) obtain g where g: "ssh_parsePrivate l priv = Inr g"
    "sv_update sv st ns name (sec\<lparr>sec_data := AList.update fieldPublic (ssh_marshalAuthorized l (ssh_publicKey l g)) (sec_data sec)\<rparr>) = Inr st'"
    "m = \<lparr>km_signer = g, km_publicKey = ssh_publicKey l g, km_pubKeyPEM = ssh_marshalAuthorized l (ssh_publicKey l g),
          km_signerRaw = priv\<rparr>"
    by (auto simp: deriveAndPatch_def Let_def split: sum.splits)
  show ?thesis
    using secret_service_okD(2) [OF assms(1) g(2)] g(1,3) assms(3,4) ssh_lib_okD(1,2) [OF assms(2)]
    by (simp add: LoadOrGenerate_def parseInto_def Let_def)
qed

lemma load_again:
  assumes "secret_service_ok sv" "ssh_lib_ok l" "LoadOrGenerate l sv st ns name = (Inr m, st')"
  shows "LoadOrGenerate l sv st' ns name = (Inr m, st')"
proof (cases "sv_get sv st ns name")
  case (Inl e)
  then have "generateAndPersist l sv st ns name = (Inr m, st')"
    using assms(3) by (simp add: LoadOrGenerate_def split: if_splits)
  then show ?thesis by (rule generate_then_load [OF assms(1,2)])
next
  case (Inr sec)
  let ?priv = "label_of (sec_data sec) fieldPrivate" and ?pub = "label_of (sec_data sec) fieldPublic"
  consider "?priv = [] \<and> ?pub = []" | "?priv \<noteq> [] \<and> ?pub = []" | "?priv \<noteq> [] \<and> ?pub \<noteq> []" | "?priv = [] \<and> ?pub \<noteq> []"
    by blast
  then show ?thesis
  proof cases
    case 1
    then have "generateAndPersist l sv st ns name = (Inr m, st')"
      using assms(3) Inr by (simp add: LoadOrGenerate_def)
    then show ?thesis by (rule generate_then_load [OF assms(1,2)])
  next
    case 2
    then have "deriveAndPatch l sv st ns name sec ?priv = (Inr m, st')"
      using assms(3) Inr by (simp add: LoadOrGenerate_def)
    then show ?thesis using 2 by (intro derive_then_load [OF assms(1,2)]) auto
  next
    case 3
    then show ?thesis using assms(3) Inr by (simp add: LoadOrGenerate_def)
  next
    case 4
    then show ?thesis using assms(3) Inr by (simp add: LoadOrGenerate_def)
  qed
qed

section \<open>An instance of the parameters\<close>

definition demo_ssh :: "(string, string, string) ssh_lib" where
  "demo_ssh =
     \<lparr>ssh_parsePrivate = (\<lambda>s. if s = [] then Inl ''empty'' else Inr (tl s)),
      ssh_publicKey = (\<lambda>g. g),
      ssh_parseAuthorized = (\<lambda>s. if s = [] then Inl ''empty'' else Inr (tl s)),
      ssh_marshalAuthorized = (\<lambda>k. CHR ''P'' # k),
      ssh_generate = Inr ''key'',
      ssh_marshalPrivate = (\<lambda>r. Inr (CHR ''S'' # r)),
      ssh_newPublicKey = (\<lambda>r. Inr r)\<rparr>"

definition demo_secrets :: "((string \<times> string, secret) gomap) secret_service" where
  "demo_secrets =
     \<lparr>sv_get = (\<lambda>st ns name. case map_of st (ns, name) of
                  None \<Rightarrow> Inl (StatusErr 404 ''NotFound'' ''not found'') | Some s \<Rightarrow> Inr s),
      sv_create = (\<lambda>st ns name s. case map_of st (ns, name) of
                  None \<Rightarrow> Inr (AList.update (ns, name) s st)
                | Some _ \<Rightarrow> Inl (StatusErr 409 ''AlreadyExists'' ''already exists'')),
      sv_update = (\<lambda>st ns name s. case map_of st (ns, name) of
                  None \<Rightarrow> Inl (StatusErr 404 ''NotFound'' ''not found'')
                | Some _ \<Rightarrow> Inr (AList.update (ns, name) s st))\<rparr>"

lemma demo_ssh_ok: "ssh_lib_ok demo_ssh"
  by (simp add: ssh_lib_ok_def demo_ssh_def)

lemma demo_secrets_ok: "secret_service_ok demo_secrets"
  by (auto simp: secret_service_ok_def demo_secrets_def find_simps split: option.splits)

section \<open>Properties\<close>

text \<open>
  C35: the key pair survives restarts: whenever loading succeeds, be it from a complete Secret, by
  deriving the public key or by generating a pair, loading again gives the same keys and changes
  nothing.
\<close>

theorem load_or_generate_stable:
  assumes "secret_service_ok sv" "ssh_lib_ok l" "LoadOrGenerate l sv st ns name = (Inr m, st')"
  shows "LoadOrGenerate l sv st' ns name = (Inr m, st')"
  using assms by (rule load_again)

lemma demo_generate:
  "LoadOrGenerate demo_ssh demo_secrets [] ''kasten-io'' ''k'' =
     (Inr \<lparr>km_signer = ''key'', km_publicKey = ''key'', km_pubKeyPEM = ''Pkey'', km_signerRaw = ''Skey''\<rparr>,
      [((''kasten-io'', ''k''), \<lparr>sec_type = secret_type_ssh,
         sec_data = [(fieldPrivate, ''Skey''), (fieldPublic, ''Pkey'')]\<rparr>)])"
  by code_simp

theorem load_or_generate_stable_witness:
  "fst (LoadOrGenerate demo_ssh demo_secrets (snd (LoadOrGenerate demo_ssh demo_secrets [] ''kasten-io'' ''k''))
     ''kasten-io'' ''k'') = fst (LoadOrGenerate demo_ssh demo_secrets [] ''kasten-io'' ''k'')"
  unfolding demo_generate using load_or_generate_stable [OF demo_secrets_ok demo_ssh_ok demo_generate] by simp

text \<open>
  A Secret that exists without either key stops the start for good: a key pair is generated and
  then created under a name that is taken, which fails and leaves the Secret as it was.
\<close>

lemma empty_secret_never_filled:
  assumes "secret_service_ok sv" "sv_get sv st ns name = Inr sec"
    and "label_of (sec_data sec) fieldPrivate = []" "label_of (sec_data sec) fieldPublic = []"
  shows "\<exists>e. LoadOrGenerate l sv st ns name = (Inl e, st)"
proof -
  have "LoadOrGenerate l sv st ns name = generateAndPersist l sv st ns name"
    using assms(2-4) by (simp add: LoadOrGenerate_def)
  moreover have "\<exists>e. generateAndPersist l sv st ns name = (Inl e, st)"
  proof (cases "ssh_generate l")
    case (Inr r)
    show ?thesis
    proof (cases "marshalEd25519 l r")
      case (Inr pq)
      obtain p q where pq: "pq = (p, q)" by (cases pq)
      obtain e where "sv_create sv st ns name
          \<lparr>sec_type = secret_type_ssh, sec_data = [(fieldPrivate, p), (fieldPublic, q)]\<rparr> = Inl e"
        using secret_service_okD(3) [OF assms(1,2)] by blast
      then show ?thesis using Inr pq \<open>ssh_generate l = Inr r\<close> by (simp add: generateAndPersist_def)
    qed (simp add: generateAndPersist_def Inr)
  qed (simp add: generateAndPersist_def)
  ultimately show ?thesis by simp
qed

lemma empty_secret_never_filled_witness:
  "\<exists>e. LoadOrGenerate demo_ssh demo_secrets [((''ns'', ''k''), \<lparr>sec_type = secret_type_ssh, sec_data = []\<rparr>)] ''ns'' ''k'' =
     (Inl e, [((''ns'', ''k''), \<lparr>sec_type = secret_type_ssh, sec_data = []\<rparr>)])"
  by (rule empty_secret_never_filled [OF demo_secrets_ok, where sec = "\<lparr>sec_type = secret_type_ssh, sec_data = []\<rparr>"])
    (simp_all add: demo_secrets_def)

end
