(* ===== verification/Helper.thy ===== *)
theory Helper
  imports Middleware Startup KeyMgr
begin

text \<open>
  cmd/helper/main.go and internal/server/server.go: the start of the program, from the environment to
  the listening server, and its end. What the start relies on (client-go, the ssh package, the
  Secrets of the API server, the preflight's checks, the socket) are parameters.
\<close>

section \<open>Starting\<close>

text \<open>The initialiser of \<open>version\<close>.\<close>

definition program_version :: "environment \<Rightarrow> string" where
  "program_version env = (let v = os_getenv env ''VERSION'' in if v \<noteq> [] then v else ''dev'')"

datatype start_error =
    ConfigFailed config_error
  | ClusterFailed client_error
  | KeyFailed key_error
  | SftpClientFailed new_client_error
  | SecretTooShort
  | ListenFailed string

record 'g program =
  pg_level :: log_level
  pg_preflight :: "preflight_event list"
  pg_sftp :: "'g client"
  pg_server :: server
  pg_state :: server_state
  pg_addr :: string

definition preflight_of :: "config \<Rightarrow> preflight_options" where
  "preflight_of cfg =
     \<lparr>po_logger = True, po_clientset = True, po_namespace = cf_keySecretNamespace cfg, po_secretName = cf_keySecretName cfg,
      po_serviceAccount = [], po_dialTimeout = 5 * Second, po_overallTimeout = 30 * Second\<rparr>"

definition sftp_config_of :: "config \<Rightarrow> 'g \<Rightarrow> 'g client_config" where
  "sftp_config_of cfg signer =
     \<lparr>cfg_username = cf_frsDefaultUsername cfg, cfg_signer = Some signer, cfg_hostKeySig = [],
      cfg_connectTimeout = cf_sftpConnectTimeout cfg\<rparr>"

text \<open>
  The part of \<open>run\<close> before it serves: the Secrets' state is threaded through, for a key pair may be
  created. The panic of \<open>NewSessionStore\<close> is the error \<open>SecretTooShort\<close>.
\<close>

definition run_helper ::
  "('cfg, 'core, 'dyn, 'http) client_go \<Rightarrow> ('g, 'k, 'r) ssh_lib \<Rightarrow> (string \<Rightarrow> (string, 'k) result) \<Rightarrow> 's secret_service \<Rightarrow>
   preflight_outside \<Rightarrow> (string \<Rightarrow> string + string) \<Rightarrow> environment \<Rightarrow> 's \<Rightarrow> (start_error, 'g program) result \<times> 's" where
  "run_helper g l parse_key sv px listen env st =
     (case Load env of
        Inl e \<Rightarrow> (Inl (ConfigFailed e), st)
      | Inr cfg \<Rightarrow>
          (case NewK8sClient g \<lparr>co_inCluster = cf_k8sInCluster cfg, co_kubeconfig = [], co_fake = False\<rparr> of
             Inl e \<Rightarrow> (Inl (ClusterFailed e), st)
           | Inr kc \<Rightarrow>
               (let events = fst (snd (RunPreflight px (preflight_of cfg))) in
                case LoadOrGenerate l sv st (cf_keySecretNamespace cfg) (cf_keySecretName cfg) of
                  (Inl e, st') \<Rightarrow> (Inl (KeyFailed e), st')
                | (Inr km, st') \<Rightarrow>
                    (case NewClient parse_key (sftp_config_of cfg (km_signer km)) of
                       Inl e \<Rightarrow> (Inl (SftpClientFailed e), st')
                     | Inr client \<Rightarrow>
                         (case NewSessionStore (cf_cookieSecret cfg) (cf_sessionTTL cfg) of
                            None \<Rightarrow> (Inl SecretTooShort, st')
                          | Some store \<Rightarrow>
                              (case New (NewAuthenticator (cf_username cfg) (cf_password cfg) store ''kfrs_sid'')
                                      (cf_frsDefaultUsername cfg) (km_pubKeyPEM km) (cf_frsPort cfg) (cf_nsWhitelist cfg)
                                      (cf_frsWaitTimeout cfg) (program_version env) (cf_sftpPoolTTL cfg) of
                                 (s, w) \<Rightarrow>
                                   (case listen (cf_listen cfg @ '':'' @ int_str (cf_port cfg)) of
                                      Inl e \<Rightarrow> (Inl (ListenFailed e), st')
                                    | Inr addr \<Rightarrow>
                                        (Inr \<lparr>pg_level = level_of (cf_logLevel cfg), pg_preflight = events, pg_sftp = client,
                                              pg_server = s, pg_state = w, pg_addr = addr\<rparr>, st'))))))))"

text \<open>\<open>StartBackground\<close>: the sweeper with an age of one hour, at the given ticks.\<close>

definition StartBackground :: "gotime list \<Rightarrow> server_state \<Rightarrow> server_state" where
  "StartBackground ticks w = w\<lparr>st_watches := startSweeper Hour ticks (st_watches w)\<rparr>"

section \<open>Stopping\<close>

datatype serve_error = ServerClosed | ServeFailed string

text \<open>What the select of \<open>Run\<close> receives first: the end of the context, with what Shutdown returns, or the end of Serve.\<close>

datatype server_end =
    ContextDone "string option"
  | ServeReturned "serve_error option"

definition ServerRun :: "server_end \<Rightarrow> string option" where
  "ServerRun e =
     (case e of
        ContextDone err \<Rightarrow> err
      | ServeReturned None \<Rightarrow> None
      | ServeReturned (Some ServerClosed) \<Rightarrow> None
      | ServeReturned (Some (ServeFailed m)) \<Rightarrow> Some m)"

text \<open>The line logged before the program serves, with its values before their formatting.\<close>

datatype summary_value =
    SummaryText string
  | SummaryBool bool
  | SummaryInt int
  | SummaryDuration duration
  | SummaryList "string list"

definition startup_summary :: "config \<Rightarrow> environment \<Rightarrow> string \<Rightarrow> (string \<times> summary_value) list" where
  "startup_summary cfg env addr =
     [(''addr'', SummaryText addr), (''version'', SummaryText (program_version env)),
      (''k8s_in_cluster'', SummaryBool (cf_k8sInCluster cfg)), (''frs_port'', SummaryInt (cf_frsPort cfg)),
      (''frs_default_user'', SummaryText (cf_frsDefaultUsername cfg)),
      (''sftp_connect_timeout'', SummaryDuration (cf_sftpConnectTimeout cfg)),
      (''sftp_pool_ttl'', SummaryDuration (cf_sftpPoolTTL cfg)), (''frs_wait_timeout'', SummaryDuration (cf_frsWaitTimeout cfg)),
      (''session_ttl'', SummaryDuration (cf_sessionTTL cfg)), (''ns_whitelist'', SummaryList (cf_nsWhitelist cfg)),
      (''log_level'', SummaryText (cf_logLevel cfg))]"

section \<open>The process\<close>

text \<open>
  \<open>main\<close>: what a failed \<open>run\<close> reports, and the status the process ends with; a panic that nothing recovers
  ends it with status 2.
\<close>

datatype fatal =
    FatalStart start_error
  | FatalServe string

datatype process_end =
    Exited int "fatal option"
  | PanickedWith string

definition helper_main :: "(start_error, 'g program) result \<Rightarrow> server_end \<Rightarrow> process_end" where
  "helper_main started e =
     (case started of
        Inl SecretTooShort \<Rightarrow> PanickedWith (''cookie secret must be at least '' @ int_str (int minSecretBytes) @ '' bytes'')
      | Inl err \<Rightarrow> Exited 1 (Some (FatalStart err))
      | Inr p \<Rightarrow>
          (case ServerRun e of
             None \<Rightarrow> Exited 0 None
           | Some m \<Rightarrow> Exited 1 (Some (FatalServe m))))"

section \<open>Lemmas\<close>

lemma NewClient_configured:
  assumes "cf_frsDefaultUsername cfg \<noteq> []"
  shows "NewClient parse_key (sftp_config_of cfg signer) =
    Inr \<lparr>cl_username = cf_frsDefaultUsername cfg, cl_signer = signer, cl_timeout = cf_sftpConnectTimeout cfg\<rparr>"
  using assms by (simp add: NewClient_def sftp_config_of_def)

lemma NewSessionStore_configured:
  "16 \<le> length (cf_cookieSecret cfg) \<Longrightarrow>
     NewSessionStore (cf_cookieSecret cfg) ttl = Some \<lparr>ss_secret = cf_cookieSecret cfg, ss_ttl = ttl\<rparr>"
  by (simp add: NewSessionStore_def minSecretBytes_def)

text \<open>The summary tells nothing of the password, of the cookie secret, or of the account.\<close>

lemma summary_without_secrets:
  "startup_summary (cfg\<lparr>cf_username := u, cf_password := p, cf_cookieSecret := c\<rparr>) env addr = startup_summary cfg env addr"
  by (simp add: startup_summary_def)

text \<open>A start that gets past the configuration and the cluster: the key and the socket decide.\<close>

lemma run_helper_eq:
  assumes "Load env = Inr cfg" "NewK8sClient g \<lparr>co_inCluster = cf_k8sInCluster cfg, co_kubeconfig = [], co_fake = False\<rparr> = Inr kc"
    and "LoadOrGenerate l sv st (cf_keySecretNamespace cfg) (cf_keySecretName cfg) = (Inr km, st')"
  shows "run_helper g l parse_key sv px listen env st =
    (case listen (cf_listen cfg @ '':'' @ int_str (cf_port cfg)) of
       Inl e \<Rightarrow> (Inl (ListenFailed e), st')
     | Inr addr \<Rightarrow>
         (case New (NewAuthenticator (cf_username cfg) (cf_password cfg)
                     \<lparr>ss_secret = cf_cookieSecret cfg, ss_ttl = cf_sessionTTL cfg\<rparr> ''kfrs_sid'')
                   (cf_frsDefaultUsername cfg) (km_pubKeyPEM km) (cf_frsPort cfg) (cf_nsWhitelist cfg)
                   (cf_frsWaitTimeout cfg) (program_version env) (cf_sftpPoolTTL cfg) of
            (s, w) \<Rightarrow>
              (Inr \<lparr>pg_level = level_of (cf_logLevel cfg), pg_preflight = fst (snd (RunPreflight px (preflight_of cfg))),
                    pg_sftp = \<lparr>cl_username = cf_frsDefaultUsername cfg, cl_signer = km_signer km, cl_timeout = cf_sftpConnectTimeout cfg\<rparr>,
                    pg_server = s, pg_state = w, pg_addr = addr\<rparr>, st')))"
  using assms Load_Inr [OF assms(1)]
  by (simp add: run_helper_def NewClient_configured NewSessionStore_configured New_def split: sum.splits)

lemma run_helperE:
  assumes "run_helper g l parse_key sv px listen env st = (Inr p, st')"
  obtains cfg kc km addr where "Load env = Inr cfg"
    "NewK8sClient g \<lparr>co_inCluster = cf_k8sInCluster cfg, co_kubeconfig = [], co_fake = False\<rparr> = Inr kc"
    "LoadOrGenerate l sv st (cf_keySecretNamespace cfg) (cf_keySecretName cfg) = (Inr km, st')"
    "listen (cf_listen cfg @ '':'' @ int_str (cf_port cfg)) = Inr addr" "pg_addr p = addr"
    "pg_sftp p = \<lparr>cl_username = cf_frsDefaultUsername cfg, cl_signer = km_signer km, cl_timeout = cf_sftpConnectTimeout cfg\<rparr>"
    "(pg_server p, pg_state p) = New (NewAuthenticator (cf_username cfg) (cf_password cfg)
        \<lparr>ss_secret = cf_cookieSecret cfg, ss_ttl = cf_sessionTTL cfg\<rparr> ''kfrs_sid'')
      (cf_frsDefaultUsername cfg) (km_pubKeyPEM km) (cf_frsPort cfg) (cf_nsWhitelist cfg) (cf_frsWaitTimeout cfg)
      (program_version env) (cf_sftpPoolTTL cfg)"
proof -
  obtain cfg where cfg: "Load env = Inr cfg"
    using assms by (auto simp: run_helper_def split: sum.splits)
  then obtain kc where kc: "NewK8sClient g \<lparr>co_inCluster = cf_k8sInCluster cfg, co_kubeconfig = [], co_fake = False\<rparr> = Inr kc"
    using assms by (auto simp: run_helper_def split: sum.splits)
  obtain km st1 where km: "LoadOrGenerate l sv st (cf_keySecretNamespace cfg) (cf_keySecretName cfg) = (Inr km, st1)"
    using assms cfg kc by (auto simp: run_helper_def Let_def split: sum.splits prod.splits)
  show ?thesis
    using assms that [OF cfg kc] km unfolding run_helper_eq [OF cfg kc km]
    by (auto simp: New_def split: sum.splits)
qed

section \<open>An example\<close>

definition demo_cluster :: "(unit, unit, unit, unit) client_go" where
  "demo_cluster = \<lparr>cg_inCluster = Inr (), cg_fromFlags = (\<lambda>_. Inr ()), cg_core = (\<lambda>_. Inr ()), cg_dynamic = (\<lambda>_. Inr ()),
     cg_http = (\<lambda>_. Inr ()), cg_host = (\<lambda>_. []), cg_home = [], cg_fakeCore = (), cg_fakeDyn = (\<lambda>_. ())\<rparr>"

definition demo_run :: "(string \<times> string, secret) gomap \<Rightarrow> (start_error, string program) result \<times> (string \<times> string, secret) gomap" where
  "demo_run st = run_helper demo_cluster demo_ssh (\<lambda>s. Inr s) demo_secrets demo_preflight (\<lambda>a. Inr a) demo_env st"

lemma demo_config:
  "\<exists>cfg. Load demo_env = Inr cfg \<and> cf_keySecretNamespace cfg = ''kasten-io'' \<and>
     cf_keySecretName cfg = ''kasten-frs-helper-private-key'' \<and> cf_k8sInCluster cfg"
  by (subst load_defaults) (simp_all add: demo_env_def os_getenv_def)

definition demo_manager :: "(string, string) key_manager" where
  "demo_manager = \<lparr>km_signer = ''key'', km_publicKey = ''key'', km_pubKeyPEM = ''Pkey'', km_signerRaw = ''Skey''\<rparr>"

definition demo_stored :: "(string \<times> string, secret) gomap" where
  "demo_stored = [((''kasten-io'', ''kasten-frs-helper-private-key''), \<lparr>sec_type = secret_type_ssh,
     sec_data = [(fieldPrivate, ''Skey''), (fieldPublic, ''Pkey'')]\<rparr>)]"

lemma demo_key_loaded:
  "LoadOrGenerate demo_ssh demo_secrets [] ''kasten-io'' ''kasten-frs-helper-private-key'' = (Inr demo_manager, demo_stored)"
  "LoadOrGenerate demo_ssh demo_secrets demo_stored ''kasten-io'' ''kasten-frs-helper-private-key'' = (Inr demo_manager, demo_stored)"
  unfolding demo_manager_def demo_stored_def by code_simp+

lemma demo_run_starts:
  "\<exists>p. demo_run [] = (Inr p, demo_stored)" "\<exists>p. demo_run demo_stored = (Inr p, demo_stored)"
proof -
  obtain cfg where cfg: "Load demo_env = Inr cfg" "cf_keySecretNamespace cfg = ''kasten-io''"
    "cf_keySecretName cfg = ''kasten-frs-helper-private-key''" "cf_k8sInCluster cfg"
    using demo_config by blast
  have kc: "\<exists>kc. NewK8sClient demo_cluster \<lparr>co_inCluster = cf_k8sInCluster cfg, co_kubeconfig = [], co_fake = False\<rparr> = Inr kc"
    by (simp add: NewK8sClient_def demo_cluster_def cfg(4) Let_def)
  then obtain kc where kc: "NewK8sClient demo_cluster \<lparr>co_inCluster = cf_k8sInCluster cfg, co_kubeconfig = [], co_fake = False\<rparr> = Inr kc"
    by blast
  show "\<exists>p. demo_run [] = (Inr p, demo_stored)"
    using run_helper_eq [OF cfg(1) kc demo_key_loaded(1) [folded cfg(2,3)]] by (simp add: demo_run_def New_def)
  show "\<exists>p. demo_run demo_stored = (Inr p, demo_stored)"
    using run_helper_eq [OF cfg(1) kc demo_key_loaded(2) [folded cfg(2,3)]] by (simp add: demo_run_def New_def)
qed

section \<open>Properties\<close>

text \<open>
  The program starts exactly when the configuration loads, a client for the cluster can be built, the key
  pair is loaded or generated and the address can be listened on. The checks of the configuration are
  enough for everything after them: the store of the sessions does not panic and the SFTP client is not
  refused.
\<close>

lemma starts_iff:
  "(\<exists>p. fst (run_helper g l parse_key sv px listen env st) = Inr p) \<longleftrightarrow>
     (\<exists>cfg kc km addr. Load env = Inr cfg \<and>
        NewK8sClient g \<lparr>co_inCluster = cf_k8sInCluster cfg, co_kubeconfig = [], co_fake = False\<rparr> = Inr kc \<and>
        fst (LoadOrGenerate l sv st (cf_keySecretNamespace cfg) (cf_keySecretName cfg)) = Inr km \<and>
        listen (cf_listen cfg @ '':'' @ int_str (cf_port cfg)) = Inr addr)"
  (is "?started \<longleftrightarrow> ?possible")
proof
  assume ?started
  then obtain p st' where "run_helper g l parse_key sv px listen env st = (Inr p, st')" by (metis surjective_pairing)
  then show ?possible by (rule run_helperE) (auto intro!: exI)
next
  assume ?possible
  then obtain cfg kc km addr st' where "Load env = Inr cfg"
    "NewK8sClient g \<lparr>co_inCluster = cf_k8sInCluster cfg, co_kubeconfig = [], co_fake = False\<rparr> = Inr kc"
    "LoadOrGenerate l sv st (cf_keySecretNamespace cfg) (cf_keySecretName cfg) = (Inr km, st')"
    "listen (cf_listen cfg @ '':'' @ int_str (cf_port cfg)) = Inr addr"
    by (metis surjective_pairing)
  then show ?started by (simp add: run_helper_eq New_def)
qed

lemma secret_never_short: "fst (run_helper g l parse_key sv px listen env st) \<noteq> Inl SecretTooShort"
proof (cases "Load env")
  case (Inr cfg)
  show ?thesis
    using Load_Inr [OF Inr] Inr
    by (auto simp: run_helper_def Let_def NewSessionStore_configured New_def split: sum.splits prod.splits)
qed (simp add: run_helper_def)

text \<open>
  C39: the process never ends in a panic of its start, and its exit status tells how it went: 0 exactly when
  the configuration loads, the cluster's client can be built, the key pair is there, the address can be
  listened on, and the server then ends by a clean shutdown, or because it was closed; 1 otherwise.
\<close>

theorem exit_status:
  "case helper_main (fst (run_helper g l parse_key sv px listen env st)) e of
     PanickedWith m \<Rightarrow> False
   | Exited code err \<Rightarrow>
       code = (if (\<exists>cfg kc km addr. Load env = Inr cfg \<and>
                   NewK8sClient g \<lparr>co_inCluster = cf_k8sInCluster cfg, co_kubeconfig = [], co_fake = False\<rparr> = Inr kc \<and>
                   fst (LoadOrGenerate l sv st (cf_keySecretNamespace cfg) (cf_keySecretName cfg)) = Inr km \<and>
                   listen (cf_listen cfg @ '':'' @ int_str (cf_port cfg)) = Inr addr) \<and>
                 (e = ContextDone None \<or> e = ServeReturned None \<or> e = ServeReturned (Some ServerClosed))
               then 0 else 1) \<and>
       (code = 0 \<longleftrightarrow> err = None)"
proof -
  have e: "ServerRun e = None \<longleftrightarrow> e = ContextDone None \<or> e = ServeReturned None \<or> e = ServeReturned (Some ServerClosed)"
    by (simp add: ServerRun_def split: server_end.splits option.splits serve_error.splits)
  show ?thesis
    unfolding starts_iff [of g l parse_key sv px listen env st, symmetric] e [symmetric] helper_main_def
    using secret_never_short [of g l parse_key sv px listen env st]
    by (auto split: sum.splits start_error.splits option.splits)
qed

text \<open>
  C28: a started program is in the initial state of the server with what was configured: it asks for
  the configured account, signs cookies with the configured secret, hands out the public key that
  belongs to the manager that was loaded, logs in at the sessions as the configured user and allows
  the configured port only. The name of its cookie is fixed, whatever is configured.
\<close>

theorem startup_wiring:
  assumes "run_helper g l parse_key sv px listen env st = (Inr p, st')"
  shows "server_reachable (pg_server p) (pg_state p) \<and>
    (\<exists>cfg km. Load env = Inr cfg \<and>
       LoadOrGenerate l sv st (cf_keySecretNamespace cfg) (cf_keySecretName cfg) = (Inr km, st') \<and>
       (let a = sr_auth (pg_server p) in
        au_username a = cf_username cfg \<and> au_username a \<noteq> [] \<and> au_password a = cf_password cfg \<and> au_password a \<noteq> [] \<and>
        ss_secret (au_sessions a) = cf_cookieSecret cfg \<and> minSecretBytes \<le> length (ss_secret (au_sessions a)) \<and>
        ss_ttl (au_sessions a) = cf_sessionTTL cfg \<and> au_cookieName a = ''kfrs_sid'') \<and>
       sr_pubKeyPEM (pg_server p) = km_pubKeyPEM km \<and> cl_signer (pg_sftp p) = km_signer km \<and>
       cl_username (pg_sftp p) = cf_frsDefaultUsername cfg \<and> sr_frsPort (pg_server p) = cf_frsPort cfg \<and>
       sr_nsWhitelist (pg_server p) = cf_nsWhitelist cfg \<and> pool_ttl (st_pool (pg_state p)) = cf_sftpPoolTTL cfg)"
  using assms
proof (rule run_helperE)
  fix cfg kc km addr
  assume a: "Load env = Inr cfg" "LoadOrGenerate l sv st (cf_keySecretNamespace cfg) (cf_keySecretName cfg) = (Inr km, st')"
    "pg_sftp p = \<lparr>cl_username = cf_frsDefaultUsername cfg, cl_signer = km_signer km, cl_timeout = cf_sftpConnectTimeout cfg\<rparr>"
    and new: "(pg_server p, pg_state p) = New (NewAuthenticator (cf_username cfg) (cf_password cfg)
        \<lparr>ss_secret = cf_cookieSecret cfg, ss_ttl = cf_sessionTTL cfg\<rparr> ''kfrs_sid'')
      (cf_frsDefaultUsername cfg) (km_pubKeyPEM km) (cf_frsPort cfg) (cf_nsWhitelist cfg) (cf_frsWaitTimeout cfg)
      (program_version env) (cf_sftpPoolTTL cfg)"
  show ?thesis
    using server_started [OF new] new a Load_Inr [OF a(1)]
    by (auto simp: New_def NewAuthenticator_def minSecretBytes_def)
qed

theorem startup_wiring_witness:
  "\<exists>p. fst (demo_run []) = Inr p \<and> au_cookieName (sr_auth (pg_server p)) = ''kfrs_sid''"
proof -
  obtain p where p: "demo_run [] = (Inr p, demo_stored)" using demo_run_starts(1) by blast
  show ?thesis using startup_wiring [OF p [unfolded demo_run_def]] p by (auto simp: Let_def)
qed

text \<open>
  A restart keeps the SSH key: once a start has succeeded, any later start on the Secrets it left
  that is configured with the same Secret gives the same public key and signer and changes nothing.
\<close>

lemma restart_keeps_key:
  assumes "secret_service_ok sv" "ssh_lib_ok l"
    and "run_helper g l parse_key sv px listen env st = (Inr p, st1)"
    and "run_helper g' l parse_key sv px' listen' env' st1 = (Inr p', st2)"
    and "map_sum id (\<lambda>c. (cf_keySecretNamespace c, cf_keySecretName c)) (Load env) =
      map_sum id (\<lambda>c. (cf_keySecretNamespace c, cf_keySecretName c)) (Load env')"
  shows "sr_pubKeyPEM (pg_server p') = sr_pubKeyPEM (pg_server p) \<and> cl_signer (pg_sftp p') = cl_signer (pg_sftp p) \<and> st2 = st1"
proof -
  obtain cfg km where c: "Load env = Inr cfg" "LoadOrGenerate l sv st (cf_keySecretNamespace cfg) (cf_keySecretName cfg) = (Inr km, st1)"
    "sr_pubKeyPEM (pg_server p) = km_pubKeyPEM km" "cl_signer (pg_sftp p) = km_signer km"
    using assms(3) by (rule run_helperE) (auto simp: New_def)
  obtain cfg' km' where c': "Load env' = Inr cfg'"
    "LoadOrGenerate l sv st1 (cf_keySecretNamespace cfg') (cf_keySecretName cfg') = (Inr km', st2)"
    "sr_pubKeyPEM (pg_server p') = km_pubKeyPEM km'" "cl_signer (pg_sftp p') = km_signer km'"
    using assms(4) by (rule run_helperE) (auto simp: New_def)
  have "LoadOrGenerate l sv st1 (cf_keySecretNamespace cfg) (cf_keySecretName cfg) = (Inr km, st1)"
    by (rule load_again [OF assms(1,2) c(2)])
  then have "km' = km \<and> st2 = st1" using c(1) c'(1,2) assms(5) by simp
  then show ?thesis using c(3,4) c'(3,4) by simp
qed

lemma restart_keeps_key_witness:
  "\<exists>p p'. fst (demo_run []) = Inr p \<and> fst (demo_run demo_stored) = Inr p' \<and>
     sr_pubKeyPEM (pg_server p') = sr_pubKeyPEM (pg_server p)"
proof -
  obtain p where p: "demo_run [] = (Inr p, demo_stored)" using demo_run_starts(1) by blast
  obtain p' where p': "demo_run demo_stored = (Inr p', demo_stored)" using demo_run_starts(2) by blast
  show ?thesis
    using restart_keeps_key [OF demo_secrets_ok demo_ssh_ok p [unfolded demo_run_def] p' [unfolded demo_run_def] refl] p p' by auto
qed

end
