(* ===== verification/Lifetime.thy ===== *)
theory Lifetime
  imports Router
begin

text \<open>
  The life of the SFTP connections in the server when requests run one after another: the server
  refines the pool's operations, so that every connection ever opened is accounted for; how far the
  gauge of active connections can be trusted; and what becomes of a connection that its browser no
  longer uses. Interleaving.thy extends the refinement to requests that overlap.
\<close>

section \<open>The server refines the pool\<close>

text \<open>The pool and the next handle; a Store is given the next handle, other operations none.\<close>

inductive pool_life :: "nat pool \<times> nat \<Rightarrow> nat pool \<times> nat \<Rightarrow> bool" where
  operation: "pool_life (p, n) (pool_step op p, m)" if "stored_op op = [n..<m]" "n \<le> m"

definition fresh_pool :: "nat pool \<times> nat \<Rightarrow> bool" where
  "fresh_pool a \<longleftrightarrow> (\<exists>ttl. a = (NewPool ttl, 0))"

definition pool_view :: "server_state \<Rightarrow> nat pool \<times> nat" where
  "pool_view w = (st_pool w, st_next w)"

lemma pool_life_operation:
  "st_pool w' = pool_step op (st_pool w) \<Longrightarrow> stored_op op = [st_next w..<st_next w'] \<Longrightarrow> st_next w \<le> st_next w' \<Longrightarrow>
     pool_life (pool_view w) (pool_view w')"
  unfolding pool_view_def by (metis pool_life.operation)

lemma session_only_pool:
  "session_only s x r w w' \<Longrightarrow> pool_view w' = pool_view w \<or> pool_life (pool_view w) (pool_view w')"
proof (unfold session_only_def, elim conjE disjE exE)
  fix ref
  assume "st_pool w' = snd (Get (session_key_of s r ref) (ox_now x) (ox_now x) (st_pool w))" "st_next w' = st_next w"
  then have "pool_life (pool_view w) (pool_view w')"
    by (intro pool_life_operation [of _ "OpGet (session_key_of s r ref) (ox_now x) (ox_now x)"]) simp_all
  then show ?thesis ..
qed (simp add: pool_view_def)

lemma serve_authed_pool:
  "pool_view (snd (serve_authed a s x r w)) = pool_view w \<or> pool_life (pool_view w) (pool_view (snd (serve_authed a s x r w)))"
proof (cases a s x r w rule: serve_authed_effect)
  case own
  then show ?thesis by (rule session_only_pool)
next
  case wizard
  then show ?thesis by (simp add: same_sessions_def pool_view_def)
next
  case (connect ref)
  have "pool_life (pool_view w) (pool_view (snd (serve_authed a s x r w)))"
    by (rule pool_life_operation [of _ "OpStore (session_key_of s r ref) (st_next w) (ox_now x)"])
      (use connect in \<open>auto simp: connected_def store_session_def record_metric_def Let_def\<close>)
  then show ?thesis ..
next
  case (delete ns name)
  have "pool_life (pool_view w) (pool_view (snd (serve_authed a s x r w)))"
    by (rule pool_life_operation [of _ "OpCloseAll (percent_decode ns) (percent_decode name)"]) (simp_all add: delete(2))
  then show ?thesis ..
qed

lemma server_step_pool:
  "server_step s w w' \<Longrightarrow> pool_view w' = pool_view w \<or> pool_life (pool_view w) (pool_view w')"
proof (induction rule: server_step.induct)
  case (request w x r)
  show ?case
  proof (cases s x r w rule: serve_effect)
    case (authed a)
    then show ?thesis using serve_authed_pool by simp
  qed (simp add: pool_view_def)
qed (simp_all add: watcher_ends_def pool_view_def)

interpretation pool_refinement: simulation "server_init s" "server_step s" fresh_pool pool_life pool_view for s
  by unfold_locales (auto simp: server_init_def New_def pool_view_def fresh_pool_def dest: server_step_pool)

lemma pool_life_run:
  "reach fresh_pool pool_life a \<Longrightarrow>
     \<exists>ops. fst a = pool_run ops (NewPool (pool_ttl (fst a))) \<and> stored ops = [0..<snd a]"
proof (induction rule: reach_invariant)
  case (init a)
  then show ?case by (auto simp: fresh_pool_def stored_def intro!: exI [of _ "[]"])
next
  case (step a b)
  then obtain ops where ops: "fst a = pool_run ops (NewPool (pool_ttl (fst a)))" "stored ops = [0..<snd a]" by blast
  from \<open>pool_life a b\<close> show ?case
  proof (cases rule: pool_life.cases)
    case (operation op n m p)
    then have "fst b = pool_run (ops @ [op]) (NewPool (pool_ttl (fst b)))" "stored (ops @ [op]) = [0..<snd b]"
      using ops upt_add_eq_append [of 0 n "m - n"] by (simp_all add: stored_def)
    then show ?thesis by blast
  qed
qed

lemma pool_life_accounted:
  assumes "reach fresh_pool pool_life (pool_view w)"
  shows "\<exists>ops. st_pool w = pool_run ops (NewPool (pool_ttl (st_pool w))) \<and> stored ops = [0..<st_next w] \<and>
    mset [0..<st_next w] = mset (live (st_pool w)) + mset (pool_closed (st_pool w)) +
      mset (displaced ops (NewPool (pool_ttl (st_pool w))))"
proof -
  obtain ops where ops: "st_pool w = pool_run ops (NewPool (pool_ttl (st_pool w)))" "stored ops = [0..<st_next w]"
    using pool_life_run [OF assms] by (auto simp: pool_view_def)
  then show ?thesis
    using pool_run_conserves [OF wf_NewPool, of ops "pool_ttl (st_pool w)"] by auto
qed

section \<open>The gauge of active connections\<close>

lemma Len_live: "Len p = length (live p)"
  by (simp add: Len_def live_def)

text \<open>Only a Store makes the pool longer.\<close>

lemma pool_step_shorter:
  assumes "wf_pool p" "stored_op op = []"
  shows "Len (pool_step op p) \<le> Len p"
proof -
  have "length (pool_closed p) \<le> length (pool_closed (pool_step op p))"
    by (cases op) (auto simp: pool_ops split: option.splits)
  with arg_cong [OF pool_step_conserves [OF assms(1), of op], of size] assms(2)
  show ?thesis by (simp add: Len_live)
qed

text \<open>Every step of the server leaves the gauge alone and the pool no longer, or sets the gauge to the pool's length.\<close>

definition gauge_step :: "server_state \<Rightarrow> server_state \<Rightarrow> bool" where
  "gauge_step w w' \<longleftrightarrow>
     st_active w' = st_active w \<and> Len (st_pool w') \<le> Len (st_pool w) \<or> st_active w' = Len (st_pool w')"

lemma session_only_gauge: "wf_pool (st_pool w) \<Longrightarrow> session_only s x r w w' \<Longrightarrow> gauge_step w w'"
  using pool_step_shorter [of "st_pool w" "OpGet key now now" for key now]
  by (auto simp: session_only_def gauge_step_def)

lemma server_step_gauge:
  assumes "server_step s w w'" "wf_pool (st_pool w)"
  shows "gauge_step w w'"
  using assms
proof (induction rule: server_step.induct)
  case (request w x r)
  show ?case
  proof (cases s x r w rule: serve_effect)
    case (authed a)
    show ?thesis
    proof (cases a s x "csrf_parsed r" w rule: serve_authed_effect)
      case own
      then show ?thesis using session_only_gauge [OF request] unfolding authed(3) by blast
    next
      case wizard
      then show ?thesis unfolding authed(3) by (simp add: same_sessions_def gauge_step_def)
    next
      case (connect ref)
      then show ?thesis
        unfolding authed(3) by (auto simp: connected_def store_session_def record_metric_def Let_def gauge_step_def)
    next
      case (delete ns name)
      then show ?thesis unfolding authed(3) by (simp add: gauge_step_def)
    qed
  qed (simp add: gauge_step_def)
qed (simp_all add: watcher_ends_def gauge_step_def)

lemma gauge_bound: "server_reachable s w \<Longrightarrow> Len (st_pool w) \<le> st_active w"
proof (induction rule: reach_invariant)
  case (init w)
  then show ?case by (auto simp: server_init_def New_def Len_live)
next
  case (step w w')
  have "gauge_step w w'"
    by (rule server_step_gauge [OF \<open>server_step s w w'\<close> conn_inv_wf [OF server_reachable_inv [OF \<open>server_reachable s w\<close>]]])
  then show ?case using step.IH by (auto simp: gauge_step_def)
qed

text \<open>
  C32: as long as requests run one after another (a request is one step), the gauge of active SFTP connections
  never reports fewer than the pool holds, and each step of the server either leaves it, with the pool no
  longer than before, or sets it to the pool's exact length; it reports too many from the
  expiry of a session until the next connect or delete. When two connects overlap the bound is lost
  (\<open>overlapping_connects_lose_count\<close> in Interleaving.thy).
\<close>

theorem active_gauge_bound:
  assumes "server_reachable s w" and "server_step s w w'"
  shows "Len (st_pool w') \<le> st_active w' \<and>
    (st_active w' = st_active w \<and> Len (st_pool w') \<le> Len (st_pool w) \<or> st_active w' = Len (st_pool w'))"
  using gauge_bound [OF reach.next_step [OF assms]]
    server_step_gauge [OF assms(2) conn_inv_wf [OF server_reachable_inv [OF assms(1)]]]
  unfolding gauge_step_def by blast

theorem active_gauge_bound_witness: "Len (st_pool demo_connected) \<le> st_active demo_connected"
  using active_gauge_bound [OF demo_reachable server_step.request] unfolding demo_connected_def by blast

section \<open>Connections that are no longer used\<close>

text \<open>
  The steps that do not come from the browser session of a key and do not delete its
  FileRecoverySession: requests of others, ends of watchers and sweeps, at any time.
\<close>

definition leaves_alone :: "server \<Rightarrow> session_key \<Rightarrow> request \<Rightarrow> bool" where
  "leaves_alone s key r \<longleftrightarrow>
     sk_user key \<noteq> userIDFromCookie r (au_cookieName (sr_auth s)) \<and>
     (\<forall>ns name. route_of (rq_method r) (rq_path r) = Authed (SessionDelete ns name) \<longrightarrow>
        sk_frs key \<noteq> \<lparr>nn_ns = percent_decode ns, nn_name = percent_decode name\<rparr>)"

inductive others_step :: "server \<Rightarrow> session_key \<Rightarrow> server_state \<Rightarrow> server_state \<Rightarrow> bool"
  for s :: server and key :: session_key where
  request: "others_step s key w (snd (serve s x r w))" if "leaves_alone s key r"
| watcher: "others_step s key w (watcher_ends s now ref wait w)"
| tick: "others_step s key w (w\<lparr>st_watches := fst (watch_sweep maxAge now (st_watches w))\<rparr>)"

lemma others_step_server: "others_step s key w w' \<Longrightarrow> server_step s w w'"
  by (induction rule: others_step.induct) (rule server_step.intros)+

lemma others_step_entry:
  assumes "others_step s key w w'" "conn_inv w"
  shows "map_of (pool_entries (st_pool w')) key = map_of (pool_entries (st_pool w)) key"
  using assms
proof (induction rule: others_step.induct)
  case (request r w x)
  show ?case
  proof (cases s x r w rule: serve_effect)
    case (authed a)
    have k: "key \<noteq> session_key_of s (csrf_parsed r) ref" for ref
      using request(1) by (auto simp: leaves_alone_def session_key_of_def userIDFromCookie_def Cookie_def)
    show ?thesis
    proof (cases a s x "csrf_parsed r" w rule: serve_authed_effect)
      case own
      then show ?thesis using k Get_other_key unfolding session_only_def authed(3) by metis
    next
      case wizard
      then show ?thesis unfolding authed(3) same_sessions_def by simp
    next
      case (connect ref)
      then show ?thesis using store_other_key k unfolding authed(3) by blast
    next
      case (delete ns name)
      then show ?thesis
        using request authed(1) CloseAll_key [OF conn_inv_wf [OF request(2)]] by (simp add: authed(3) leaves_alone_def)
    qed
  qed simp
qed (simp_all add: watcher_ends_def)

lemma others_reach:
  assumes "server_reachable s w" "reach (\<lambda>v. v = w) (others_step s key) w'"
  shows "server_reachable s w' \<and> map_of (pool_entries (st_pool w')) key = map_of (pool_entries (st_pool w)) key"
  using assms(2)
proof (induction rule: reach_invariant)
  case (step v v')
  then show ?case
    using others_step_entry server_reachable_inv others_step_server reach.next_step by metis
qed (simp add: assms(1))

text \<open>
  C14: no amount of idle time closes a connection by itself. However long a pooled
  connection has not been used, it stays open through every step of other browser sessions, of watchers and of
  sweeps, but for the deletion of its FileRecoverySession; its owner's first use after the idle time closes
  it and finds nothing.
\<close>

theorem idle_connection_kept:
  assumes "server_reachable s w" "map_of (pool_entries (st_pool w)) key = Some e"
    and "reach (\<lambda>v. v = w) (others_step s key) w'"
  shows "map_of (pool_entries (st_pool w')) key = Some e \<and> map_of (st_conns w') (pe_sess e) \<noteq> None \<and>
    pe_sess e \<notin> set (pool_closed (st_pool w')) \<and>
    (\<forall>x. time_sub (ox_now x) (pe_lastUsedAt e) > pool_ttl (st_pool w') \<longrightarrow>
       fst (pool_get x key w') = None \<and> pe_sess e \<in> set (pool_closed (st_pool (snd (pool_get x key w')))))"
proof -
  have w': "server_reachable s w'" and e: "map_of (pool_entries (st_pool w')) key = Some e"
    using others_reach [OF assms(1,3)] assms(2) by simp_all
  have "fst (pool_get x key w') = None \<and> pe_sess e \<in> set (pool_closed (st_pool (snd (pool_get x key w'))))"
    if "time_sub (ox_now x) (pe_lastUsedAt e) > pool_ttl (st_pool w')" for x
    using that e by (simp add: pool_get_def Get_def)
  then show ?thesis using e pooled_open [OF server_reachable_inv [OF w'] e] by blast
qed

theorem idle_connection_kept_witness:
  "let w = demo_connected\<lparr>st_watches := fst (watch_sweep Hour (31 * Minute) (st_watches demo_connected))\<rparr>;
       key = demo_key demo_signed in
   map_of (pool_entries (st_pool w)) key = Some \<lparr>pe_sess = 0, pe_lastUsedAt = 0\<rparr> \<and>
   0 \<in> set (pool_closed (st_pool (snd (pool_get (demo_outside\<lparr>ox_now := 31 * Minute\<rparr>) key w))))"
proof -
  let ?key = "demo_key demo_signed" and ?e = "\<lparr>pe_sess = 0, pe_lastUsedAt = 0\<rparr>"
  let ?w = "demo_connected\<lparr>st_watches := fst (watch_sweep Hour (31 * Minute) (st_watches demo_connected))\<rparr>"
  have e: "map_of (pool_entries (st_pool demo_connected)) ?key = Some ?e"
    and ttl: "pool_ttl (st_pool demo_connected) = 30 * Minute"
    by (simp_all add: demo_connected_eq store_session_def record_metric_def Store_def Let_def demo_state_def New_def
        NewPool_def demo_outside_def)
  have "reach (\<lambda>v. v = demo_connected) (others_step demo_site ?key) ?w"
    by (rule reach.next_step [where s = demo_connected], rule reach.start, rule refl, rule others_step.tick)
  note kept = idle_connection_kept [OF demo_connected_reachable e this]
  have "time_sub (31 * Minute) 0 > 30 * Minute" by (simp add: time_sub_def max_i64_def min_i64_def)
  then show ?thesis
    unfolding Let_def using kept ttl by simp
qed

end
