(* ===== verification/Journey.thy ===== *)
theory Journey
  imports Lifetime
begin

text \<open>
  What a browser meets across its requests: the connection it has opened is left alone by the requests of
  others, its server and its state included; what it browses is the server it has dialled; and its polls for
  a session it has created tell it what the watcher of the session saw.
\<close>

section \<open>A connection is used by its owner\<close>

text \<open>The session \<open>h\<close> is none of those the request's browser session has in the pool.\<close>

definition foreign :: "server \<Rightarrow> request \<Rightarrow> server_state \<Rightarrow> nat \<Rightarrow> bool" where
  "foreign s r w h \<longleftrightarrow> (\<forall>ref e. map_of (pool_entries (st_pool w)) (session_key_of s r ref) = Some e \<longrightarrow> pe_sess e \<noteq> h)"

lemma foreign_parts [simp]:
  "foreign s (with_values a b r) w h = foreign s r w h" "foreign s (csrf_parsed r) w h = foreign s r w h"
  by (simp_all add: foreign_def session_key_of_def userIDFromCookie_def Cookie_def)

lemma pool_get_conns:
  assumes "pool_get x key w = (g, w')"
  shows "st_conns w' = st_conns w" "g = Some h \<Longrightarrow> \<exists>e. map_of (pool_entries (st_pool w)) key = Some e \<and> pe_sess e = h"
  using assms Get_SomeD(3) [of key "ox_now x" "ox_now x" "st_pool w"] by (auto simp: pool_get_def split: prod.splits)

lemma foreign_get:
  "foreign s r w h \<Longrightarrow> pool_get x (session_key_of s r ref) w = (g, w') \<Longrightarrow> st_conns w' = st_conns w \<and> g \<noteq> Some h"
  using pool_get_conns unfolding foreign_def by blast

lemma on_session_conns:
  "on_session h' f w = (res, w') \<Longrightarrow> h' \<noteq> h \<Longrightarrow> map_of (st_conns w') h = map_of (st_conns w) h"
  by (auto simp: on_session_def find_simps split: option.splits prod.splits)

lemma record_metric_conns [simp]: "st_conns (record_metric m w) = st_conns w"
  by (simp add: record_metric_def)

lemma handlers_conns:
  assumes "foreign s r w h"
  shows "map_of (st_conns (snd (handleBrowse s x r w))) h = map_of (st_conns w) h"
    "map_of (st_conns (snd (handleDownload s x r w))) h = map_of (st_conns w) h"
    "map_of (st_conns (snd (handleDownloadZip s x r w))) h = map_of (st_conns w) h"
    "map_of (st_conns (snd (handleSessions s x r w))) h = map_of (st_conns w) h"
proof -
  note got = foreign_get [OF assms] and used = on_session_conns [where h = h]
  show "map_of (st_conns (snd (handleBrowse s x r w))) h = map_of (st_conns w) h"
    by (auto simp: handleBrowse_def Let_def split: option.splits prod.splits sum.splits dest!: got dest: used)
  show "map_of (st_conns (snd (handleDownload s x r w))) h = map_of (st_conns w) h"
    by (auto simp: handleDownload_def split: option.splits prod.splits sum.splits dest!: got used)
  show "map_of (st_conns (snd (handleDownloadZip s x r w))) h = map_of (st_conns w) h"
    by (auto simp: handleDownloadZip_def Let_def split: option.splits prod.splits sum.splits dest!: got used)
  show "map_of (st_conns (snd (handleSessions s x r w))) h = map_of (st_conns w) h"
    by (simp add: handleSessions_def split: sum.splits)
qed

lemma connect_conns:
  "h \<noteq> st_next w \<Longrightarrow> map_of (st_conns (snd (handleConnect s x r w))) h = map_of (st_conns w) h"
  by (auto simp: handleConnect_def store_session_def record_metric_def Let_def find_simps split: sum.splits)

lemma delete_conns: "st_conns (snd (handleSessionDelete s x r w)) = st_conns w"
  by (simp add: handleSessionDelete_def Let_def split: option.splits)

lemma serve_conns:
  assumes "foreign s r w h" "h < st_next w"
  shows "map_of (st_conns (snd (serve s x r w))) h = map_of (st_conns w) h"
proof (cases s x r w rule: serve_effect)
  case (authed a)
  have f: "foreign s (csrf_parsed r) w h" using assms(1) by simp
  show ?thesis
    unfolding authed(3)
    by (cases a) (use assms(2) handlers_conns [OF f] wizard_writes in
        \<open>simp_all add: connect_conns delete_conns wizard_reads same_sessions_def\<close>)
qed simp

text \<open>The steps of others leave the connection of a key as it is.\<close>

lemma others_step_conn:
  assumes "others_step s key w w'" "conn_inv w" "map_of (pool_entries (st_pool w)) key = Some e"
  shows "map_of (st_conns w') (pe_sess e) = map_of (st_conns w) (pe_sess e)"
  using assms
proof (induction rule: others_step.induct)
  case (request r w x)
  have d: "distinct (live (st_pool w))" and lt: "\<forall>h \<in> set (keys (st_conns w)). h < st_next w"
    using request.prems(1) unfolding conn_inv_def distinct_append by blast+
  have "key \<noteq> session_key_of s r ref" for ref
    using request.hyps by (auto simp: leaves_alone_def session_key_of_def)
  then have "foreign s r w (pe_sess e)" unfolding foreign_def using live_unique [OF d request.prems(2)] by metis
  moreover have "pe_sess e \<in> set (keys (st_conns w))"
    using pooled_open(1) [OF request.prems] by (simp add: map_of_eq_None_iff)
  then have "pe_sess e < st_next w" using lt by blast
  ultimately show ?case by (rule serve_conns)
qed (simp_all add: watcher_ends_def)

lemma others_reach_conn:
  assumes "server_reachable s w" "map_of (pool_entries (st_pool w)) key = Some e" "reach (\<lambda>v. v = w) (others_step s key) w'"
  shows "map_of (st_conns w') (pe_sess e) = map_of (st_conns w) (pe_sess e)"
  using assms(3)
proof (induction rule: reach_invariant)
  case (step v v')
  have "conn_inv v" using others_reach [OF assms(1) step(1)] server_reachable_inv by blast
  moreover have "map_of (pool_entries (st_pool v)) key = Some e" using others_reach [OF assms(1) step(1)] assms(2) by simp
  ultimately show ?case using others_step_conn [OF step(2)] step(3) by simp
qed simp

lemma others_reach_ttl: "reach (\<lambda>v. v = w) (others_step s key) w' \<Longrightarrow> pool_ttl (st_pool w') = pool_ttl (st_pool w)"
proof (induction rule: reach_invariant)
  case (step v v')
  have "pool_view v' = pool_view v \<or> pool_life (pool_view v) (pool_view v')"
    by (rule server_step_pool [OF others_step_server [OF step(2)]])
  then have "pool_ttl (st_pool v') = pool_ttl (st_pool v)"
    by (auto simp: pool_view_def pool_step_ttl elim: pool_life.cases)
  then show ?case using step(3) by simp
qed simp

text \<open>A connect that succeeds, and the entry it makes.\<close>

lemma handleConnect_ok:
  assumes "fp_get (ox_frs x) \<lparr>ref_ns = PathValue r ''ns'', ref_name = PathValue r ''name''\<rparr> = Inr view"
    and "v_port view = sr_frsPort s" "ox_dial x (connect_addr view) (v_hostKeySig view) = Inr srv"
  shows "snd (handleConnect s x r w) =
    store_session x (session_key_of s r \<lparr>ref_ns = PathValue r ''ns'', ref_name = PathValue r ''name''\<rparr>) srv
      (record_metric (SFTPConnect ''success'') w)"
  using assms by (simp add: handleConnect_def Let_def)

lemma stored_entry:
  "map_of (pool_entries (st_pool (store_session x key srv w))) key = Some \<lparr>pe_sess = st_next w, pe_lastUsedAt = ox_now x\<rparr>"
  "map_of (st_conns (store_session x key srv w)) (st_next w) = Some (srv, new_session)"
  "pool_ttl (st_pool (store_session x key srv w)) = pool_ttl (st_pool w)"
  by (simp_all add: store_session_def Store_def Let_def find_simps)

lemma pool_get_fresh:
  assumes "map_of (pool_entries (st_pool w)) key = Some e" "time_sub (ox_now x) (pe_lastUsedAt e) \<le> pool_ttl (st_pool w)"
  shows "fst (pool_get x key w) = Some (pe_sess e)" "st_conns (snd (pool_get x key w)) = st_conns w"
  using assms by (simp_all add: pool_get_def Get_def)

text \<open>A pooled session is listed by the page for its path.\<close>

lemma handleBrowse_pooled:
  assumes "parseFRSQuery r = Some (ref, path)" "QueryGet r ''partial'' \<noteq> ''ready''"
    and "\<And>ws. watch_get ref (st_watches w) = Some ws \<Longrightarrow> ws_done ws \<Longrightarrow> ws_state ws = ''Ready''"
    and "fst (pool_get x (session_key_of s r ref) w) = Some h" "map_of (st_conns (snd (pool_get x (session_key_of s r ref) w))) h = Some (srv, sess)"
  shows "fst (handleBrowse s x r w) =
    (case fst (ListDir srv path sess) of
       Inl e \<Rightarrow> renderError 404 ''Failed to list directory'' (MsgSftp e)
     | Inr entries \<Rightarrow> html 200 (BrowsePage ref path (map (\<lambda>e. newBrowseEntry e path) entries) (csrf s x r)))"
proof -
  have "\<not> (case watch_get ref (st_watches w) of Some ws \<Rightarrow> ws_done ws \<and> ws_state ws \<noteq> ''Ready'' | None \<Rightarrow> False)"
    using assms(3) by (auto split: option.splits)
  then show ?thesis using assms
    by (auto simp: handleBrowse_def Let_def on_session_def split: prod.splits sum.splits)
qed

lemma serve_Authed:
  "route_of (rq_method r) (rq_path r) = Authed a \<Longrightarrow> authorized (ox_hmac x) (sr_auth s) (ox_now x) r \<Longrightarrow>
     serve s x r w = serve_authed a s x (csrf_parsed r) w"
  by (simp add: serve_def auth_gate.passes)

text \<open>What the poll for a session finds after its watcher has ended.\<close>

lemma watcher_entry:
  "ref \<in> set (st_running w) \<Longrightarrow>
     watch_get ref (st_watches (watcher_ends s now ref res w)) = Some (watch_outcome res\<lparr>ws_createdAt := now\<rparr>)"
  by (auto simp: watcher_ends_def watchFRSCreated_def watchFRSCreatedWithTimeout_def watch_get_set watch_outcome_def
      split: prod.splits option.splits)

lemma poll_decided:
  assumes "watch_get ref (st_watches w) = Some (watch_outcome (v, err)\<lparr>ws_createdAt := now\<rparr>)"
  shows "handlePartialReady s x r ref path w =
    (case err of
       None \<Rightarrow> no_content [(''HX-Redirect'', browse_url ref (query_escape path))]
     | Some e \<Rightarrow> html 200 (PreparingFragment ref (if v_state v = ''Failed'' then ''Failed'' else ''Timeout'') (Some e) (csrf s x r)))"
  using assms
  by (auto simp: handlePartialReady_def Let_def watch_outcome_def renderPreparingBody_def split: option.splits)

section \<open>Where connections lead\<close>

text \<open>
  The dial of the server, from its parts: the parser of keys, the SSH dial, the SFTP subsystem, the client made
  at the start, and what serves the session on a connection. \<open>dialled_step\<close> are the steps of a server
  that dials in this way, and whose provider reports the sessions of \<open>published\<close>.
\<close>

definition dialler ::
  "(string \<Rightarrow> (string, 'k) result) \<Rightarrow> (string \<Rightarrow> ('g, 'k) ssh_config \<Rightarrow> (string, 'c) result) \<Rightarrow>
   ('c \<Rightarrow> (string, 's) result) \<Rightarrow> 'g client \<Rightarrow> ('s \<Rightarrow> 'c \<Rightarrow> sftp_server) \<Rightarrow> string \<Rightarrow> string \<Rightarrow> dial_error + sftp_server" where
  "dialler pk ssh_dial sftp_new c served_by addr sig =
     map_sum id (\<lambda>(sc, conn). served_by sc conn) (fst (Dial pk ssh_dial sftp_new c addr sig))"

inductive dialled_step ::
  "server \<Rightarrow> (string \<Rightarrow> string \<Rightarrow> dial_error + sftp_server) \<Rightarrow> frs_view set \<Rightarrow> server_state \<Rightarrow> server_state \<Rightarrow> bool"
  for s :: server and dial :: "string \<Rightarrow> string \<Rightarrow> dial_error + sftp_server" and published :: "frs_view set" where
  request: "dialled_step s dial published w (snd (serve s x r w))"
    if "ox_dial x = dial" "\<And>ref view. fp_get (ox_frs x) ref = Inr view \<Longrightarrow> view \<in> published"
| watcher: "dialled_step s dial published w (watcher_ends s now ref wait w)"
| tick: "dialled_step s dial published w (w\<lparr>st_watches := fst (watch_sweep maxAge now (st_watches w))\<rparr>)"

definition same_servers :: "server_state \<Rightarrow> server_state \<Rightarrow> bool" where
  "same_servers w w' \<longleftrightarrow>
     (\<forall>h srv sess. map_of (st_conns w') h = Some (srv, sess) \<longrightarrow> (\<exists>sess'. map_of (st_conns w) h = Some (srv, sess')))"

lemma same_servers_conns: "st_conns w' = st_conns w \<Longrightarrow> same_servers w w'"
  by (simp add: same_servers_def)

lemma same_servers_on:
  assumes "on_session h f w1 = (res, w2)" "same_servers w w1"
  shows "same_servers w w2"
  using assms by (auto simp: on_session_def same_servers_def find_simps split: option.splits prod.splits if_splits)

lemma same_servers_first: "on_session h f w1 = (res, w2) \<Longrightarrow> st_conns w1 = st_conns w \<Longrightarrow> same_servers w w2"
  by (rule same_servers_on [OF _ same_servers_conns])

lemma got_conns: "pool_get x key w = (g, w') \<Longrightarrow> st_conns w' = st_conns w"
  by (rule pool_get_conns(1))

lemma handlers_servers:
  "same_servers w (snd (handleBrowse s x r w))" "same_servers w (snd (handleDownload s x r w))"
  "same_servers w (snd (handleDownloadZip s x r w))" "same_servers w (snd (handleSessions s x r w))"
proof -
  show "same_servers w (snd (handleBrowse s x r w))"
    by (auto simp: handleBrowse_def Let_def same_servers_conns split: option.splits prod.splits sum.splits
        dest!: got_conns dest: same_servers_first same_servers_on)
  have metric: "same_servers w (record_metric m w') = same_servers w w'" for m w' by (simp add: same_servers_def)
  show "same_servers w (snd (handleDownload s x r w))"
    by (auto simp: handleDownload_def same_servers_conns metric split: option.splits prod.splits sum.splits
        dest!: got_conns dest: same_servers_first same_servers_on)
  show "same_servers w (snd (handleDownloadZip s x r w))"
    by (auto simp: handleDownloadZip_def Let_def same_servers_conns split: option.splits prod.splits sum.splits
        dest!: got_conns dest: same_servers_first same_servers_on)
  show "same_servers w (snd (handleSessions s x r w))"
    by (simp add: handleSessions_def same_servers_conns split: sum.splits)
qed

text \<open>What a connect adds: the server it dialled for the view it read.\<close>

lemma connect_servers:
  "same_servers w (snd (handleConnect s x r w)) \<or>
   (\<exists>ref view srv. fp_get (ox_frs x) ref = Inr view \<and> v_port view = sr_frsPort s \<and>
      ox_dial x (connect_addr view) (v_hostKeySig view) = Inr srv \<and>
      (\<forall>h srv' sess. map_of (st_conns (snd (handleConnect s x r w))) h = Some (srv', sess) \<longrightarrow>
         srv' = srv \<or> (\<exists>sess'. map_of (st_conns w) h = Some (srv', sess'))))"
  by (auto simp: handleConnect_def Let_def store_session_def same_servers_conns find_simps split: sum.splits)

lemma serve_servers:
  assumes "map_of (st_conns (snd (serve s x r w))) h = Some (srv, sess)"
  shows "(\<exists>sess'. map_of (st_conns w) h = Some (srv, sess')) \<or>
    (\<exists>ref view. fp_get (ox_frs x) ref = Inr view \<and> v_port view = sr_frsPort s \<and>
       ox_dial x (connect_addr view) (v_hostKeySig view) = Inr srv)"
proof (cases s x r w rule: serve_effect)
  case (authed a)
  have "same_servers w (snd (serve_authed a s x (csrf_parsed r) w)) \<or> (\<exists>ns name. a = Connect ns name)"
    by (cases a) (simp_all add: handlers_servers delete_conns wizard_reads same_servers_conns wizard_writes [unfolded same_sessions_def])
  then show ?thesis
  proof (elim disjE exE)
    assume "same_servers w (snd (serve_authed a s x (csrf_parsed r) w))"
    then show ?thesis using assms unfolding authed(3) same_servers_def by blast
  next
    fix ns name assume "a = Connect ns name"
    then have "map_of (st_conns (snd (handleConnect s x (with_values ns name (csrf_parsed r)) w))) h = Some (srv, sess)"
      using assms authed(3) by simp
    then show ?thesis using connect_servers [of w s x "with_values ns name (csrf_parsed r)"] unfolding same_servers_def by blast
  qed
qed (use assms in auto)

lemma conns_dialled:
  assumes "reach (server_init s) (dialled_step s dial published) w"
  shows "\<forall>h srv sess. map_of (st_conns w) h = Some (srv, sess) \<longrightarrow>
    (\<exists>view \<in> published. v_port view = sr_frsPort s \<and> dial (connect_addr view) (v_hostKeySig view) = Inr srv)"
  using assms
proof (induction rule: reach_invariant)
  case (init w)
  then show ?case by (auto simp: server_init_def New_def)
next
  case (step w w')
  from \<open>dialled_step s dial published w w'\<close> step.IH show ?case
  proof (induction rule: dialled_step.induct)
    case (request x w r)
    then show ?case using serve_servers [of s x r w] by metis
  qed (simp_all add: watcher_ends_def)
qed

section \<open>Properties\<close>

text \<open>
  C3: browser sessions are isolated from each other. Whatever a request does, short of deleting their
  FileRecoverySession, the pooled SFTP sessions of every other cookie stay in the pool as they are, and the
  connections behind them keep the server they were dialled to and the state of their client.
\<close>

theorem sessions_untouched:
  assumes "server_reachable s w" and "sk_user key \<noteq> userIDFromCookie r (au_cookieName (sr_auth s))"
    and "\<And>ns name. route_of (rq_method r) (rq_path r) = Authed (SessionDelete ns name) \<Longrightarrow>
      sk_frs key \<noteq> \<lparr>nn_ns = percent_decode ns, nn_name = percent_decode name\<rparr>"
  shows "let w' = snd (serve s x r w) in
    map_of (pool_entries (st_pool w')) key = map_of (pool_entries (st_pool w)) key \<and>
    (\<forall>e. map_of (pool_entries (st_pool w)) key = Some e \<longrightarrow>
       map_of (st_conns w') (pe_sess e) = map_of (st_conns w) (pe_sess e))"
proof -
  have "leaves_alone s key r" using assms(2,3) by (simp add: leaves_alone_def)
  then have "others_step s key w (snd (serve s x r w))" by (rule others_step.request)
  then show ?thesis
    using others_step_entry others_step_conn server_reachable_inv [OF assms(1)] unfolding Let_def by blast
qed

theorem sessions_untouched_witness:
  "map_of (st_conns (snd (serve demo_site demo_outside (demo_request\<lparr>rq_path := ''/browse''\<rparr>) demo_connected))) 0 =
   Some (file_server, new_session)"
proof -
  have "dot \<in> set demo_signed" by (simp add: demo_signed_def Issue_cookie)
  then have user: "sk_user (demo_key demo_signed) \<noteq> userIDFromCookie (demo_request\<lparr>rq_path := ''/browse''\<rparr>) (au_cookieName (sr_auth demo_site))"
    by (auto simp: demo_key_def demo_request_def userIDFromCookie_def Cookie_def)
  have "route_of ''GET'' ''/browse'' = Authed Browse" by code_simp
  then have route: "route_of (rq_method (demo_request\<lparr>rq_path := ''/browse''\<rparr>)) (rq_path (demo_request\<lparr>rq_path := ''/browse''\<rparr>)) \<noteq>
      Authed (SessionDelete ns name)" for ns name
    by (simp add: demo_request_def)
  have e: "map_of (pool_entries (st_pool demo_connected)) (demo_key demo_signed) = Some \<lparr>pe_sess = 0, pe_lastUsedAt = 0\<rparr>"
    "map_of (st_conns demo_connected) 0 = Some (file_server, new_session)"
    by (simp_all add: demo_connected_eq store_session_def record_metric_def Store_def Let_def demo_state_def New_def
        NewPool_def demo_outside_def)
  show ?thesis
    using sessions_untouched [OF demo_connected_reachable user, of demo_outside] route e unfolding Let_def by auto
qed

text \<open>
  C4: browsing works. After a connect that the cluster and the SFTP server let through, and any steps of other
  browser sessions short of deleting the FileRecoverySession, of watchers and of sweeps, the same browser's
  next request, for a path within the idle time, is answered by the listing of that path on the server that was
  dialled, taken by a client session in its initial state, or by the listing's error. It takes that the
  watch map has by then no entry for the session that ended in another state than Ready, for that
  would be shown instead.
\<close>

theorem connect_then_browse:
  fixes ns name :: string
  defines "ref \<equiv> \<lparr>ref_ns = percent_decode ns, ref_name = percent_decode name\<rparr>"
  assumes "server_reachable s w"
    and "route_of (rq_method r) (rq_path r) = Authed (Connect ns name)" "authorized (ox_hmac x) (sr_auth s) (ox_now x) r"
    and "fp_get (ox_frs x) ref = Inr view" "v_port view = sr_frsPort s"
    and "ox_dial x (connect_addr view) (v_hostKeySig view) = Inr srv"
    and "reach (\<lambda>v. v = snd (serve s x r w)) (others_step s (session_key_of s r ref)) w'"
    and "route_of (rq_method r') (rq_path r') = Authed Browse" "authorized (ox_hmac x') (sr_auth s) (ox_now x') r'"
    and "userIDFromCookie r' (au_cookieName (sr_auth s)) = userIDFromCookie r (au_cookieName (sr_auth s))"
    and "parseFRSQuery (csrf_parsed r') = Some (ref, path)" "QueryGet (csrf_parsed r') ''partial'' \<noteq> ''ready''"
    and "time_sub (ox_now x') (ox_now x) \<le> pool_ttl (st_pool w)"
    and "\<And>ws. watch_get ref (st_watches w') = Some ws \<Longrightarrow> ws_done ws \<Longrightarrow> ws_state ws = ''Ready''"
  shows "fst (serve s x' r' w') =
    (case fst (ListDir srv path new_session) of
       Inl e \<Rightarrow> renderError 404 ''Failed to list directory'' (MsgSftp e)
     | Inr entries \<Rightarrow> html 200 (BrowsePage ref path (map (\<lambda>e. newBrowseEntry e path) entries) (csrf s x' (csrf_parsed r'))))"
proof -
  let ?key = "session_key_of s r ref" and ?w1 = "snd (serve s x r w)"
  let ?e = "\<lparr>pe_sess = st_next w, pe_lastUsedAt = ox_now x\<rparr>"
  have v: "PathValue (with_values ns name r) ''ns'' = percent_decode ns"
    "PathValue (with_values ns name r) ''name'' = percent_decode name" for r
    by (simp_all add: with_values_def PathValue_def first_value_def)
  have "?w1 = store_session x ?key srv (record_metric (SFTPConnect ''success'') w)"
    using assms(5-7) serve_Authed [OF assms(3,4)]
    by (simp add: handleConnect_ok v ref_def [symmetric] session_key_request [of "with_values ns name (csrf_parsed r)" r])
  note stored = this stored_entry [of x ?key srv "record_metric (SFTPConnect ''success'') w"]
  have w1: "server_reachable s ?w1" by (rule reach.next_step [OF assms(2) server_step.request])
  have e1: "map_of (pool_entries (st_pool ?w1)) ?key = Some ?e" and c1: "map_of (st_conns ?w1) (st_next w) = Some (srv, new_session)"
    using stored by (simp_all add: record_metric_def)
  have e: "map_of (pool_entries (st_pool w')) ?key = Some ?e" using others_reach [OF w1 assms(8)] e1 by simp
  have c: "map_of (st_conns w') (st_next w) = Some (srv, new_session)"
    using others_reach_conn [OF w1 e1 assms(8)] c1 by simp
  have ttl: "pool_ttl (st_pool w') = pool_ttl (st_pool w)" using others_reach_ttl [OF assms(8)] stored by (simp add: record_metric_def)
  have key: "session_key_of s (csrf_parsed r') ref = ?key"
    using assms(11) by (simp add: session_key_of_def userIDFromCookie_def Cookie_def)
  have got: "fst (pool_get x' ?key w') = Some (st_next w)" "st_conns (snd (pool_get x' ?key w')) = st_conns w'"
    using pool_get_fresh [OF e, of x'] assms(14) ttl by simp_all
  show ?thesis
    unfolding serve_Authed [OF assms(9,10)] serve_authed.simps
    by (rule handleBrowse_pooled [OF assms(12,13,15)]) (use got c key in simp_all)
qed

definition demo_browse :: request where
  "demo_browse = (demo_get ''/browse'')\<lparr>rq_query := [(''frs'', ''db/frs-1''), (''path'', ''/'')]\<rparr>"

lemma demo_browse_authorized: "authorized demo_mac demo_auth 0 demo_browse"
  using demo_get_authorized [of "''/browse''"] by (simp add: demo_browse_def authorized_def Cookie_def isUnsafeMethod_def demo_get_def demo_request_def)

theorem connect_then_browse_witness:
  "fst (serve demo_site demo_outside demo_browse (demo_connected\<lparr>st_watches := fst (watch_sweep Hour 7 (st_watches demo_connected))\<rparr>)) =
    (case fst (ListDir file_server ''/'' new_session) of
       Inl e \<Rightarrow> renderError 404 ''Failed to list directory'' (MsgSftp e)
     | Inr entries \<Rightarrow> html 200 (BrowsePage demo_ref ''/'' (map (\<lambda>e. newBrowseEntry e ''/'') entries) (csrf demo_site demo_outside demo_browse)))"
proof -
  let ?key = "session_key_of demo_site (demo_post ''/sessions/db/frs-1/connect'') demo_ref"
  let ?w' = "demo_connected\<lparr>st_watches := fst (watch_sweep Hour 7 (st_watches demo_connected))\<rparr>"
  have r1: "rq_method (demo_post p) = ''POST''" "rq_path (demo_post p) = p" for p by (simp_all add: demo_post_def demo_request_def)
  have r2: "rq_method demo_browse = ''GET''" "rq_path demo_browse = ''/browse''"
    by (simp_all add: demo_browse_def demo_get_def demo_request_def)
  have parsed: "csrf_parsed demo_browse = demo_browse" by (simp add: csrf_parsed_def r2 isUnsafeMethod_def)
  have ref: "\<lparr>ref_ns = percent_decode ''db'', ref_name = percent_decode ''frs-1''\<rparr> = demo_ref"
    unfolding demo_ref_def by code_simp
  have routes: "route_of ''POST'' ''/sessions/db/frs-1/connect'' = Authed (Connect ''db'' ''frs-1'')"
    "route_of ''GET'' ''/browse'' = Authed Browse" by code_simp+
  have split: "splitn_on 2 slash ''db/frs-1'' = [''db'', ''frs-1'']" by code_simp
  have query: "parseFRSQuery demo_browse = Some (demo_ref, ''/'')" "QueryGet demo_browse ''partial'' \<noteq> ''ready''"
    using split by (simp_all add: parseFRSQuery_def QueryGet_def first_value_def demo_browse_def demo_ref_def demo_get_def demo_request_def)
  have user: "userIDFromCookie demo_browse c = userIDFromCookie (demo_post p) c" for p c
    by (simp add: userIDFromCookie_def Cookie_def demo_browse_def demo_get_def demo_post_def)
  have watches: "st_watches demo_connected = []"
    by (simp add: demo_connected_eq store_session_def record_metric_def Let_def demo_state_def New_def)
  have steps: "reach (\<lambda>v. v = snd (serve demo_site demo_outside (demo_post ''/sessions/db/frs-1/connect'') demo_state))
      (others_step demo_site ?key) ?w'"
    unfolding demo_connected_def [symmetric]
    by (rule reach.next_step [where s = demo_connected], rule reach.start, rule refl, rule others_step.tick)
  note browse = connect_then_browse [where s = demo_site and w = demo_state and ns = "''db''" and name = "''frs-1''" and
      r = "demo_post ''/sessions/db/frs-1/connect''" and x = demo_outside and x' = demo_outside and r' = demo_browse
      and path = "''/''" and view = demo_view and srv = file_server and w' = ?w', unfolded ref parsed r1 r2]
  show ?thesis
  proof (rule browse [OF demo_reachable routes(1) _ _ _ _ steps routes(2) _ user query])
    show "time_sub (ox_now demo_outside) (ox_now demo_outside) \<le> pool_ttl (st_pool demo_state)"
      by (simp add: time_sub_def demo_state_def New_def NewPool_def max_i64_def min_i64_def)
    show "ws_state ws = ''Ready''" if "watch_get demo_ref (st_watches ?w') = Some ws" for ws
      using that by (simp add: watches watch_sweep_def watch_get_def)
    show "ox_dial demo_outside (connect_addr demo_view) (v_hostKeySig demo_view) = Inr file_server"
      by (simp add: demo_outside_def)
    show "fp_get (ox_frs demo_outside) demo_ref = Inr demo_view" "v_port demo_view = sr_frsPort demo_site"
      by (simp_all add: demo_provider_def demo_view_def demo_site_def)
  qed (use demo_post_authorized demo_browse_authorized in simp_all)
qed

text \<open>
  C38: deleting a session does not stop its watcher. A deletion that succeeds while a watcher still waits for
  the session removes its watch entry and leaves the watcher running; at whatever later state the
  watcher ends, and however its wait has gone, it enters the deleted session into the watch map again, done, as
  Ready, or with the wait's error as Failed or Timeout.
\<close>

theorem deleted_session_reappears:
  fixes ns name :: string
  defines "ref \<equiv> \<lparr>ref_ns = percent_decode ns, ref_name = percent_decode name\<rparr>"
  assumes "ref \<in> set (st_running w)"
    and "route_of (rq_method r) (rq_path r) = Authed (SessionDelete ns name)" "authorized (ox_hmac x) (sr_auth s) (ox_now x) r"
    and "fp_delete (ox_frs x) (percent_decode ns) (percent_decode name) = None"
  shows "watch_get ref (st_watches (snd (serve s x r w))) = None \<and> ref \<in> set (st_running (snd (serve s x r w))) \<and>
    (\<forall>w' now v err. reach (\<lambda>u. u = snd (serve s x r w)) (server_step s) w' \<and> ref \<in> set (st_running w') \<longrightarrow>
       watch_get ref (st_watches (watcher_ends s now ref (v, err) w')) =
         Some \<lparr>ws_state = (if err = None then ''Ready'' else if v_state v = ''Failed'' then ''Failed'' else ''Timeout''),
               ws_view = v, ws_err = err, ws_done = True, ws_createdAt = now\<rparr>)"
proof -
  have v: "PathValue (with_values ns name q) ''ns'' = percent_decode ns"
    "PathValue (with_values ns name q) ''name'' = percent_decode name" for q
    by (simp_all add: with_values_def PathValue_def first_value_def)
  have w': "st_watches (snd (serve s x r w)) = watch_del ref (st_watches w)" "st_running (snd (serve s x r w)) = st_running w"
    using assms(5) by (simp_all add: serve_Authed [OF assms(3,4)] handleSessionDelete_def Let_def v ref_def)
  have "watch_outcome (v, err)\<lparr>ws_createdAt := now\<rparr> =
      \<lparr>ws_state = (if err = None then ''Ready'' else if v_state v = ''Failed'' then ''Failed'' else ''Timeout''),
       ws_view = v, ws_err = err, ws_done = True, ws_createdAt = now\<rparr>" for v err now
    by (cases err) (simp_all add: watch_outcome_def)
  then show ?thesis using assms(2) watcher_entry by (simp add: w' watch_get_del)
qed

theorem deleted_session_reappears_witness:
  "let w = snd (serve demo_site demo_outside (demo_post ''/sessions/db/frs-1/delete'')
       (demo_state\<lparr>st_watches := [(demo_ref, pending_state demo_view)], st_running := [demo_ref]\<rparr>)) in
   watch_get demo_ref (st_watches w) = None \<and>
   watch_get demo_ref (st_watches (watcher_ends demo_site 7 demo_ref (demo_view, Some (NotReadyWithin Second [])) w)) =
     Some \<lparr>ws_state = (if v_state demo_view = ''Failed'' then ''Failed'' else ''Timeout''), ws_view = demo_view,
           ws_err = Some (NotReadyWithin Second []), ws_done = True, ws_createdAt = 7\<rparr>"
proof -
  let ?w = "demo_state\<lparr>st_watches := [(demo_ref, pending_state demo_view)], st_running := [demo_ref]\<rparr>"
  have "route_of ''POST'' ''/sessions/db/frs-1/delete'' = Authed (SessionDelete ''db'' ''frs-1'')" by code_simp
  then have route: "route_of (rq_method (demo_post ''/sessions/db/frs-1/delete'')) (rq_path (demo_post ''/sessions/db/frs-1/delete'')) =
      Authed (SessionDelete ''db'' ''frs-1'')"
    by (simp add: demo_post_def demo_request_def)
  have n: "percent_decode ''db'' = ''db''" "percent_decode ''frs-1'' = ''frs-1''" by code_simp+
  have auth: "authorized (ox_hmac demo_outside) (sr_auth demo_site) (ox_now demo_outside) (demo_post ''/sessions/db/frs-1/delete'')"
    using demo_post_authorized by simp
  have del: "fp_delete (ox_frs demo_outside) (percent_decode ''db'') (percent_decode ''frs-1'') = None" by (simp add: demo_provider_def)
  have ref: "\<lparr>ref_ns = percent_decode ''db'', ref_name = percent_decode ''frs-1''\<rparr> = demo_ref" unfolding demo_ref_def by code_simp
  have run: "\<lparr>ref_ns = percent_decode ''db'', ref_name = percent_decode ''frs-1''\<rparr> \<in> set (st_running ?w)" unfolding ref by simp
  let ?w' = "snd (serve demo_site demo_outside (demo_post ''/sessions/db/frs-1/delete'') ?w)"
  have start: "reach (\<lambda>u. u = ?w') (server_step demo_site) ?w'" by (rule reach.start) (rule refl)
  from deleted_session_reappears [OF run route auth del, unfolded ref] start show ?thesis unfolding Let_def by simp
qed

text \<open>
  C16: a browser that polls for a session is told what the cluster said in time. From the end of the session's
  watcher for as long as its watch entry stays as it is (until it is swept, deleted or replaced), every poll is
  answered by the redirect to the listing exactly when one of the watcher's reads saw
  the session Ready, after reads that were undecided and within the wait's timeout; otherwise by the fragment
  that says Failed, if that is the state the last read saw, or Timeout, with the wait's error. This holds
  with and without the header of an htmx request.
\<close>

theorem poll_tells_the_wait:
  fixes ns name :: string
  defines "ref \<equiv> \<lparr>ref_ns = ns, ref_name = name\<rparr>"
  assumes "WaitForReady fuel u rfc3339 api start clock ctx ns name (watch_timeout (sr_frsTimeout s)) = Some (v, err)"
    and "ref \<in> set (st_running w)"
    and "watch_get ref (st_watches w') = watch_get ref (st_watches (watcher_ends s now ref (v, err) w))"
    and "route_of (rq_method r) (rq_path r) = Authed Browse" "authorized (ox_hmac x) (sr_auth s) (ox_now x) r"
    and "parseFRSQuery (csrf_parsed r) = Some (ref, path)" "QueryGet (csrf_parsed r) ''partial'' = ''ready''"
  shows "fst (serve s x r w') =
    (if \<exists>j<fuel. GetFRS u rfc3339 (api j) ref = Inr v \<and> v_state v = ''Ready'' \<and>
          (\<forall>i<j. undecided u rfc3339 ref (api i) \<and> clock i \<le> start + watch_timeout (sr_frsTimeout s) \<and> ctx i = None)
     then no_content [(''HX-Redirect'', browse_url ref (query_escape path))]
     else html 200 (PreparingFragment ref (if v_state v = ''Failed'' then ''Failed'' else ''Timeout'') err (csrf s x (csrf_parsed r))))"
proof -
  have ready: "err = None \<longleftrightarrow> (\<exists>j<fuel. GetFRS u rfc3339 (api j) ref = Inr v \<and> v_state v = ''Ready'' \<and>
      (\<forall>i<j. undecided u rfc3339 ref (api i) \<and> clock i \<le> start + watch_timeout (sr_frsTimeout s) \<and> ctx i = None))"
    using wait_loop_ready_iff [of fuel 0 u rfc3339 api clock ctx ref "watch_timeout (sr_frsTimeout s)"
        "start + watch_timeout (sr_frsTimeout s)" v] assms(2)
    by (auto simp: WaitForReady_def ref_def)
  have "fst (serve s x r w') = handlePartialReady s x (csrf_parsed r) ref path w'"
    using assms(7,8) by (simp add: serve_Authed [OF assms(5,6)] handleBrowse_def)
  moreover have "watch_get ref (st_watches w') = Some (watch_outcome (v, err)\<lparr>ws_createdAt := now\<rparr>)"
    using assms(4) watcher_entry [OF assms(3)] by simp
  ultimately show ?thesis by (simp only: poll_decided ready [symmetric]) (cases err; simp)
qed

theorem poll_tells_the_wait_witness:
  "fst (serve demo_site demo_outside
      (demo_browse\<lparr>rq_query := [(''frs'', ''a/x''), (''path'', ''/''), (''partial'', ''ready'')], rq_header := [(''HX-Request'', ''true'')]\<rparr>)
      (let w = watcher_ends demo_site 9 \<lparr>ref_ns = ''a'', ref_name = ''x''\<rparr>
          (fst (buildFRSView demo_lib (\<lambda>_. None) (demo_frs ''a'' ''x'' 1 ''Ready'' True)), None)
          (demo_state\<lparr>st_running := [\<lparr>ref_ns = ''a'', ref_name = ''x''\<rparr>]\<rparr>)
       in w\<lparr>st_watches := fst (watch_sweep Hour 20 (st_watches w))\<rparr>)) =
   no_content [(''HX-Redirect'', browse_url \<lparr>ref_ns = ''a'', ref_name = ''x''\<rparr> (query_escape ''/''))]"
proof -
  let ?v = "fst (buildFRSView demo_lib (\<lambda>_. None) (demo_frs ''a'' ''x'' 1 ''Ready'' True))"
  let ?api = "\<lambda>k. demo_api [if k = (0 :: nat) then demo_frs ''a'' ''x'' 1 ''Pending'' False else demo_frs ''a'' ''x'' 1 ''Ready'' True]"
  let ?r = "demo_browse\<lparr>rq_query := [(''frs'', ''a/x''), (''path'', ''/''), (''partial'', ''ready'')], rq_header := [(''HX-Request'', ''true'')]\<rparr>"
  let ?ref = "\<lparr>ref_ns = ''a'', ref_name = ''x''\<rparr>"
  let ?w = "watcher_ends demo_site 9 ?ref (?v, None) (demo_state\<lparr>st_running := [?ref]\<rparr>)"
  have t: "watch_timeout (sr_frsTimeout demo_site) = 120 * Second" by (simp add: watch_timeout_def demo_site_def)
  have "WaitForReady 3 demo_lib (\<lambda>_. None) ?api 0 (\<lambda>k. int k) (\<lambda>_. None) ''a'' ''x'' (120 * Second) = Some (?v, None)"
    unfolding WaitForReady_def wait_loop_ready_iff by (rule exI [of _ 1]) (use demo_wait in simp)
  note wait = this [folded t]
  have r: "rq_method ?r = ''GET''" "rq_path ?r = ''/browse''" by (simp_all add: demo_browse_def demo_get_def demo_request_def)
  have route: "route_of ''GET'' ''/browse'' = Authed Browse" by code_simp
  have parsed: "csrf_parsed ?r = ?r" by (simp add: csrf_parsed_def r isUnsafeMethod_def)
  have "splitn_on 2 slash ''a/x'' = [''a'', ''x'']" by code_simp
  then have query: "parseFRSQuery ?r = Some (?ref, ''/'')" "QueryGet ?r ''partial'' = ''ready''"
    by (simp_all add: parseFRSQuery_def QueryGet_def first_value_def)
  have auth: "authorized (ox_hmac demo_outside) (sr_auth demo_site) (ox_now demo_outside) ?r"
    using demo_get_authorized [of "''/browse''"]
    by (simp add: demo_browse_def authorized_def Cookie_def isUnsafeMethod_def demo_get_def demo_request_def)
  have running: "?ref \<in> set (st_running (demo_state\<lparr>st_running := [?ref]\<rparr>))" by simp
  have kept: "watch_get ?ref (st_watches (?w\<lparr>st_watches := fst (watch_sweep Hour 20 (st_watches ?w))\<rparr>)) = watch_get ?ref (st_watches ?w)"
    by (simp add: watcher_ends_def watchFRSCreated_def watchFRSCreatedWithTimeout_def watch_set_def watch_sweep_def watch_get_def
        watch_outcome_def demo_state_def New_def Let_def stale_def time_sub_def max_i64_def min_i64_def)
  have browse: "route_of (rq_method ?r) (rq_path ?r) = Authed Browse" unfolding r by (rule route)
  have polls: "parseFRSQuery (csrf_parsed ?r) = Some (?ref, ''/'')" "QueryGet (csrf_parsed ?r) ''partial'' = ''ready''"
    unfolding parsed by (rule query)+
  note poll = poll_tells_the_wait [OF wait running kept browse auth polls]
  show ?thesis unfolding Let_def poll by (rule if_P, rule exI [of _ 1]) (use demo_wait t in simp)
qed

text \<open>
  C23: every connection the server ever has leads to a host it was told to trust. Whatever requests, watchers
  and sweeps have led to its state, the server behind each entry of its table of connections is the SFTP
  session on an SSH connection whose host proved the key that is parsed from the host key signature of a
  FileRecoverySession the cluster has reported, at that session's service address and on the
  configured port; and the user and the key it authenticated with are the client's. It takes that the SSH
  package honours a fixed host key: a dial yields only connections to hosts with that key.
\<close>

theorem dial_pins_host_key:
  assumes ssh_contract: "\<And>addr cfg conn. ssh_dial addr cfg = Inr conn \<Longrightarrow> host_key conn = ssh_hostKey cfg"
    and "reach (server_init s) (dialled_step s (dialler pk ssh_dial sftp_new c served_by) published) w"
    and "map_of (st_conns w) h = Some (srv, sess)"
  shows "\<exists>view \<in> published. \<exists>key sc conn. v_port view = sr_frsPort s \<and>
    ParseHostKeySignature pk (v_hostKeySig view) = Inr key \<and> host_key conn = key \<and>
    ssh_dial (connect_addr view) \<lparr>ssh_user = cl_username c, ssh_signer = cl_signer c, ssh_hostKey = key, ssh_timeout = cl_timeout c\<rparr> = Inr conn \<and>
    sftp_new conn = Inr sc \<and> srv = served_by sc conn"
proof -
  obtain view where view: "view \<in> published" "v_port view = sr_frsPort s"
    "dialler pk ssh_dial sftp_new c served_by (connect_addr view) (v_hostKeySig view) = Inr srv"
    using conns_dialled [OF assms(2)] assms(3) by blast
  obtain sc conn where dialled: "fst (Dial pk ssh_dial sftp_new c (connect_addr view) (v_hostKeySig view)) = Inr (sc, conn)"
    "srv = served_by sc conn"
    using view(3) by (cases "fst (Dial pk ssh_dial sftp_new c (connect_addr view) (v_hostKeySig view))") (auto simp: dialler_def)
  obtain key where key: "ParseHostKeySignature pk (v_hostKeySig view) = Inr key" "sftp_new conn = Inr sc"
    "ssh_dial (connect_addr view) \<lparr>ssh_user = cl_username c, ssh_signer = cl_signer c, ssh_hostKey = key, ssh_timeout = cl_timeout c\<rparr> = Inr conn"
    using Dial_ok [OF dialled(1)] by blast
  show ?thesis using view(1,2) key dialled(2) ssh_contract [OF key(3)] by fastforce
qed

text \<open>An SSH package that connects to whatever host has the configured key, and a session published with one.\<close>

definition keyed_view :: frs_view where
  "keyed_view = demo_view\<lparr>v_hostKeySig := ''[frs-1.kasten-io]:2222 ssh-ed25519 AAAA''\<rparr>"

definition keyed_dial :: "string \<Rightarrow> string \<Rightarrow> dial_error + sftp_server" where
  "keyed_dial = dialler Inr (\<lambda>addr cfg. Inr (ssh_hostKey cfg)) (\<lambda>conn. Inr ()) \<lparr>cl_username = ''root'', cl_signer = (), cl_timeout = 0\<rparr>
     (\<lambda>sc conn. file_server)"

definition keyed_outside :: outside where
  "keyed_outside = demo_outside\<lparr>ox_dial := keyed_dial, ox_frs := demo_provider\<lparr>fp_get := \<lambda>ref. Inr keyed_view\<rparr>\<rparr>"

theorem dial_pins_host_key_witness:
  "map_of (st_conns (snd (serve demo_site keyed_outside (demo_post ''/sessions/db/frs-1/connect'') demo_state))) 0 =
     Some (file_server, new_session) \<and>
   (\<exists>key. ParseHostKeySignature Inr (v_hostKeySig keyed_view) = Inr key \<and> key = ''ssh-ed25519 AAAA'')"
proof -
  let ?r = "demo_post ''/sessions/db/frs-1/connect''" and ?ssh = "\<lambda>addr cfg. Inr (ssh_hostKey cfg) :: (string, string) result"
  let ?q = "with_values ''db'' ''frs-1'' (csrf_parsed ?r)"
  let ?w = "snd (serve demo_site keyed_outside ?r demo_state)"
  have sig: "ParseHostKeySignature Inr (v_hostKeySig keyed_view) = (Inr ''ssh-ed25519 AAAA'' :: (hostkey_error, string) result)"
    unfolding keyed_view_def by code_simp
  have route: "route_of (rq_method ?r) (rq_path ?r) = Authed (Connect ''db'' ''frs-1'')"
  proof -
    have "route_of ''POST'' ''/sessions/db/frs-1/connect'' = Authed (Connect ''db'' ''frs-1'')" by code_simp
    then show ?thesis by (simp add: demo_post_def demo_request_def)
  qed
  have auth: "authorized (ox_hmac keyed_outside) (sr_auth demo_site) (ox_now keyed_outside) ?r"
    using demo_post_authorized by (simp add: keyed_outside_def)
  have "keyed_dial (connect_addr keyed_view) (v_hostKeySig keyed_view) = Inr file_server"
    by (simp add: keyed_dial_def dialler_def Dial_def sig)
  then have "?w = store_session keyed_outside (session_key_of demo_site ?q \<lparr>ref_ns = PathValue ?q ''ns'', ref_name = PathValue ?q ''name''\<rparr>)
      file_server (record_metric (SFTPConnect ''success'') demo_state)"
    unfolding serve_Authed [OF route auth] serve_authed.simps
    by (intro handleConnect_ok [where view = keyed_view])
      (simp_all add: keyed_outside_def keyed_view_def demo_view_def demo_site_def)
  moreover have "st_next (record_metric (SFTPConnect ''success'') demo_state) = 0"
    by (simp add: record_metric_def demo_state_def New_def)
  ultimately have conn: "map_of (st_conns ?w) 0 = Some (file_server, new_session)" by (metis stored_entry(2))
  have "reach (server_init demo_site) (dialled_step demo_site keyed_dial {keyed_view}) demo_state"
    by (rule reach.start) (unfold server_init_def demo_site_def demo_state_def New_def, auto)
  then have run: "reach (server_init demo_site) (dialled_step demo_site keyed_dial {keyed_view}) ?w"
    by (rule reach.next_step) (rule dialled_step.request; simp add: keyed_outside_def)
  have "\<exists>view \<in> {keyed_view}. \<exists>key sc conn. v_port view = sr_frsPort demo_site \<and>
      ParseHostKeySignature Inr (v_hostKeySig view) = Inr key \<and> id conn = key \<and>
      ?ssh (connect_addr view) \<lparr>ssh_user = ''root'', ssh_signer = (), ssh_hostKey = key, ssh_timeout = 0\<rparr> = Inr conn \<and>
      (\<lambda>conn. Inr () :: (string, unit) result) conn = Inr sc \<and> file_server = (\<lambda>sc conn. file_server) sc conn"
    using dial_pins_host_key [where host_key = id and ssh_dial = ?ssh, OF _ run [unfolded keyed_dial_def] conn] by simp
  then show ?thesis using conn sig by auto
qed

end
