(* ===== verification/ListingRace.thy ===== *)
theory ListingRace
  imports SftpClient Simulation
begin

text \<open>
  Listings that overlap. The pool hands the same session to every request of a browser session for the
  same FileRecoverySession, and nothing protects the chroot depth the session has learned
  (\<open>chrootDepth\<close> in client.go): here \<open>resolveAbsoluteTarget\<close> is cut at every access to it, and the pieces of
  any number of resolutions interleave. An access reads or writes the whole depth.
\<close>

section \<open>A resolution in pieces\<close>

text \<open>
  Where a resolution stands: before \<open>s.chrootDepth > 0\<close>, before the comparison with the number of parts,
  before the slice expression, before the probe of the cached depth, before the reset, in the discovery
  loop, before the depth found is stored, and at the end, which a slice out of range reaches by a panic.
\<close>

datatype resolve_pc =
    AtPositive
  | AtFits
  | AtSlice
  | AtProbe string
  | AtReset
  | AtDiscover nat
  | AtLearn nat string
  | Resolved string
  | Crashed

fun resolve_step :: "sftp_server \<Rightarrow> string list \<Rightarrow> resolve_pc \<Rightarrow> session \<Rightarrow> resolve_pc \<times> session" where
  "resolve_step srv parts AtPositive s = (if 0 < chrootDepth s then AtFits else AtDiscover 1, s)"
| "resolve_step srv parts AtFits s = (if chrootDepth s + 1 < length parts then AtSlice else AtReset, s)"
| "resolve_step srv parts AtSlice s =
     (if length parts < chrootDepth s + 1 then Crashed
      else if join_with ''/'' (drop (chrootDepth s + 1) parts) = [] then AtReset
      else AtProbe (strip_path (chrootDepth s) parts), s)"
| "resolve_step srv parts (AtProbe p) s = (case probe_dir srv p s of (ok, s1) \<Rightarrow> (if ok then Resolved p else AtReset, s1))"
| "resolve_step srv parts AtReset s = (AtDiscover 1, s\<lparr>chrootDepth := 0\<rparr>)"
| "resolve_step srv parts (AtDiscover d) s =
     (if maxChrootDepth < d \<or> length parts \<le> d + 1 then (Resolved [], s)
      else if join_with ''/'' (drop (d + 1) parts) = [] then (AtDiscover (d + 1), s)
      else (case probe_dir srv (strip_path d parts) s of
              (ok, s1) \<Rightarrow> (if ok then AtLearn d (strip_path d parts) else AtDiscover (d + 1), s1)))"
| "resolve_step srv parts (AtLearn d p) s = (Resolved p, s\<lparr>chrootDepth := d\<rparr>)"
| "resolve_step srv parts (Resolved p) s = (Resolved p, s)"
| "resolve_step srv parts Crashed s = (Crashed, s)"

fun resolve_run :: "sftp_server \<Rightarrow> string list \<Rightarrow> nat \<Rightarrow> resolve_pc \<Rightarrow> session \<Rightarrow> resolve_pc \<times> session" where
  "resolve_run srv parts 0 pc s = (pc, s)"
| "resolve_run srv parts (Suc n) pc s = (case resolve_step srv parts pc s of (pc', s') \<Rightarrow> resolve_run srv parts n pc' s')"

definition target_parts :: "string \<Rightarrow> string list" where
  "target_parts t = split_on slash (path_clean t)"

lemma run_resolved [simp]: "resolve_run srv parts n (Resolved p) s = (Resolved p, s)"
  by (induction n) simp_all

lemma run_discover:
  "Suc maxChrootDepth - d + 2 \<le> n \<Longrightarrow>
   resolve_run srv parts n (AtDiscover d) s = (case discover srv parts d s of (r, s') \<Rightarrow> (Resolved r, s'))"
proof (induction srv parts d s arbitrary: n rule: discover.induct)
  case (1 srv parts d s)
  obtain k where n: "n = Suc (Suc k)" using "1.prems" by (metis add_2_eq_Suc' Suc_le_D Suc_le_mono)
  show ?case
  proof (cases rule: discover_rounds [where d = d and parts = parts and srv = srv])
    case stop
    then show ?thesis by (simp add: n discover_stop)
  next
    case empty
    then have "resolve_run srv parts (Suc k) (AtDiscover (d + 1)) s = (case discover srv parts (d + 1) s of (r, s') \<Rightarrow> (Resolved r, s'))"
      using "1.prems" n by (intro "1.IH"(1)) auto
    then show ?thesis using empty by (simp add: n discover_empty del: resolve_run.simps(2)) (subst resolve_run.simps, simp)
  next
    case hit
    then show ?thesis by (simp add: n discover_hit probe_dir_def)
  next
    case miss
    then have "resolve_run srv parts (Suc k) (AtDiscover (d + 1)) (send (ReqReadDir (strip_path d parts)) s) =
        (case discover srv parts (d + 1) (send (ReqReadDir (strip_path d parts)) s) of (r, s') \<Rightarrow> (Resolved r, s'))"
      using "1.prems" n by (intro "1.IH"(2) [of "(False, send (ReqReadDir (strip_path d parts)) s)"]) (auto simp: probe_dir_def)
    then show ?thesis using miss
      by (simp add: n discover_miss del: resolve_run.simps(2)) (subst resolve_run.simps, simp add: probe_dir_def)
  qed
qed

text \<open>The steps before the discovery loop, and the loop.\<close>

lemma run_steps:
  "resolve_run srv parts (Suc n) AtPositive s = resolve_run srv parts n (if 0 < chrootDepth s then AtFits else AtDiscover 1) s"
  "resolve_run srv parts (Suc n) AtFits s = resolve_run srv parts n (if chrootDepth s + 1 < length parts then AtSlice else AtReset) s"
  "chrootDepth s + 1 < length parts \<Longrightarrow> resolve_run srv parts (Suc n) AtSlice s =
     resolve_run srv parts n (if join_with ''/'' (drop (chrootDepth s + 1) parts) = [] then AtReset
       else AtProbe (strip_path (chrootDepth s) parts)) s"
  "resolve_run srv parts (Suc n) (AtProbe p) s =
     resolve_run srv parts n (if listable srv p then Resolved p else AtReset) (send (ReqReadDir p) s)"
  "resolve_run srv parts (Suc n) AtReset s = resolve_run srv parts n (AtDiscover 1) (s\<lparr>chrootDepth := 0\<rparr>)"
  by (simp_all add: probe_dir_def)

lemma run_pieces:
  assumes "7 \<le> n"
  shows "resolve_run srv (target_parts t) (Suc (Suc (Suc (Suc (Suc n))))) AtPositive s =
    (case resolveAbsoluteTarget srv t s of (r, s') \<Rightarrow> (Resolved r, s'))"
proof -
  let ?parts = "target_parts t" and ?n = "chrootDepth s"
  have loop: "7 \<le> k \<Longrightarrow> resolve_run srv ?parts k (AtDiscover 1) s1 = (case discover srv ?parts 1 s1 of (r, s') \<Rightarrow> (Resolved r, s'))" for k s1
    by (intro run_discover) (simp add: maxChrootDepth_def)
  have small: "6 \<le> n" "5 \<le> n" "4 \<le> n" "3 \<le> n" using assms by simp_all
  note simps = run_steps loop assms small resolveAbsoluteTarget_def target_parts_def [symmetric] Let_def probe_dir_def
  consider "?n = 0" | "0 < ?n" "\<not> ?n + 1 < length ?parts"
    | "0 < ?n" "?n + 1 < length ?parts" "join_with ''/'' (drop (?n + 1) ?parts) = []"
    | "0 < ?n" "?n + 1 < length ?parts" "join_with ''/'' (drop (?n + 1) ?parts) \<noteq> []"
    by linarith
  then show ?thesis
    by cases (simp_all add: simps del: resolve_run.simps(2) One_nat_def)
qed

text \<open>
  Run without interruption, twelve pieces of a resolution end with the path and the session of
  \<open>resolveAbsoluteTarget\<close>; in particular they never end in a panic.
\<close>

lemma run_whole:
  "resolve_run srv (target_parts t) 12 AtPositive s =
     (case resolveAbsoluteTarget srv t s of (r, s') \<Rightarrow> (Resolved r, s'))"
proof -
  have "(12 :: nat) = Suc (Suc (Suc (Suc (Suc 7))))" by simp
  then show ?thesis by (simp only: run_pieces order_refl)
qed

section \<open>Interleavings\<close>

text \<open>
  The session and the resolutions in progress, each with its target: another begins, one takes its next
  step, or a request goes out that has nothing to do with the depth.
\<close>

type_synonym race = "session \<times> (string \<times> resolve_pc) list"

inductive race_step :: "sftp_server \<Rightarrow> race \<Rightarrow> race \<Rightarrow> bool" for srv :: sftp_server where
  begins: "race_step srv (s, ts) (s, ts @ [(t, AtPositive)])" if "is_abs t"
| advances: "race_step srv (s, ts) (s', ts[i := (t, pc')])"
    if "i < length ts" "ts ! i = (t, pc)" "resolve_step srv (target_parts t) pc s = (pc', s')"
| requests: "race_step srv (s, ts) (send q s, ts)"

definition race_init :: "race \<Rightarrow> bool" where
  "race_init c \<longleftrightarrow> c = (new_session, [])"

abbreviation race_reachable :: "sftp_server \<Rightarrow> race \<Rightarrow> bool" where
  "race_reachable srv \<equiv> reach race_init (race_step srv)"

text \<open>
  What a resolution may stand on: a path to probe or to return is the target with at most five leading
  components dropped; one that is returned, or about to be learned from, is listed.
\<close>

definition stripped :: "string \<Rightarrow> string \<Rightarrow> bool" where
  "stripped t p \<longleftrightarrow> (\<exists>n \<le> maxChrootDepth. p = strip_path n (target_parts t) \<and> join_with ''/'' (drop (n + 1) (target_parts t)) \<noteq> [])"

fun pc_ok :: "sftp_server \<Rightarrow> string \<Rightarrow> resolve_pc \<Rightarrow> bool" where
  "pc_ok srv t (AtProbe p) \<longleftrightarrow> stripped t p"
| "pc_ok srv t (AtLearn d p) \<longleftrightarrow> d \<le> maxChrootDepth \<and> stripped t p \<and> listable srv p"
| "pc_ok srv t (Resolved p) \<longleftrightarrow> p = [] \<or> stripped t p \<and> listable srv p"
| "pc_ok srv t Crashed \<longleftrightarrow> length (target_parts t) \<le> maxChrootDepth"
| "pc_ok srv t pc \<longleftrightarrow> True"

definition race_inv :: "sftp_server \<Rightarrow> race \<Rightarrow> bool" where
  "race_inv srv c \<longleftrightarrow>
     chrootDepth (fst c) \<le> maxChrootDepth \<and> (\<forall>(t, pc) \<in> set (snd c). is_abs t \<and> pc_ok srv t pc)"

lemma resolve_step_ok:
  assumes "resolve_step srv (target_parts t) pc s = (pc', s')" "pc_ok srv t pc" "chrootDepth s \<le> maxChrootDepth"
  shows "pc_ok srv t pc' \<and> chrootDepth s' \<le> maxChrootDepth"
proof (cases pc)
  case (AtDiscover d)
  have "stripped t (strip_path d (target_parts t))"
    if "d \<le> maxChrootDepth" "join_with ''/'' (drop (d + 1) (target_parts t)) \<noteq> []"
    using that unfolding stripped_def by blast
  then show ?thesis using assms AtDiscover by (auto simp: probe_dir_def split: if_splits)
qed (use assms in \<open>auto simp: probe_dir_def stripped_def split: if_splits\<close>)

lemma race_step_inv: "race_step srv c c' \<Longrightarrow> race_inv srv c \<Longrightarrow> race_inv srv c'"
proof (induction rule: race_step.induct)
  case (advances i ts t pc s pc' s')
  have "(t, pc) \<in> set ts" using advances.hyps(1,2) nth_mem by metis
  then have "is_abs t \<and> pc_ok srv t pc' \<and> chrootDepth s' \<le> maxChrootDepth"
    using advances.prems resolve_step_ok [OF advances.hyps(3)] by (auto simp: race_inv_def)
  then show ?case using advances.prems set_update_subset_insert [of ts i "(t, pc')"] by (auto simp: race_inv_def)
qed (auto simp: race_inv_def)

lemma race_reachable_inv: "race_reachable srv c \<Longrightarrow> race_inv srv c"
  by (induction rule: reach_invariant) (simp add: race_init_def race_inv_def new_session_def, rule race_step_inv)

lemma stripped_valid: "is_abs t \<Longrightarrow> stripped t p \<Longrightarrow> validatePath p = None"
proof -
  assume t: "is_abs t" and "stripped t p"
  then obtain n where n: "p = strip_path n (target_parts t)" "join_with ''/'' (drop (n + 1) (target_parts t)) \<noteq> []"
    by (auto simp: stripped_def)
  show "validatePath p = None"
  proof (cases "n = 0")
    case True
    obtain r where r: "path_clean t = slash # r" using is_abs_path_clean [OF t] by (auto simp: is_abs_iff)
    then have "p = path_clean t" using n True by (simp add: strip_path_def target_parts_def)
    then show ?thesis by (simp add: validatePath_clean [OF t])
  next
    case False
    then show ?thesis using strip_path_valid [OF t, of n] n(1) by (simp add: target_parts_def)
  qed
qed

text \<open>An executable schedule: the resolution whose turn it is takes its next step.\<close>

fun race_turn :: "sftp_server \<Rightarrow> nat \<Rightarrow> race \<Rightarrow> race" where
  "race_turn srv i (s, ts) =
     (if i < length ts
      then (case ts ! i of (t, pc) \<Rightarrow>
              case resolve_step srv (target_parts t) pc s of (pc', s') \<Rightarrow> (s', ts[i := (t, pc')]))
      else (s, ts))"

lemma race_turn_reachable: "race_reachable srv c \<Longrightarrow> race_reachable srv (race_turn srv i c)"
proof (cases c)
  case (Pair s ts)
  assume c: "race_reachable srv c"
  show ?thesis
  proof (cases "i < length ts")
    case True
    obtain t pc where t: "ts ! i = (t, pc)" by fastforce
    obtain pc' s' where s': "resolve_step srv (target_parts t) pc s = (pc', s')" by fastforce
    from reach.next_step [OF c [unfolded Pair] race_step.advances [OF True t s']] show ?thesis
      using Pair True t s' by simp
  qed (use c Pair in simp)
qed

lemma race_turns_reachable: "race_reachable srv c \<Longrightarrow> race_reachable srv (fold (race_turn srv) is c)"
proof (induction "is" arbitrary: c)
  case (Cons i "is")
  then show ?case using race_turn_reachable [OF Cons.prems] by (simp only: fold_Cons o_apply)
qed simp

lemma race_begin: "\<forall>t \<in> set ts. is_abs t \<Longrightarrow> race_reachable srv (new_session, map (\<lambda>t. (t, AtPositive)) ts)"
proof (induction ts rule: rev_induct)
  case Nil
  show ?case by (rule reach.start) (simp add: race_init_def)
next
  case (snoc t ts)
  then have "race_reachable srv (new_session, map (\<lambda>t. (t, AtPositive)) ts)" "is_abs t" by simp_all
  from reach.next_step [OF this(1) race_step.begins [OF this(2)]] show ?case by simp
qed

text \<open>The turns of one resolution in a row are its run.\<close>

lemma turns_run:
  "i < length ts \<Longrightarrow> ts ! i = (t, pc) \<Longrightarrow>
   fold (race_turn srv) (replicate n i) (s, ts) =
     (case resolve_run srv (target_parts t) n pc s of (pc', s') \<Rightarrow> (s', ts[i := (t, pc')]))"
proof (induction n arbitrary: pc s ts)
  case 0
  then show ?case using list_update_id [of ts i] by simp
next
  case (Suc n)
  obtain pc1 s1 where "resolve_step srv (target_parts t) pc s = (pc1, s1)" by fastforce
  then show ?case using Suc.IH [of "ts[i := (t, pc1)]" pc1 s1] Suc.prems by simp
qed

text \<open>A server with three empty directories, for the concrete runs.\<close>

definition racing_server :: sftp_server where
  "racing_server = table_server [(''/c'', []), (''/b'', []), (''/f'', [])] [] []"

section \<open>Properties\<close>

text \<open>
  C20: resolutions that overlap on one session still return nothing but directories of the server: in every
  interleaving, a path one of them returns is its own target with at most five leading components dropped,
  the server lists it, the client's validation accepts it, and the learned depth stays at most five. One
  whose target has five components or more ends in no panic.
\<close>

theorem racing_resolutions_sound:
  assumes "race_reachable srv (s, ts)" and "(t, pc) \<in> set ts"
  shows "chrootDepth s \<le> 5 \<and>
    (\<forall>p. pc = Resolved p \<and> p \<noteq> [] \<longrightarrow> (\<exists>n \<le> 5. p = strip_path n (target_parts t)) \<and> listable srv p \<and> validatePath p = None) \<and>
    (5 < length (target_parts t) \<longrightarrow> pc \<noteq> Crashed)"
proof -
  have depth: "chrootDepth s \<le> maxChrootDepth" and t: "is_abs t" "pc_ok srv t pc"
    using race_reachable_inv [OF assms(1)] assms(2) by (auto simp: race_inv_def)
  have "p \<noteq> [] \<Longrightarrow> pc = Resolved p \<Longrightarrow> stripped t p \<and> listable srv p" for p using t(2) by simp
  then show ?thesis using depth t stripped_valid [OF t(1)]
    by (auto simp: stripped_def maxChrootDepth_def)
qed

theorem racing_resolutions_sound_witness:
  "listable racing_server ''/c'' \<and> validatePath ''/c'' = None"
proof -
  let ?last = "fold (race_turn racing_server) [0, 0, 0] (new_session, map (\<lambda>t. (t, AtPositive)) [''/m/c''])"
  have e: "?last = (\<lparr>chrootDepth = 1, sent = [ReqReadDir ''/c'']\<rparr>, [(''/m/c'', Resolved ''/c'')])" by code_simp
  have "race_reachable racing_server ?last" by (intro race_turns_reachable race_begin) simp
  from racing_resolutions_sound [OF this [unfolded e] list.set_intros(1)] show ?thesis by simp
qed

text \<open>
  C21: the learned depth is unprotected, and a request can pay for it with a panic. On any server, whenever a
  session has learned a depth that a target \<open>t\<close> is long enough for, and another target \<open>t'\<close> would teach it a
  depth that \<open>t\<close> is too short for, the two resolutions can overlap so that that of \<open>t\<close> ends in
  the panic of a slice out of range: \<open>t'\<close> is resolved between its comparison and its slice. The rest of what
  is in progress stays as it is.
\<close>

theorem racing_listings_panic:
  assumes "race_reachable srv (s, ts)" "is_abs t" "is_abs t'"
    and "0 < chrootDepth s" "chrootDepth s + 1 < length (target_parts t)"
    and "length (target_parts t) \<le> chrootDepth (snd (resolveAbsoluteTarget srv t' s))"
  shows "race_reachable srv (snd (resolveAbsoluteTarget srv t' s),
    ts @ [(t, Crashed), (t', Resolved (fst (resolveAbsoluteTarget srv t' s)))])"
proof -
  let ?n = "length ts" and ?s' = "snd (resolveAbsoluteTarget srv t' s)" and ?p = "fst (resolveAbsoluteTarget srv t' s)"
  have "race_reachable srv (s, ts @ [(t, AtPositive), (t', AtPositive)])"
    using reach.next_step [OF reach.next_step [OF assms(1) race_step.begins [OF assms(2)]] race_step.begins [OF assms(3)]] by simp
  then have "race_reachable srv (s, ts @ [(t, AtFits), (t', AtPositive)])"
    using race_turn_reachable [of srv _ ?n] assms(4) by (fastforce simp: nth_append list_update_append)
  then have sliced: "race_reachable srv (s, ts @ [(t, AtSlice), (t', AtPositive)])"
    using race_turn_reachable [of srv _ ?n] assms(5) by (fastforce simp: nth_append list_update_append)
  have "race_reachable srv (fold (race_turn srv) (replicate 12 (Suc ?n)) (s, ts @ [(t, AtSlice), (t', AtPositive)]))"
    by (rule race_turns_reachable [OF sliced])
  then have "race_reachable srv (?s', ts @ [(t, AtSlice), (t', Resolved ?p)])"
    using turns_run [of "Suc ?n" "ts @ [(t, AtSlice), (t', AtPositive)]" t' AtPositive srv 12 s]
    unfolding run_whole by (simp add: nth_append list_update_append case_prod_beta)
  then show ?thesis
    using race_turn_reachable [of srv _ ?n] assms(6) by (fastforce simp: nth_append list_update_append)
qed

theorem racing_listings_panic_witness:
  "\<exists>s ts. race_reachable racing_server (s, ts) \<and> (''/a/b'', Crashed) \<in> set ts \<and>
     fst (resolveAbsoluteTarget racing_server ''/a/b'' s) = ''/b''"
proof -
  let ?start = "fold (race_turn racing_server) [0, 0, 0] (new_session, map (\<lambda>t. (t, AtPositive)) [''/m/c''])"
  let ?s = "\<lparr>chrootDepth = 1, sent = [ReqReadDir ''/c'']\<rparr>" and ?far = "''/m/n/o/p/q/f''"
  have e: "?start = (?s, [(''/m/c'', Resolved ''/c'')])" by code_simp
  have "race_reachable racing_server ?start" by (intro race_turns_reachable race_begin) simp
  note start = this [unfolded e]
  have depth: "chrootDepth ?s + 1 < length (target_parts ''/a/b'')"
    "length (target_parts ''/a/b'') \<le> chrootDepth (snd (resolveAbsoluteTarget racing_server ?far ?s))"
    "fst (resolveAbsoluteTarget racing_server ''/a/b'' (snd (resolveAbsoluteTarget racing_server ?far ?s))) = ''/b''"
    by code_simp+
  have "race_reachable racing_server (snd (resolveAbsoluteTarget racing_server ?far ?s),
      [(''/m/c'', Resolved ''/c'')] @ [(''/a/b'', Crashed), (?far, Resolved (fst (resolveAbsoluteTarget racing_server ?far ?s)))])"
    by (rule racing_listings_panic [OF start _ _ _ depth(1,2)]) simp_all
  moreover have "(''/a/b'', Crashed) \<in> set ([(''/m/c'', Resolved ''/c'')] @
      [(''/a/b'', Crashed), (?far, Resolved (fst (resolveAbsoluteTarget racing_server ?far ?s)))])" by simp
  ultimately show ?thesis using depth(3) by blast
qed

end
