(* ===== verification/Interleaving.thy ===== *)
theory Interleaving
  imports Lifetime
begin

text \<open>
  Requests that overlap. The mutexes of the pool and of the watch map make each of their operations atomic,
  and nothing makes a handler atomic: here every handler that writes what requests share, and those that
  take a session from the pool, are cut at each access, and the pieces of any number of requests interleave.
  The pool and the watch map keep their refinements. The learned chroot depth of a session, which has no
  mutex, is the subject of ListingRace.thy.
\<close>

section \<open>Requests in pieces\<close>

text \<open>
  What a request past its calls to the outside still has to do: store the session it has dialled, read
  the pool's length, set the gauge to it, close the sessions of a deleted FRS, forget its watch entry; enter
  a created FRS, start its watcher; or use a session it has got. The option says whose watch entry is
  forgotten after the gauge.
\<close>

datatype thread =
    StoreNext session_key sftp_server
  | LenNext "frs_ref option"
  | SetNext nat "frs_ref option"
  | CloseNext frs_ref
  | DelNext frs_ref
  | EnterNext frs_view
  | SpawnNext frs_ref
  | InUse session_key nat

definition connect_start :: "server \<Rightarrow> outside \<Rightarrow> request \<Rightarrow> server_state \<Rightarrow> server_state \<times> thread list" where
  "connect_start s x r w =
     (let ref = \<lparr>ref_ns = PathValue r ''ns'', ref_name = PathValue r ''name''\<rparr> in
      case fp_get (ox_frs x) ref of
        Inl e \<Rightarrow> (w, [])
      | Inr view \<Rightarrow>
          (if v_port view \<noteq> sr_frsPort s then (w, [])
           else (case ox_dial x (connect_addr view) (v_hostKeySig view) of
                   Inl e \<Rightarrow> (record_metric (SFTPConnect ''failure'') w, [])
                 | Inr srv \<Rightarrow> (record_metric (SFTPConnect ''success'') w, [StoreNext (session_key_of s r ref) srv]))))"

definition delete_start :: "server \<Rightarrow> outside \<Rightarrow> request \<Rightarrow> server_state \<Rightarrow> server_state \<times> thread list" where
  "delete_start s x r w =
     (let ns = PathValue r ''ns''; name = PathValue r ''name'' in
      case fp_delete (ox_frs x) ns name of
        Some e \<Rightarrow> (w, [])
      | None \<Rightarrow> (w, [CloseNext \<lparr>ref_ns = ns, ref_name = name\<rparr>]))"

definition create_start :: "server \<Rightarrow> outside \<Rightarrow> request \<Rightarrow> server_state \<Rightarrow> server_state \<times> thread list" where
  "create_start s x r w =
     (if rq_formErr r \<noteq> None \<or> wizard_missing r \<noteq> [] \<or> sr_pubKeyPEM s = [] then (w, [])
      else (case fp_create (ox_frs x) (FormValue r ''vmNs'') (wizard_spec s r) of
              Inl e \<Rightarrow> (w, [])
            | Inr view \<Rightarrow> (w, [EnterNext view])))"

definition cancel_start :: "server \<Rightarrow> outside \<Rightarrow> request \<Rightarrow> server_state \<Rightarrow> server_state \<times> thread list" where
  "cancel_start s x r w =
     (if rq_formErr r \<noteq> None then (w, [])
      else (case splitn_on 2 slash (FormValue r ''frs'') of
              [ns, name] \<Rightarrow>
                (case fp_delete (ox_frs x) ns name of
                   Some e \<Rightarrow> (w, [])
                 | None \<Rightarrow> (w, [DelNext \<lparr>ref_ns = ns, ref_name = name\<rparr>]))
            | _ \<Rightarrow> (w, [])))"

definition use_start :: "outside \<Rightarrow> session_key \<Rightarrow> server_state \<Rightarrow> server_state \<times> thread list" where
  "use_start x key w = (case pool_get x key w of (None, w') \<Rightarrow> (w', []) | (Some h, w') \<Rightarrow> (w', [InUse key h]))"

fun advance :: "gotime \<Rightarrow> thread \<Rightarrow> server_state \<Rightarrow> server_state \<times> thread list" where
  "advance now (StoreNext key srv) w =
     (w\<lparr>st_conns := AList.update (st_next w) (srv, new_session) (st_conns w),
        st_pool := Store key (st_next w) now (st_pool w), st_next := st_next w + 1\<rparr>, [LenNext None])"
| "advance now (LenNext after) w = (w, [SetNext (Len (st_pool w)) after])"
| "advance now (SetNext n after) w =
     (w\<lparr>st_active := n\<rparr>, case after of None \<Rightarrow> [] | Some ref \<Rightarrow> [DelNext ref])"
| "advance now (CloseNext ref) w =
     (w\<lparr>st_pool := CloseAllForFRS (ref_ns ref) (ref_name ref) (st_pool w)\<rparr>, [LenNext (Some ref)])"
| "advance now (DelNext ref) w = (w\<lparr>st_watches := watch_del ref (st_watches w)\<rparr>, [])"
| "advance now (EnterNext view) w =
     (w\<lparr>st_watches := watch_set (v_ref view) (pending_state view) now (st_watches w)\<rparr>, [SpawnNext (v_ref view)])"
| "advance now (SpawnNext ref) w = (w\<lparr>st_running := ref # st_running w\<rparr>, [])"
| "advance now (InUse key h) w = (w, [])"

text \<open>The pieces of one request run without interruption.\<close>

fun alone :: "nat \<Rightarrow> gotime \<Rightarrow> server_state \<times> thread list \<Rightarrow> server_state \<times> thread list" where
  "alone (Suc n) now (w, t # ts) = (case advance now t w of (w', ts') \<Rightarrow> alone n now (w', ts' @ ts))"
| "alone n now (w, ts) = (w, ts)"

section \<open>Interleavings\<close>

text \<open>
  The steps: a request, watcher or tick that runs as a whole, the beginning of a request that is cut, and
  the next piece of one in progress.
\<close>

inductive il_step :: "server \<Rightarrow> server_state \<times> thread list \<Rightarrow> server_state \<times> thread list \<Rightarrow> bool" for s :: server where
  whole: "il_step s (w, ts) (w', ts)" if "server_step s w w'"
| connect: "il_step s (w, ts) (w', new @ ts)" if "connect_start s x r w = (w', new)"
| delete: "il_step s (w, ts) (w', new @ ts)" if "delete_start s x r w = (w', new)"
| create: "il_step s (w, ts) (w', new @ ts)" if "create_start s x r w = (w', new)"
| cancel: "il_step s (w, ts) (w', new @ ts)" if "cancel_start s x r w = (w', new)"
| get_session: "il_step s (w, ts) (w', new @ ts)" if "use_start x key w = (w', new)"
| piece: "il_step s (w, ts) (w', new @ remove1 t ts)" if "t \<in> set ts" "advance now t w = (w', new)"

definition il_init :: "server \<Rightarrow> server_state \<times> thread list \<Rightarrow> bool" where
  "il_init s c \<longleftrightarrow> server_init s (fst c) \<and> snd c = []"

abbreviation il_reachable :: "server \<Rightarrow> server_state \<times> thread list \<Rightarrow> bool" where
  "il_reachable s \<equiv> reach (il_init s) (il_step s)"

lemma connect_start_view: "connect_start s x r w = (w', new) \<Longrightarrow> pool_view w' = pool_view w"
  by (auto simp: connect_start_def Let_def record_metric_def pool_view_def split: sum.splits if_splits)

lemma delete_start_view: "delete_start s x r w = (w', new) \<Longrightarrow> w' = w"
  by (auto simp: delete_start_def Let_def split: option.splits)

lemma create_start_starts: "create_start s x r w = (w', new) \<Longrightarrow> w' = w \<and> (new = [] \<or> (\<exists>view. new = [EnterNext view]))"
  by (auto simp: create_start_def split: sum.splits if_splits)

lemma cancel_start_starts: "cancel_start s x r w = (w', new) \<Longrightarrow> w' = w \<and> (new = [] \<or> (\<exists>ref. new = [DelNext ref]))"
  by (auto simp: cancel_start_def split: option.splits if_splits list.splits)

lemma use_start_state:
  "use_start x key w = (w', new) \<Longrightarrow> w' = w\<lparr>st_pool := snd (Get key (ox_now x) (ox_now x) (st_pool w))\<rparr>"
  by (auto simp: use_start_def pool_get_def split: prod.splits option.splits)

lemma use_start_view: "use_start x key w = (w', new) \<Longrightarrow> pool_life (pool_view w) (pool_view w')"
  by (rule pool_life_operation [of _ "OpGet key (ox_now x) (ox_now x)"]) (auto dest!: use_start_state)

lemma advance_view:
  "advance now t w = (w', new) \<Longrightarrow> pool_view w' = pool_view w \<or> pool_life (pool_view w) (pool_view w')"
proof (cases t)
  case (StoreNext key srv)
  assume "advance now t w = (w', new)"
  then have "pool_life (pool_view w) (pool_view w')"
    using StoreNext by (intro pool_life_operation [of _ "OpStore key (st_next w) now"]) auto
  then show ?thesis ..
next
  case (CloseNext ref)
  assume "advance now t w = (w', new)"
  then have "pool_life (pool_view w) (pool_view w')"
    using CloseNext by (intro pool_life_operation [of _ "OpCloseAll (ref_ns ref) (ref_name ref)"]) auto
  then show ?thesis ..
qed (auto simp: pool_view_def)

lemma il_step_pool:
  "il_step s c c' \<Longrightarrow> pool_view (fst c') = pool_view (fst c) \<or> pool_life (pool_view (fst c)) (pool_view (fst c'))"
  by (induction rule: il_step.induct)
    (auto dest: server_step_pool connect_start_view delete_start_view create_start_starts cancel_start_starts
        use_start_view advance_view)

text \<open>The pool's refinement holds for overlapping requests as well.\<close>

interpretation overlapping: simulation "il_init s" "il_step s" fresh_pool pool_life "\<lambda>c. pool_view (fst c)" for s
  by unfold_locales (auto simp: il_init_def server_init_def New_def pool_view_def fresh_pool_def dest: il_step_pool)

text \<open>Connections are never forgotten, so that a session in use has one behind it.\<close>

lemma serve_keys: "set (keys (st_conns w)) \<subseteq> set (keys (st_conns (snd (serve s x r w))))"
proof (cases s x r w rule: serve_effect)
  case (authed a)
  show ?thesis
    unfolding authed(3)
  proof (cases a s x "csrf_parsed r" w rule: serve_authed_effect)
    case (connect ref)
    then show "set (keys (st_conns w)) \<subseteq> set (keys (st_conns (snd (serve_authed a s x (csrf_parsed r) w))))"
      using connected_keys by blast
  qed (simp_all add: session_only_def same_sessions_def)
qed simp

lemma server_step_keys: "server_step s w w' \<Longrightarrow> set (keys (st_conns w)) \<subseteq> set (keys (st_conns w'))"
  by (induction rule: server_step.induct) (use serve_keys in \<open>auto simp: watcher_ends_def\<close>)

lemma advance_keys:
  "advance now t w = (w', new) \<Longrightarrow>
     set (keys (st_conns w')) =
       (case t of StoreNext key srv \<Rightarrow> insert (st_next w) (set (keys (st_conns w))) | _ \<Rightarrow> set (keys (st_conns w)))"
proof (cases t)
  case (StoreNext key srv)
  assume "advance now t w = (w', new)"
  then have "w' = fst (advance now t w)" by simp
  then show ?thesis unfolding StoreNext advance.simps fst_conv by (simp add: dom_update)
qed auto

lemma il_conn_inv_cong:
  "st_pool w' = st_pool w \<Longrightarrow> st_conns w' = st_conns w \<Longrightarrow> st_next w' = st_next w \<Longrightarrow> conn_inv w' \<longleftrightarrow> conn_inv w"
  by (simp add: conn_inv_def)

lemma advance_inv:
  assumes "advance now t w = (w', new)" "conn_inv w"
  shows "conn_inv w'"
proof (cases t)
  case (StoreNext key srv)
  have "st_pool w' = Store key (st_next w) now (st_pool w)" "st_next w' = st_next w + 1"
    using assms(1) unfolding StoreNext by auto
  moreover have "set (keys (st_conns w')) = insert (st_next w) (set (keys (st_conns w)))"
    unfolding advance_keys [OF assms(1)] StoreNext by (simp only: thread.case)
  ultimately show ?thesis using assms(2) by (rule stored_inv)
next
  case (CloseNext ref)
  then show ?thesis
    using assms(1) by (intro conn_inv_pool_step [OF assms(2), of "OpCloseAll (ref_ns ref) (ref_name ref)"]) auto
qed (use assms(1) il_conn_inv_cong [of w' w] assms(2) in \<open>auto split: option.splits\<close>)

definition threads_ok :: "server_state \<times> thread list \<Rightarrow> bool" where
  "threads_ok c \<longleftrightarrow> conn_inv (fst c) \<and> (\<forall>key h. InUse key h \<in> set (snd c) \<longrightarrow> h \<in> set (keys (st_conns (fst c))))"

lemma il_step_inv: "il_step s c c' \<Longrightarrow> threads_ok c \<Longrightarrow> threads_ok c'"
proof (induction rule: il_step.induct)
  case (whole w w' ts)
  then show ?case
    using server_step_inv [OF whole.hyps] server_step_keys [OF whole.hyps] unfolding threads_ok_def fst_conv snd_conv by blast
next
  case (connect x r w w' new ts)
  then have "st_pool w' = st_pool w \<and> st_conns w' = st_conns w \<and> st_next w' = st_next w" "\<forall>key h. InUse key h \<notin> set new"
    by (auto simp: connect_start_def Let_def record_metric_def split: sum.splits if_splits)
  then show ?case using connect.prems by (auto simp: threads_ok_def conn_inv_def)
next
  case (delete x r w w' new ts)
  then have "w' = w" "\<forall>key h. InUse key h \<notin> set new"
    by (auto simp: delete_start_def Let_def split: option.splits)
  then show ?case using delete.prems by (auto simp: threads_ok_def)
next
  case (create x r w w' new ts)
  then show ?case using create_start_starts by (fastforce simp: threads_ok_def)
next
  case (cancel x r w w' new ts)
  then show ?case using cancel_start_starts by (fastforce simp: threads_ok_def)
next
  case (get_session x key w w' new ts)
  note w' = use_start_state [OF get_session.hyps]
  have inv: "conn_inv w'"
    by (rule conn_inv_pool_step [of w "OpGet key (ox_now x) (ox_now x)"])
      (use get_session.prems w' in \<open>auto simp: threads_ok_def\<close>)
  have "h \<in> set (keys (st_conns w'))" if "InUse key' h \<in> set new" for key' h
  proof -
    have "fst (Get key (ox_now x) (ox_now x) (st_pool w)) = Some h"
      using that get_session.hyps by (auto simp: use_start_def pool_get_def split: prod.splits option.splits)
    then have "h \<in> set (live (st_pool w))" by (rule Get_SomeD)
    moreover have "set (live (st_pool w)) \<subseteq> set (keys (st_conns w))"
      using get_session.prems unfolding threads_ok_def conn_inv_def by simp
    ultimately show ?thesis using w' by auto
  qed
  then show ?case using inv get_session.prems w' by (auto simp: threads_ok_def)
next
  case (piece t ts now w w' new)
  have "InUse key h \<notin> set new" for key h using piece(2) by (cases t) (auto split: option.splits)
  moreover have "set (keys (st_conns w)) \<subseteq> set (keys (st_conns w'))" using advance_keys [OF piece(2)] by (cases t) auto
  moreover have "set (remove1 t ts) \<subseteq> set ts" by (rule set_remove1_subset)
  ultimately show ?case
    using piece.prems advance_inv [OF piece(2)] unfolding threads_ok_def by (auto simp del: set_map) blast+
qed

lemma il_reachable_ok: "il_reachable s c \<Longrightarrow> threads_ok c"
proof (induction rule: reach_invariant)
  case (init c)
  then show ?case by (auto simp: il_init_def server_init_def New_def threads_ok_def conn_inv_def)
qed (rule il_step_inv)

section \<open>The watch map of overlapping requests\<close>

text \<open>A watcher about to be started counts as one that waits.\<close>

fun spawn_of :: "thread \<Rightarrow> frs_ref list" where
  "spawn_of (SpawnNext ref) = [ref]"
| "spawn_of _ = []"

definition spawning :: "thread list \<Rightarrow> frs_ref multiset" where
  "spawning ts = mset (concat (map spawn_of ts))"

definition il_wizard_view :: "server_state \<times> thread list \<Rightarrow> wizard_state" where
  "il_wizard_view c = \<lparr>wz_watches = st_watches (fst c), wz_running = mset (st_running (fst c)) + spawning (snd c)\<rparr>"

lemma spawning_simps [simp]:
  "spawning [] = {#}" "spawning (t # ts) = mset (spawn_of t) + spawning ts" "spawning (ts @ us) = spawning ts + spawning us"
  by (simp_all add: spawning_def)

lemma spawning_remove1: "t \<in> set ts \<Longrightarrow> spawning ts = mset (spawn_of t) + spawning (remove1 t ts)"
  by (induction ts) auto

text \<open>A step of the wizard's system is one with more watchers waiting, too.\<close>

lemma wizard_step_frame:
  "wizard_step a b \<Longrightarrow> wizard_step (a\<lparr>wz_running := wz_running a + m\<rparr>) (b\<lparr>wz_running := wz_running b + m\<rparr>)"
proof (induction rule: wizard_step.induct)
  case (created a v now)
  then show ?case using wizard_step.created [of "a\<lparr>wz_running := wz_running a + m\<rparr>" v now] by simp
next
  case (finished ref a r frsTimeout now)
  then show ?case using wizard_step.finished [of ref "a\<lparr>wz_running := wz_running a + m\<rparr>" r frsTimeout now] by simp
next
  case (deleted a ref)
  show ?case using wizard_step.deleted [of "a\<lparr>wz_running := wz_running a + m\<rparr>" ref] by (cases a) simp
next
  case (swept a maxAge now)
  show ?case using wizard_step.swept [of "a\<lparr>wz_running := wz_running a + m\<rparr>" maxAge now] by (cases a) simp
qed

lemma il_view_frame: "il_wizard_view (w, ts) = wizard_view w\<lparr>wz_running := wz_running (wizard_view w) + spawning ts\<rparr>"
  by (simp add: il_wizard_view_def wizard_view_def)

lemma advance_wizard:
  assumes "t \<in> set ts" "advance now t w = (w', new)"
  shows "il_wizard_view (w', new @ remove1 t ts) = il_wizard_view (w, ts) \<or>
    wizard_step (il_wizard_view (w, ts)) (il_wizard_view (w', new @ remove1 t ts))"
proof (cases t)
  case (DelNext ref)
  have "wizard_step (il_wizard_view (w, ts)) (il_wizard_view (w', new @ remove1 t ts))"
    using wizard_step.deleted [of "il_wizard_view (w, ts)" ref] assms DelNext
    by (auto simp: il_wizard_view_def spawning_remove1 [OF assms(1)])
  then show ?thesis ..
next
  case (EnterNext view)
  have "wizard_step (il_wizard_view (w, ts)) (il_wizard_view (w', new @ remove1 t ts))"
    using wizard_step.created [of "il_wizard_view (w, ts)" view now] assms EnterNext
    by (auto simp: il_wizard_view_def spawning_remove1 [OF assms(1)])
  then show ?thesis ..
qed (use assms(2) in \<open>auto simp: il_wizard_view_def spawning_remove1 [OF assms(1)] split: option.splits\<close>)

lemma il_step_wizard:
  "il_step s c c' \<Longrightarrow> il_wizard_view c' = il_wizard_view c \<or> wizard_step (il_wizard_view c) (il_wizard_view c')"
proof (induction rule: il_step.induct)
  case (whole w w' ts)
  then show ?case using server_step_wizard [OF whole.hyps] wizard_step_frame unfolding il_view_frame by metis
next
  case (connect x r w w' new ts)
  then have "st_watches w' = st_watches w" "st_running w' = st_running w" "spawning new = {#}"
    by (auto simp: connect_start_def Let_def record_metric_def split: sum.splits if_splits)
  then show ?case by (simp add: il_wizard_view_def)
next
  case (delete x r w w' new ts)
  then have "w' = w" "spawning new = {#}" by (auto simp: delete_start_def Let_def split: option.splits)
  then show ?case by (simp add: il_wizard_view_def)
next
  case (create x r w w' new ts)
  then show ?case by (auto simp: il_wizard_view_def dest!: create_start_starts)
next
  case (cancel x r w w' new ts)
  then show ?case by (auto simp: il_wizard_view_def dest!: cancel_start_starts)
next
  case (get_session x key w w' new ts)
  have "w' = w\<lparr>st_pool := snd (Get key (ox_now x) (ox_now x) (st_pool w))\<rparr>" "spawning new = {#}"
    using use_start_state [OF get_session] get_session by (auto simp: use_start_def split: prod.splits option.splits)
  then show ?case by (simp add: il_wizard_view_def)
next
  case (piece t ts now w w' new)
  then show ?case by (rule advance_wizard)
qed

interpretation overlapping_wizard: simulation "il_init s" "il_step s" "\<lambda>a. a = wizard_init" wizard_step il_wizard_view for s
  by unfold_locales (auto simp: il_init_def server_init_def New_def il_wizard_view_def wizard_init_def dest: il_step_wizard)

lemma demo_il_reachable: "il_reachable demo_site (demo_state, [])"
proof (rule reach.start)
  have "server_init demo_site demo_state"
    unfolding server_init_def demo_site_def demo_state_def New_def by auto
  then show "il_init demo_site (demo_state, [])" by (simp add: il_init_def)
qed

section \<open>Properties\<close>

text \<open>
  The handlers are their pieces. Run without interruption, the pieces of a connect and of a delete
  leave nothing to do and the very state of the handlers that serve them as a whole; so do those of the
  wizard's creation and cancellation.
\<close>

lemma handlers_are_their_pieces:
  "alone 4 (ox_now x) (connect_start s x r w) = (snd (handleConnect s x r w), []) \<and>
   alone 4 (ox_now x) (delete_start s x r w) = (snd (handleSessionDelete s x r w), []) \<and>
   alone 2 (ox_now x) (create_start s x r w) = (snd (handleWizardCreate s x r w), []) \<and>
   alone 2 (ox_now x) (cancel_start s x r w) = (snd (handleWizardCancel s x r w), [])"
proof (intro conjI)
  show "alone 4 (ox_now x) (connect_start s x r w) = (snd (handleConnect s x r w), [])"
    by (simp add: connect_start_def handleConnect_def store_session_def Let_def record_metric_def eval_nat_numeral
        split: sum.splits)
  show "alone 4 (ox_now x) (delete_start s x r w) = (snd (handleSessionDelete s x r w), [])"
    by (simp add: delete_start_def handleSessionDelete_def Let_def eval_nat_numeral split: option.splits)
  show "alone 2 (ox_now x) (create_start s x r w) = (snd (handleWizardCreate s x r w), [])"
    by (simp add: create_start_def handleWizardCreate_def eval_nat_numeral split: option.splits sum.splits)
  show "alone 2 (ox_now x) (cancel_start s x r w) = (snd (handleWizardCancel s x r w), [])"
    by (auto simp: cancel_start_def handleWizardCancel_def eval_nat_numeral split: option.splits list.splits)
qed

text \<open>
  C13: every SFTP connection is accounted for however requests overlap. At every time the pool is the
  result of a sequence of its operations, the Stores of which got the handles 0, 1, 2, ... in this
  order, and each of these connections is exactly one of three: pooled, closed once, or displaced by a
  later connect of the same browser session to the same FileRecoverySession, and then never closed. No
  request in progress uses a session that was never opened.
\<close>

theorem overlapping_accounted:
  assumes "il_reachable s (w, threads)"
  shows "(\<exists>ops. st_pool w = pool_run ops (NewPool (pool_ttl (st_pool w))) \<and> stored ops = [0..<st_next w] \<and>
      mset [0..<st_next w] = mset (live (st_pool w)) + mset (pool_closed (st_pool w)) +
        mset (displaced ops (NewPool (pool_ttl (st_pool w))))) \<and>
    \<not> (\<exists>key h. InUse key h \<in> set threads \<and> map_of (st_conns w) h = None)"
proof
  have "reach fresh_pool pool_life (pool_view w)" using overlapping.reach_view [OF assms] by simp
  then show "\<exists>ops. st_pool w = pool_run ops (NewPool (pool_ttl (st_pool w))) \<and> stored ops = [0..<st_next w] \<and>
      mset [0..<st_next w] = mset (live (st_pool w)) + mset (pool_closed (st_pool w)) +
        mset (displaced ops (NewPool (pool_ttl (st_pool w))))"
    by (rule pool_life_accounted)
  show "\<not> (\<exists>key h. InUse key h \<in> set threads \<and> map_of (st_conns w) h = None)"
    using il_reachable_ok [OF assms] unfolding threads_ok_def map_of_eq_None_iff set_map fst_conv snd_conv by blast
qed

text \<open>
  C18: however requests, watchers and ticks overlap, the watch map stays a state of the wizard's transition
  system, a watcher that is about to be started counted among those that wait: so every entry is pending
  with a watcher, or in a terminal state.
\<close>

theorem overlapping_refines_wizard:
  assumes "il_reachable s (w, threads)"
  shows "reachable \<lparr>wz_watches = st_watches w, wz_running = mset (st_running w) + spawning threads\<rparr>"
  using overlapping_wizard.reach_view [OF assms] by (simp only: il_wizard_view_def fst_conv snd_conv)

theorem overlapping_refines_wizard_witness:
  "reachable \<lparr>wz_watches = st_watches demo_state, wz_running = mset (st_running demo_state) + spawning []\<rparr>"
  by (rule overlapping_refines_wizard [OF demo_il_reachable])

text \<open>One piece after another.\<close>

lemma il_advance:
  "il_reachable s (w, ts) \<Longrightarrow> t \<in> set ts \<Longrightarrow> advance now t w = (w', new) \<Longrightarrow> il_reachable s (w', new @ remove1 t ts)"
  using reach.next_step il_step.piece by metis

lemma il_connect: "il_reachable s (w, ts) \<Longrightarrow> connect_start s x r w = (w', new) \<Longrightarrow> il_reachable s (w', new @ ts)"
  using reach.next_step il_step.connect by metis

lemma Len_Store:
  assumes "wf_pool p" "map_of (pool_entries p) key = None"
  shows "Len (Store key h now p) = Len p + 1"
  using arg_cong [OF mset_update [OF assms(1), of key "\<lparr>pe_sess = h, pe_lastUsedAt = now\<rparr>"], of size] assms(2)
  by (simp add: Len_def Store_def delete_none)

lemma connect_started:
  "snd (connect_start s x r w) = [StoreNext key srv] \<Longrightarrow>
     connect_start s x r w = (record_metric (SFTPConnect ''success'') w, [StoreNext key srv]) \<and>
     connect_start s x r v = (record_metric (SFTPConnect ''success'') v, [StoreNext key srv])"
  by (auto simp: connect_start_def Let_def split: sum.splits if_splits)

text \<open>
  The gauge of active connections is right only when connects do not overlap. From every state in
  which two browser sessions, or one for two FileRecoverySessions, connect and neither has a session
  yet, the two connects can both finish with two sessions more in the pool and the gauge one short.
\<close>

lemma overlapping_connects_lose_count:
  assumes "il_reachable s (w, threads)"
    and "snd (connect_start s x1 r1 w) = [StoreNext k1 srv1]" "snd (connect_start s x2 r2 w) = [StoreNext k2 srv2]"
    and "k1 \<noteq> k2" "map_of (pool_entries (st_pool w)) k1 = None" "map_of (pool_entries (st_pool w)) k2 = None"
  shows "\<exists>w'. il_reachable s (w', threads) \<and> Len (st_pool w') = Len (st_pool w) + 2 \<and> st_active w' = Len (st_pool w) + 1"
proof -
  let ?m = "record_metric (SFTPConnect ''success'')" and ?n = "Len (st_pool w)"
  let ?store = "\<lambda>key srv w. fst (advance 0 (StoreNext key srv) w)"
  let ?w2 = "?m (?m w)" and ?w3 = "?store k1 srv1 (?m (?m w))"
  let ?w4 = "?store k2 srv2 (?store k1 srv1 (?m (?m w)))"
  have wf: "wf_pool (st_pool w)" using il_reachable_ok [OF assms(1)] by (simp add: threads_ok_def conn_inv_wf)
  have pools: "st_pool ?w3 = Store k1 (st_next w) 0 (st_pool w)"
    "st_pool ?w4 = Store k2 (st_next w + 1) 0 (Store k1 (st_next w) 0 (st_pool w))"
    by (simp_all add: record_metric_def)
  have "Len (st_pool ?w3) = ?n + 1" unfolding pools by (rule Len_Store [OF wf assms(5)])
  moreover have "Len (st_pool ?w4) = Len (st_pool ?w3) + 1"
    unfolding pools by (rule Len_Store) (use wf assms(4,6) in \<open>simp_all add: Store_def wf_rules find_simps\<close>)
  ultimately have n: "Len (st_pool ?w3) = ?n + 1" "Len (st_pool ?w4) = ?n + 2" by simp_all
  have "il_reachable s (?m w, [StoreNext k1 srv1] @ threads)"
    by (rule il_connect [OF assms(1)]) (use connect_started [OF assms(2)] in blast)
  then have "il_reachable s (?w2, [StoreNext k2 srv2] @ [StoreNext k1 srv1] @ threads)"
    by (rule il_connect) (use connect_started [OF assms(3)] in blast)
  then have "il_reachable s (?w3, [LenNext None] @ remove1 (StoreNext k1 srv1) ([StoreNext k2 srv2] @ [StoreNext k1 srv1] @ threads))"
    by (rule il_advance [where now = 0]) simp_all
  then have "il_reachable s (?w3, LenNext None # StoreNext k2 srv2 # threads)" using assms(4) by simp
  from il_advance [OF this, of "LenNext None" 0 ?w3 "[SetNext (?n + 1) None]"] n(1)
  have "il_reachable s (?w3, SetNext (?n + 1) None # StoreNext k2 srv2 # threads)" by simp
  from il_advance [OF this, of "StoreNext k2 srv2" 0 ?w4 "[LenNext None]"]
  have "il_reachable s (?w4, LenNext None # SetNext (?n + 1) None # threads)" by simp
  from il_advance [OF this, of "LenNext None" 0 ?w4 "[SetNext (?n + 2) None]"] n(2)
  have "il_reachable s (?w4, SetNext (?n + 2) None # SetNext (?n + 1) None # threads)" by simp
  from il_advance [OF this, of "SetNext (?n + 2) None" 0 "?w4\<lparr>st_active := ?n + 2\<rparr>" "[]"]
  have "il_reachable s (?w4\<lparr>st_active := ?n + 2\<rparr>, SetNext (?n + 1) None # threads)" by simp
  from il_advance [OF this, of "SetNext (?n + 1) None" 0 "?w4\<lparr>st_active := ?n + 2, st_active := ?n + 1\<rparr>" "[]"]
  have "il_reachable s (?w4\<lparr>st_active := ?n + 2, st_active := ?n + 1\<rparr>, threads)" by simp
  moreover have "Len (st_pool (?w4\<lparr>st_active := ?n + 2, st_active := ?n + 1\<rparr>)) = ?n + 2" using n(2) by simp
  moreover have "st_active (?w4\<lparr>st_active := ?n + 2, st_active := ?n + 1\<rparr>) = ?n + 1" by simp
  ultimately show ?thesis by blast
qed

lemma demo_connect_start:
  "snd (connect_start demo_site demo_outside (demo_request\<lparr>rq_pathValues := [(''ns'', ''db''), (''name'', name)]\<rparr>) w) =
     [StoreNext \<lparr>sk_user = [], sk_frs = \<lparr>nn_ns = ''db'', nn_name = name\<rparr>\<rparr> file_server]"
  by (simp add: connect_start_def Let_def PathValue_def first_value_def demo_provider_def demo_view_def demo_site_def
      demo_outside_def session_key_of_def userIDFromCookie_def Cookie_def demo_request_def)

lemma overlapping_connects_lose_count_witness:
  "\<exists>w. il_reachable demo_site (w, []) \<and> Len (st_pool w) = 2 \<and> st_active w = 1"
proof -
  have "Len (st_pool demo_state) = 0" "pool_entries (st_pool demo_state) = []"
    by (simp_all add: demo_state_def New_def NewPool_def Len_def)
  then show ?thesis
    using overlapping_connects_lose_count [OF demo_il_reachable demo_connect_start [of "''frs-1''"] demo_connect_start [of "''frs-2''"]]
    by (simp add: numeral_2_eq_2)
qed

lemma demo_in_use:
  "il_reachable demo_site
     (snd (pool_get demo_outside (demo_key demo_signed) demo_connected), [InUse (demo_key demo_signed) 0])"
proof -
  have "il_reachable demo_site (demo_connected, [])"
    unfolding demo_connected_def by (rule reach.next_step [OF demo_il_reachable il_step.whole [OF server_step.request]])
  moreover have "use_start demo_outside (demo_key demo_signed) demo_connected =
      (snd (pool_get demo_outside (demo_key demo_signed) demo_connected), [InUse (demo_key demo_signed) 0])"
    using demo_got by (auto simp: use_start_def split: prod.splits option.splits)
  ultimately show ?thesis using reach.next_step il_step.get_session append_Nil2 by metis
qed

theorem overlapping_accounted_witness:
  "map_of (st_conns (snd (pool_get demo_outside (demo_key demo_signed) demo_connected))) 0 \<noteq> None"
  using overlapping_accounted [OF demo_in_use] by auto

text \<open>
  A session that one request has got from the pool can be closed by the deletion of its
  FileRecoverySession before that request uses it: the deletion finishes, the request still holds it.
\<close>

lemma CloseAll_closes:
  "map_of (pool_entries p) key = Some e \<Longrightarrow> sk_frs key = \<lparr>nn_ns = ns, nn_name = name\<rparr> \<Longrightarrow>
     pe_sess e \<in> set (pool_closed (CloseAllForFRS ns name p))"
  by (drule map_of_SomeD) (force simp: CloseAllForFRS_def of_frs_def)

lemma use_after_close:
  assumes "il_reachable s (w, threads)" "snd (use_start x key w) = [InUse key h]"
    and "snd (delete_start s x' r w) = [CloseNext ref]" "sk_frs key = \<lparr>nn_ns = ref_ns ref, nn_name = ref_name ref\<rparr>"
  shows "\<exists>w'. il_reachable s (w', InUse key h # threads) \<and> h \<in> set (pool_closed (st_pool w'))"
proof -
  obtain w1 where w1: "pool_get x key w = (Some h, w1)" and u: "use_start x key w = (w1, [InUse key h])"
    using assms(2) by (auto simp: use_start_def split: prod.splits option.splits)
  obtain e where e: "map_of (pool_entries (st_pool w1)) key = Some e" "pe_sess e = h"
    using pool_get_SomeD(3) [OF _ w1] il_reachable_ok [OF assms(1)] by (auto simp: threads_ok_def)
  have d: "delete_start s x' r w1 = (w1, [CloseNext ref])"
    using assms(3) by (auto simp: delete_start_def Let_def split: option.splits)
  let ?p = "CloseAllForFRS (ref_ns ref) (ref_name ref) (st_pool w1)"
  let ?w = "w1\<lparr>st_pool := ?p\<rparr>"
  have "il_reachable s (w1, [CloseNext ref] @ [InUse key h] @ threads)"
    using assms(1) u d il_step.get_session il_step.delete reach.next_step by metis
  from il_advance [OF this, of "CloseNext ref" 0 ?w "[LenNext (Some ref)]"]
  have "il_reachable s (?w, LenNext (Some ref) # InUse key h # threads)" by simp
  from il_advance [OF this, of "LenNext (Some ref)" 0 ?w "[SetNext (Len ?p) (Some ref)]"]
  have "il_reachable s (?w, SetNext (Len ?p) (Some ref) # InUse key h # threads)" by simp
  from il_advance [OF this, of "SetNext (Len ?p) (Some ref)" 0 "?w\<lparr>st_active := Len ?p\<rparr>" "[DelNext ref]"]
  have "il_reachable s (?w\<lparr>st_active := Len ?p\<rparr>, DelNext ref # InUse key h # threads)" by simp
  from il_advance [OF this, of "DelNext ref" 0 "fst (advance 0 (DelNext ref) (?w\<lparr>st_active := Len ?p\<rparr>))" "[]"]
  have "il_reachable s (fst (advance 0 (DelNext ref) (?w\<lparr>st_active := Len ?p\<rparr>)), InUse key h # threads)" by simp
  moreover have "h \<in> set (pool_closed (st_pool (fst (advance 0 (DelNext ref) (?w\<lparr>st_active := Len ?p\<rparr>)))))"
    using CloseAll_closes [OF e(1) assms(4)] e(2) by simp
  ultimately show ?thesis by blast
qed

end
