(* ===== verification/Liveness.thy ===== *)
theory Liveness
  imports Interleaving
begin

text \<open>
  What the server does eventually. A browser that waits for a session it has created polls, and gets an
  answer in every run of the overlapping requests in which watchers end. The liveness argument is about the
  wizard's transition system and carries over by the refinement.
\<close>

section \<open>Watchers end\<close>

text \<open>The wait for \<open>ref\<close> ends, and its watcher writes the entry.\<close>

definition finishes :: "frs_ref \<Rightarrow> wizard_state \<Rightarrow> wizard_state \<Rightarrow> bool" where
  "finishes ref a b \<longleftrightarrow> ref \<in># wz_running a \<and>
     (\<exists>r frsTimeout now. b = \<lparr>wz_watches = watchFRSCreated (\<lambda>_ _. r) frsTimeout ref now (wz_watches a),
                              wz_running = wz_running a - {#ref#}\<rparr>)"

definition settled :: "frs_ref \<Rightarrow> watch_map \<Rightarrow> bool" where
  "settled ref m \<longleftrightarrow> (case watch_get ref m of None \<Rightarrow> True | Some ws \<Rightarrow> ws_done ws)"

lemma finishes_settles: "finishes ref a b \<Longrightarrow> settled ref (wz_watches b)"
  by (auto simp: finishes_def settled_def watchFRSCreated_def watchFRSCreatedWithTimeout_def watch_get_set outcome_ok)

text \<open>Only another creation under the same name unsettles an entry.\<close>

lemma settled_kept:
  assumes "wizard_step a b" "wf_map (wz_watches a)" "settled ref (wz_watches a)"
    and "count (wz_running b) ref \<le> count (wz_running a) ref"
  shows "settled ref (wz_watches b)"
  using assms
  by (induction rule: wizard_step.induct)
    (auto simp: settled_def find_simps watchFRSCreated_def watchFRSCreatedWithTimeout_def outcome_ok split: option.splits if_splits)

lemma unsettled_runs: "wizard_inv a \<Longrightarrow> \<not> settled ref (wz_watches a) \<Longrightarrow> ref \<in># wz_running a"
  by (auto simp: wizard_inv_def settled_def split: option.splits)

lemma wizard_settles:
  assumes "run wizard_step \<alpha>" "\<alpha> 0 = wizard_init" "weakly_fair (finishes ref) (\<lambda>a. ref \<in># wz_running a) \<alpha>"
    and "\<And>m. i \<le> m \<Longrightarrow> count (wz_running (\<alpha> (Suc m))) ref \<le> count (wz_running (\<alpha> m)) ref"
  shows "\<exists>j \<ge> i. \<forall>k \<ge> j. settled ref (wz_watches (\<alpha> k))"
proof -
  have inv: "wizard_inv (\<alpha> j)" for j by (rule reachable_inv, rule run_reach [OF assms(1)]) (rule assms(2))
  have "\<exists>j \<ge> i. settled ref (wz_watches (\<alpha> j))"
  proof (cases "settled ref (wz_watches (\<alpha> i))")
    case False
    show ?thesis
      by (rule leads_to [OF assms(1,3), where P = "\<lambda>a. wizard_inv a \<and> \<not> settled ref (wz_watches a)"])
        (use False inv unsettled_runs finishes_settles in auto)
  qed blast
  then obtain j where j: "i \<le> j" "settled ref (wz_watches (\<alpha> j))" by blast
  have "settled ref (wz_watches (\<alpha> k))" if "j \<le> k" for k
  proof (rule run_stable [OF assms(1), where P = "\<lambda>a. settled ref (wz_watches a)", OF _ j(2) that])
    fix m assume "j \<le> m" "settled ref (wz_watches (\<alpha> m))" "wizard_step (\<alpha> m) (\<alpha> (Suc m))"
    then show "settled ref (wz_watches (\<alpha> (Suc m)))"
      using settled_kept inv assms(4) j(1) unfolding wizard_inv_def by (meson order_trans)
  qed
  then show ?thesis using j(1) by blast
qed

section \<open>Polls\<close>

text \<open>
  An answer the browser waits for: a fragment with the state for the page's body, or the redirect to the
  listing. A bare 204 leaves the page as it is.
\<close>

definition final_answer :: "frs_ref \<Rightarrow> string \<Rightarrow> resp \<Rightarrow> bool" where
  "final_answer ref path res \<longleftrightarrow>
     rs_status res = 200 \<or> (''HX-Redirect'', browse_url ref (query_escape path)) \<in> set (rs_header res)"

lemma poll_final:
  assumes "watch_get ref (st_watches w) = Some ws" "ws_done ws" "entry_ok ws"
  shows "final_answer ref path (handlePartialReady s x r ref path w)"
  using assms
  by (auto simp: entry_ok_def final_answer_def handlePartialReady_def Let_def no_content_def renderPreparingBody_def html_def)

lemma poll_asks_cluster:
  assumes "watch_get ref (st_watches w) = None" "fp_get (ox_frs x) ref = Inr view" "v_state view \<in> {''Ready'', ''Failed''}"
  shows "final_answer ref path (handlePartialReady s x r ref path w)"
  using assms by (auto simp: final_answer_def handlePartialReady_def Let_def no_content_def renderPreparingBody_def html_def)

section \<open>Properties\<close>

text \<open>
  C17: no browser waits for ever. In every run of overlapping requests that is fair to the session's watcher
  (whose wait has a deadline) and that starts no further watcher for the session from some time on, there is
  a time after which every poll for the session is answered by the redirect to the listing or by a page or
  fragment with its state, with one exception: when its entry has been deleted or swept, a poll is so answered
  if the cluster says at that moment that the session is Ready or Failed, and may get a bare 204 if not.
\<close>

theorem waits_are_answered:
  assumes "run (il_step s) \<sigma>" and "il_init s (\<sigma> 0)"
    and "weakly_fair (\<lambda>c c'. finishes ref (il_wizard_view c) (il_wizard_view c')) (\<lambda>c. ref \<in># wz_running (il_wizard_view c)) \<sigma>"
    and "\<And>m. i \<le> m \<Longrightarrow> count (wz_running (il_wizard_view (\<sigma> (Suc m)))) ref \<le> count (wz_running (il_wizard_view (\<sigma> m))) ref"
  shows "\<exists>j \<ge> i. \<forall>k \<ge> j. \<forall>x r path. final_answer ref path (handlePartialReady s x r ref path (fst (\<sigma> k))) \<or>
    watch_get ref (st_watches (fst (\<sigma> k))) = None \<and>
    \<not> (\<exists>view. fp_get (ox_frs x) ref = Inr view \<and> v_state view \<in> {''Ready'', ''Failed''})"
proof -
  let ?\<alpha> = "\<lambda>i. il_wizard_view (\<sigma> i)"
  have run: "run wizard_step ?\<alpha>" by (rule overlapping_wizard.run_view [OF assms(1)])
  have init: "?\<alpha> 0 = wizard_init" by (rule overlapping_wizard.init_view [OF assms(2)])
  have fair: "weakly_fair (finishes ref) (\<lambda>a. ref \<in># wz_running a) ?\<alpha>" using assms(3) by (simp add: weakly_fair_def)
  obtain j where j: "i \<le> j" "\<forall>k \<ge> j. settled ref (wz_watches (?\<alpha> k))"
    using wizard_settles [OF run init fair assms(4)] by blast
  have "final_answer ref path (handlePartialReady s x r ref path (fst (\<sigma> k)))"
    if "j \<le> k" "watch_get ref (st_watches (fst (\<sigma> k))) = Some ws" for k ws x r path
  proof (rule poll_final [OF that(2)])
    have "wizard_inv (?\<alpha> k)" by (rule reachable_inv, rule run_reach [OF run]) (rule init)
    then show "entry_ok ws" using that(2) unfolding wizard_inv_def il_wizard_view_def by simp
    show "ws_done ws" using j(2) that by (auto simp: settled_def il_wizard_view_def)
  qed
  then show ?thesis using j(1) poll_asks_cluster by (metis option.exhaust)
qed

text \<open>A run: a session is created in pieces, its watcher starts and ends, and nothing happens after that.\<close>

definition demo_form :: request where
  "demo_form = demo_request\<lparr>rq_method := ''POST'', rq_path := ''/wizard/create'',
     rq_post := [(''vmNs'', ''db''), (''vmName'', ''vm''), (''rpName'', ''rp''), (''pvcNames'', ''disk'')]\<rparr>"

definition entered_state :: server_state where
  "entered_state = fst (advance 1 (EnterNext demo_view) demo_state)"

definition spawned_state :: server_state where
  "spawned_state = fst (advance 1 (SpawnNext demo_ref) entered_state)"

definition ended_state :: server_state where
  "ended_state = watcher_ends demo_site 2 demo_ref (demo_view, None) spawned_state"

definition demo_wait :: "nat \<Rightarrow> server_state \<times> thread list" where
  "demo_wait n = [(demo_state, []), (demo_state, [EnterNext demo_view]), (entered_state, [SpawnNext demo_ref]),
     (spawned_state, []), (ended_state, [])] ! min n 4"

lemma demo_wait_states:
  "demo_wait 0 = (demo_state, [])" "demo_wait (Suc 0) = (demo_state, [EnterNext demo_view])"
  "demo_wait 2 = (entered_state, [SpawnNext demo_ref])" "demo_wait 3 = (spawned_state, [])"
  "4 \<le> n \<Longrightarrow> demo_wait n = (ended_state, [])"
  by (simp_all add: demo_wait_def)

lemma demo_wait_running: "st_running spawned_state = [demo_ref]" "st_running ended_state = []"
  by (simp_all add: spawned_state_def entered_state_def ended_state_def watcher_ends_def demo_state_def New_def)

lemma demo_wait_steps: "run (il_step demo_site) demo_wait"
proof (unfold run_def, intro allI)
  fix i :: nat
  have ref: "v_ref demo_view = demo_ref" by (simp add: demo_view_def)
  consider "i = 0" | "i = 1" | "i = 2" | "i = 3" | "4 \<le> i" by linarith
  then show "il_step demo_site (demo_wait i) (demo_wait (Suc i)) \<or> demo_wait (Suc i) = demo_wait i"
  proof cases
    case 1
    have "create_start demo_site demo_outside demo_form demo_state = (demo_state, [EnterNext demo_view])"
      by (simp add: create_start_def demo_form_def demo_request_def wizard_missing_def FormValue_def FormAll_def
          form_values_def first_value_def demo_site_def demo_provider_def)
    from il_step.create [OF this, of "[]"] 1 show ?thesis by (simp add: demo_wait_states)
  next
    case 2
    have "advance 1 (EnterNext demo_view) demo_state = (entered_state, [SpawnNext demo_ref])"
      by (simp add: entered_state_def ref)
    from il_step.piece [OF list.set_intros(1) this, of demo_site "[]"] 2 show ?thesis
      by (simp add: demo_wait_states numeral_2_eq_2 [symmetric])
  next
    case 3
    have "advance 1 (SpawnNext demo_ref) entered_state = (spawned_state, [])" by (simp add: spawned_state_def)
    from il_step.piece [OF list.set_intros(1) this, of demo_site "[]"] 3 show ?thesis
      by (simp add: demo_wait_states numeral_3_eq_3 [symmetric])
  next
    case 4
    have "il_step demo_site (spawned_state, []) (ended_state, [])"
      unfolding ended_state_def by (rule il_step.whole, rule server_step.watcher)
    then show ?thesis using 4 by (simp add: demo_wait_states)
  next
    case 5
    then show ?thesis by (simp add: demo_wait_states)
  qed
qed

theorem waits_are_answered_witness:
  "\<exists>\<sigma>. run (il_step demo_site) \<sigma> \<and> \<not> settled demo_ref (st_watches (fst (\<sigma> 3))) \<and>
     (\<exists>j. \<forall>k \<ge> j. \<forall>x r path. final_answer demo_ref path (handlePartialReady demo_site x r demo_ref path (fst (\<sigma> k))))"
proof -
  have "\<not> settled demo_ref (st_watches (fst (demo_wait 3)))"
    by (simp add: demo_wait_states spawned_state_def entered_state_def settled_def watch_get_set demo_view_def pending_state_def)
  moreover have init: "il_init demo_site (demo_wait 0)"
    unfolding demo_wait_states il_init_def server_init_def demo_site_def demo_state_def New_def by auto
  have ended: "4 \<le> j \<Longrightarrow> wz_running (il_wizard_view (demo_wait j)) = {#}" for j
    by (simp add: demo_wait_states il_wizard_view_def demo_wait_running)
  have fair: "weakly_fair (\<lambda>c c'. finishes demo_ref (il_wizard_view c) (il_wizard_view c'))
      (\<lambda>c. demo_ref \<in># wz_running (il_wizard_view c)) demo_wait"
    unfolding weakly_fair_def using ended by (metis empty_iff max.cobounded1 max.cobounded2 set_mset_empty)
  have count: "count (wz_running (il_wizard_view (demo_wait (Suc m)))) demo_ref \<le> count (wz_running (il_wizard_view (demo_wait m))) demo_ref"
    if "3 \<le> m" for m
    using that ended [of "Suc m"] by simp
  have there: "watch_get demo_ref (st_watches (fst (demo_wait k))) \<noteq> None" if "4 \<le> k" for k
    using that by (simp add: demo_wait_states ended_state_def watcher_ends_def demo_wait_running watchFRSCreated_def
        watchFRSCreatedWithTimeout_def watch_get_set)
  from waits_are_answered [OF demo_wait_steps init fair count] obtain j where
    j: "\<forall>k \<ge> j. \<forall>x r path. final_answer demo_ref path (handlePartialReady demo_site x r demo_ref path (fst (demo_wait k))) \<or>
      watch_get demo_ref (st_watches (fst (demo_wait k))) = None \<and>
      \<not> (\<exists>view. fp_get (ox_frs x) demo_ref = Inr view \<and> v_state view \<in> {''Ready'', ''Failed''})" by blast
  have "\<forall>k \<ge> max 4 j. \<forall>x r path. final_answer demo_ref path (handlePartialReady demo_site x r demo_ref path (fst (demo_wait k)))"
    using j there by (meson max.boundedE)
  ultimately show ?thesis using demo_wait_steps by blast
qed

end
