(* ===== verification/Metrics.thy ===== *)
theory Metrics
  imports Handlers
begin

text \<open>
  internal/metrics/metrics.go: the Prometheus collectors, their registration, and what the calls the
  other packages make on them export. Of client_golang the documented panics are modelled: a name
  registered twice, a number of label values other than the number of labels, and a label value that is no
  UTF-8. Values are natural numbers, as the floats they are kept in are exact below 2^53.
\<close>

section \<open>Collectors\<close>

datatype collector_kind = CounterVec | HistogramVec | Gauge

record collector =
  co_name :: string
  co_kind :: collector_kind
  co_labels :: "string list"

definition HTTPRequestsTotal :: collector where
  "HTTPRequestsTotal =
     \<lparr>co_name = ''kfrs_http_requests_total'', co_kind = CounterVec, co_labels = [''method'', ''path'', ''status'']\<rparr>"

definition HTTPRequestDuration :: collector where
  "HTTPRequestDuration =
     \<lparr>co_name = ''kfrs_http_request_duration_seconds'', co_kind = HistogramVec, co_labels = [''method'', ''path'']\<rparr>"

definition LoginAttemptsTotal :: collector where
  "LoginAttemptsTotal = \<lparr>co_name = ''kfrs_login_attempts_total'', co_kind = CounterVec, co_labels = [''result'']\<rparr>"

definition FRSListTotal_vec :: collector where
  "FRSListTotal_vec = \<lparr>co_name = ''kfrs_frs_list_total'', co_kind = CounterVec, co_labels = [''result'']\<rparr>"

definition FRSListSize_gauge :: collector where
  "FRSListSize_gauge = \<lparr>co_name = ''kfrs_frs_list_size'', co_kind = Gauge, co_labels = []\<rparr>"

definition SFTPConnectionsActive :: collector where
  "SFTPConnectionsActive = \<lparr>co_name = ''kfrs_sftp_connections_active'', co_kind = Gauge, co_labels = []\<rparr>"

definition SFTPConnectTotal :: collector where
  "SFTPConnectTotal = \<lparr>co_name = ''kfrs_sftp_connect_total'', co_kind = CounterVec, co_labels = [''result'']\<rparr>"

definition DownloadBytesTotal :: collector where
  "DownloadBytesTotal =
     \<lparr>co_name = ''kfrs_download_bytes_total'', co_kind = CounterVec, co_labels = [''frs_ns'', ''frs_name'']\<rparr>"

definition DownloadFilesTotal :: collector where
  "DownloadFilesTotal =
     \<lparr>co_name = ''kfrs_download_files_total'', co_kind = CounterVec, co_labels = [''frs_ns'', ''frs_name'']\<rparr>"

definition K8sAPIErrorsTotal :: collector where
  "K8sAPIErrorsTotal = \<lparr>co_name = ''kfrs_k8s_api_errors_total'', co_kind = CounterVec, co_labels = [''op'', ''code'']\<rparr>"

section \<open>The registry\<close>

text \<open>\<open>MustRegister\<close>; \<open>None\<close> is its panic.\<close>

fun MustRegister :: "collector list \<Rightarrow> collector list \<Rightarrow> collector list option" where
  "MustRegister [] reg = Some reg"
| "MustRegister (c # cs) reg =
     (if co_name c \<in> co_name ` set reg then None else MustRegister cs (reg @ [c]))"

definition NewRegistry :: "collector list option" where
  "NewRegistry = MustRegister
     [HTTPRequestsTotal, HTTPRequestDuration, LoginAttemptsTotal,
      FRSListTotal_vec, FRSListSize_gauge, SFTPConnectionsActive,
      SFTPConnectTotal, DownloadBytesTotal, DownloadFilesTotal, K8sAPIErrorsTotal] []"

section \<open>Recording\<close>

text \<open>The values, by collector and label values; \<open>Add\<close> is for counters, \<open>SetTo\<close> for gauges.\<close>

type_synonym samples = "(collector \<times> string list, nat) gomap"

datatype metric_op = Add nat | SetTo nat

definition value_of :: "samples \<Rightarrow> collector \<Rightarrow> string list \<Rightarrow> nat" where
  "value_of m c vals = (case map_of m (c, vals) of None \<Rightarrow> 0 | Some v \<Rightarrow> v)"

definition record_sample :: "collector \<times> string list \<times> metric_op \<Rightarrow> samples \<Rightarrow> samples option" where
  "record_sample call m =
     (case call of (c, vals, op) \<Rightarrow>
        if length vals \<noteq> length (co_labels c) \<or> (\<exists>l \<in> set vals. \<not> valid_utf8 l) then None
        else Some (AList.update (c, vals)
               (case op of Add n \<Rightarrow> value_of m c vals + n | SetTo n \<Rightarrow> n) m))"

text \<open>The calls behind the events the handlers and the Kubernetes client leave.\<close>

fun metric_call :: "metric \<Rightarrow> collector \<times> string list \<times> metric_op" where
  "metric_call (LoginAttempts result) = (LoginAttemptsTotal, [result], Add 1)"
| "metric_call (FRSListTotal result) = (FRSListTotal_vec, [result], Add 1)"
| "metric_call (FRSListSize n) = (FRSListSize_gauge, [], SetTo n)"
| "metric_call (SFTPConnect result) = (SFTPConnectTotal, [result], Add 1)"
| "metric_call (DownloadFiles ns name) = (DownloadFilesTotal, [ns, name], Add 1)"
| "metric_call (DownloadBytes ns name n) = (DownloadBytesTotal, [ns, name], Add n)"

definition k8s_error_call :: "string \<times> string \<Rightarrow> collector \<times> string list \<times> metric_op" where
  "k8s_error_call e = (case e of (op, code) \<Rightarrow> (K8sAPIErrorsTotal, [op, code], Add 1))"

text \<open>The gauge that a connect and a deletion set to the length of the pool.\<close>

definition active_call :: "nat \<Rightarrow> collector \<times> string list \<times> metric_op" where
  "active_call n = (SFTPConnectionsActive, [], SetTo n)"

fun record_all :: "(collector \<times> string list \<times> metric_op) list \<Rightarrow> samples \<Rightarrow> samples option" where
  "record_all [] m = Some m"
| "record_all (c # cs) m = (case record_sample c m of None \<Rightarrow> None | Some m' \<Rightarrow> record_all cs m')"

text \<open>
  What a scrape of the endpoint lists: of every registered collector with labels the samples there are, and
  every gauge, which has a value from the start.
\<close>

definition collect :: "samples \<Rightarrow> collector \<Rightarrow> (string \<times> string list \<times> nat) list" where
  "collect m c =
     (if co_kind c = Gauge then [(co_name c, [], value_of m c [])]
      else map (\<lambda>((c', vals), v). (co_name c, vals, v)) (filter (\<lambda>((c', vals), v). c' = c) m))"

definition scrape :: "collector list \<Rightarrow> samples \<Rightarrow> (string \<times> string list \<times> nat) list" where
  "scrape reg m = concat (map (collect m) reg)"

section \<open>Lemmas\<close>

lemmas collector_defs = HTTPRequestsTotal_def HTTPRequestDuration_def LoginAttemptsTotal_def FRSListTotal_vec_def
  FRSListSize_gauge_def SFTPConnectionsActive_def SFTPConnectTotal_def DownloadBytesTotal_def DownloadFilesTotal_def
  K8sAPIErrorsTotal_def

lemma NewRegistry_Some:
  "NewRegistry = Some [HTTPRequestsTotal, HTTPRequestDuration, LoginAttemptsTotal, FRSListTotal_vec, FRSListSize_gauge,
     SFTPConnectionsActive, SFTPConnectTotal, DownloadBytesTotal, DownloadFilesTotal, K8sAPIErrorsTotal]"
  by (simp add: NewRegistry_def collector_defs)

text \<open>A call that does not panic.\<close>

definition labelled :: "collector \<times> string list \<times> metric_op \<Rightarrow> bool" where
  "labelled call = (case call of (c, vals, op) \<Rightarrow> length vals = length (co_labels c) \<and> (\<forall>l \<in> set vals. valid_utf8 l))"

definition valid_labels :: "collector \<times> string list \<times> metric_op \<Rightarrow> bool" where
  "valid_labels call \<longleftrightarrow> (\<forall>l \<in> set (fst (snd call)). valid_utf8 l)"

lemma calls_labelled:
  "labelled (metric_call m) \<longleftrightarrow> valid_labels (metric_call m)" "labelled (k8s_error_call e) \<longleftrightarrow> valid_labels (k8s_error_call e)"
  "labelled (active_call n)"
  by (cases m) (simp_all add: labelled_def valid_labels_def k8s_error_call_def active_call_def collector_defs split: prod.splits)

text \<open>A sample as one call leaves it: the value so far, if any, and the value then.\<close>

definition call_key :: "collector \<times> string list \<times> metric_op \<Rightarrow> collector \<times> string list" where
  "call_key call = (fst call, fst (snd call))"

definition sample_effect :: "collector \<times> string list \<Rightarrow> collector \<times> string list \<times> metric_op \<Rightarrow> nat option \<Rightarrow> nat option" where
  "sample_effect k call v =
     (if call_key call = k
      then Some (case snd (snd call) of Add n \<Rightarrow> (case v of None \<Rightarrow> 0 | Some i \<Rightarrow> i) + n | SetTo n \<Rightarrow> n) else v)"

lemma record_sample_value:
  assumes "record_sample call m = Some m'"
  shows "map_of m' k = sample_effect k call (map_of m k)" and "distinct (keys m) \<Longrightarrow> distinct (keys m')"
  using assms by (cases call; auto simp: record_sample_def sample_effect_def call_key_def value_of_def find_simps distinct_update
      split: metric_op.splits if_splits)+

lemma record_sample_some: "labelled call \<longleftrightarrow> record_sample call m \<noteq> None"
  by (auto simp: record_sample_def labelled_def split: prod.splits)

text \<open>A run of calls panics exactly where a label value is no UTF-8 or their number is wrong.\<close>

lemma record_all_panics: "record_all calls m = None \<longleftrightarrow> (\<exists>call \<in> set calls. \<not> labelled call)"
proof (induction calls arbitrary: m)
  case (Cons call calls)
  then show ?case using record_sample_some [of call m] by (auto split: option.splits)
qed simp

lemma record_all_value:
  "record_all calls m = Some m' \<Longrightarrow> distinct (keys m) \<Longrightarrow>
     distinct (keys m') \<and> (\<forall>k. map_of m' k = fold (sample_effect k) calls (map_of m k))"
proof (induction calls arbitrary: m)
  case (Cons call calls)
  then obtain m1 where m1: "record_sample call m = Some m1" "record_all calls m1 = Some m'" by (auto split: option.splits)
  show ?case
    using Cons.IH [OF m1(2) record_sample_value(2) [OF m1(1) Cons.prems(2)]] by (simp add: record_sample_value(1) [OF m1(1)])
qed simp

definition call_keys :: "(collector \<times> string list \<times> metric_op) list \<Rightarrow> (collector \<times> string list) set" where
  "call_keys calls = call_key ` set calls"

definition added :: "collector \<times> string list \<Rightarrow> collector \<times> string list \<times> metric_op \<Rightarrow> nat" where
  "added k call = (if call_key call = k then (case snd (snd call) of Add n \<Rightarrow> n | SetTo n \<Rightarrow> 0) else 0)"

definition counts_only :: "collector \<Rightarrow> (collector \<times> string list \<times> metric_op) list \<Rightarrow> bool" where
  "counts_only c calls \<longleftrightarrow> (\<forall>call \<in> set calls. fst call = c \<longrightarrow> (\<exists>n. snd (snd call) = Add n))"

text \<open>A counter is the sum of what is added to it, a sample that no call names does not exist.\<close>

lemma no_key_zero: "k \<notin> call_keys calls \<Longrightarrow> (\<Sum>call\<leftarrow>calls. added k call) = 0"
  by (induction calls) (auto simp: call_keys_def added_def)

lemma counter_value:
  assumes "counts_only c calls"
  shows "fold (sample_effect (c, vals)) calls v =
     (if (c, vals) \<in> call_keys calls
      then Some ((case v of None \<Rightarrow> 0 | Some i \<Rightarrow> i) + (\<Sum>call\<leftarrow>calls. added (c, vals) call)) else v)"
  using assms
proof (induction calls arbitrary: v)
  case (Cons call calls)
  have rest: "counts_only c calls" using Cons.prems by (simp add: counts_only_def)
  show ?case
  proof (cases "call_key call = (c, vals)")
    case True
    then obtain n where n: "snd (snd call) = Add n" using Cons.prems by (auto simp: counts_only_def call_key_def)
    have key: "(c, vals) \<in> call_keys (call # calls)" using True by (simp add: call_keys_def)
    have "fold (sample_effect (c, vals)) (call # calls) v =
        fold (sample_effect (c, vals)) calls (Some ((case v of None \<Rightarrow> 0 | Some i \<Rightarrow> i) + n))"
      using True n by (simp add: sample_effect_def)
    moreover have "added (c, vals) call = n" using True n by (simp add: added_def)
    ultimately show ?thesis using Cons.IH [OF rest] key no_key_zero [of "(c, vals)" calls] by simp
  next
    case False
    then have "call_keys (call # calls) = insert (call_key call) (call_keys calls)" by (simp add: call_keys_def)
    moreover have "sample_effect (c, vals) call v = v" "added (c, vals) call = 0"
      using False by (simp_all add: sample_effect_def added_def)
    ultimately show ?thesis using False Cons.IH [OF rest] by auto
  qed
qed (simp add: call_keys_def)

lemma untouched_value: "k \<notin> call_keys calls \<Longrightarrow> fold (sample_effect k) calls v = v"
  by (induction calls arbitrary: v) (auto simp: call_keys_def sample_effect_def)

text \<open>The calls of a run, and what they are for each collector.\<close>

definition run_calls :: "metric list \<Rightarrow> (string \<times> string) list \<Rightarrow> nat list \<Rightarrow> (collector \<times> string list \<times> metric_op) list" where
  "run_calls ms errs sizes = map metric_call ms @ map k8s_error_call errs @ map active_call sizes"

lemma run_counts_only:
  assumes "co_kind c \<noteq> Gauge"
  shows "counts_only c (run_calls ms errs sizes)"
proof -
  have "fst (metric_call m) = c \<Longrightarrow> \<exists>n. snd (snd (metric_call m)) = Add n" for m
    using assms by (cases m) (auto simp: collector_defs)
  then show ?thesis
    using assms by (auto simp: counts_only_def run_calls_def k8s_error_call_def active_call_def collector_defs)
qed

lemma key_metric:
  "call_key (metric_call m) = (LoginAttemptsTotal, vals) \<longleftrightarrow> (\<exists>l. vals = [l] \<and> m = LoginAttempts l)"
  "call_key (metric_call m) = (FRSListTotal_vec, vals) \<longleftrightarrow> (\<exists>l. vals = [l] \<and> m = FRSListTotal l)"
  "call_key (metric_call m) = (SFTPConnectTotal, vals) \<longleftrightarrow> (\<exists>l. vals = [l] \<and> m = SFTPConnect l)"
  "call_key (metric_call m) = (DownloadFilesTotal, vals) \<longleftrightarrow> (\<exists>ns name. vals = [ns, name] \<and> m = DownloadFiles ns name)"
  "call_key (metric_call m) = (DownloadBytesTotal, vals) \<longleftrightarrow> (\<exists>ns name n. vals = [ns, name] \<and> m = DownloadBytes ns name n)"
  "call_key (metric_call m) = (FRSListSize_gauge, vals) \<longleftrightarrow> (\<exists>n. vals = [] \<and> m = FRSListSize n)"
  "call_key (metric_call m) \<noteq> (K8sAPIErrorsTotal, vals)" "call_key (metric_call m) \<noteq> (SFTPConnectionsActive, vals)"
  "call_key (metric_call m) \<noteq> (HTTPRequestsTotal, vals)" "call_key (metric_call m) \<noteq> (HTTPRequestDuration, vals)"
  by (cases m; auto simp: call_key_def collector_defs)+

lemma key_other:
  "call_key (k8s_error_call e) = (K8sAPIErrorsTotal, [fst e, snd e])" "call_key (active_call n) = (SFTPConnectionsActive, [])"
  by (auto simp: k8s_error_call_def active_call_def call_key_def split: prod.splits)

lemma collectors_differ:
  "distinct [HTTPRequestsTotal, HTTPRequestDuration, LoginAttemptsTotal, FRSListTotal_vec, FRSListSize_gauge,
     SFTPConnectionsActive, SFTPConnectTotal, DownloadBytesTotal, DownloadFilesTotal, K8sAPIErrorsTotal]"
  by (simp add: collector_defs)

lemma run_keys:
  "k \<in> call_keys (run_calls ms errs sizes) \<longleftrightarrow>
     (\<exists>m \<in> set ms. call_key (metric_call m) = k) \<or> (\<exists>e \<in> set errs. k = (K8sAPIErrorsTotal, [fst e, snd e])) \<or>
     sizes \<noteq> [] \<and> k = (SFTPConnectionsActive, [])"
  by (cases sizes) (auto simp: call_keys_def run_calls_def key_other image_Un image_image image_iff)

lemma run_added:
  "(\<Sum>call\<leftarrow>run_calls ms errs sizes. added (c, vals) call) =
     (\<Sum>m\<leftarrow>ms. added (c, vals) (metric_call m)) + (if c = K8sAPIErrorsTotal then \<Sum>e\<leftarrow>errs. if vals = [fst e, snd e] then 1 else 0 else 0)"
proof -
  have "added (c, vals) (active_call n) = 0" for n by (simp add: added_def active_call_def)
  moreover have "added (c, vals) (k8s_error_call e) = (if c = K8sAPIErrorsTotal \<and> vals = [fst e, snd e] then 1 else 0)" for e
    by (auto simp: added_def key_other) (simp add: k8s_error_call_def split: prod.splits)
  ultimately show ?thesis by (simp add: run_calls_def comp_def)
qed

text \<open>The lines of one collector after a run.\<close>

definition after_run :: "metric list \<Rightarrow> (string \<times> string) list \<Rightarrow> nat list \<Rightarrow> samples \<Rightarrow> bool" where
  "after_run ms errs sizes store \<longleftrightarrow>
     distinct (keys store) \<and> (\<forall>k. map_of store k = fold (sample_effect k) (run_calls ms errs sizes) None)"

lemma collect_lines:
  assumes "co_kind c \<noteq> Gauge" "distinct (keys m)"
  shows "(n, vals, v) \<in> set (collect m c) \<longleftrightarrow> n = co_name c \<and> map_of m (c, vals) = Some v"
  using assms by (force simp: collect_def)

lemma vec_lines:
  assumes "after_run ms errs sizes store" "co_kind c \<noteq> Gauge"
  shows "(n, vals, v) \<in> set (collect store c) \<longleftrightarrow>
    n = co_name c \<and> (c, vals) \<in> call_keys (run_calls ms errs sizes) \<and>
    v = (\<Sum>m\<leftarrow>ms. added (c, vals) (metric_call m)) + (if c = K8sAPIErrorsTotal then \<Sum>e\<leftarrow>errs. if vals = [fst e, snd e] then 1 else 0 else 0)"
proof -
  have "distinct (keys store)" "map_of store (c, vals) = fold (sample_effect (c, vals)) (run_calls ms errs sizes) None"
    using assms(1) by (simp_all add: after_run_def)
  then show ?thesis
    using assms(2) counter_value [OF run_counts_only [OF assms(2), of ms errs sizes], of vals None]
    by (auto simp: collect_lines run_added)
qed

lemma added_event:
  "added (LoginAttemptsTotal, [l]) (metric_call m) = (if m = LoginAttempts l then 1 else 0)"
  "added (FRSListTotal_vec, [l]) (metric_call m) = (if m = FRSListTotal l then 1 else 0)"
  "added (SFTPConnectTotal, [l]) (metric_call m) = (if m = SFTPConnect l then 1 else 0)"
  "added (DownloadFilesTotal, [ns, name]) (metric_call m) = (if m = DownloadFiles ns name then 1 else 0)"
  "added (DownloadBytesTotal, [ns, name]) (metric_call m) =
     (case m of DownloadBytes ns' name' n \<Rightarrow> if ns' = ns \<and> name' = name then n else 0 | _ \<Rightarrow> 0)"
  "added (K8sAPIErrorsTotal, vals) (metric_call m) = 0"
  by (cases m; auto simp: added_def call_key_def collector_defs)+

lemma added_counts:
  "(\<Sum>m\<leftarrow>ms. added (LoginAttemptsTotal, [l]) (metric_call m)) = count_list ms (LoginAttempts l)"
  "(\<Sum>m\<leftarrow>ms. added (FRSListTotal_vec, [l]) (metric_call m)) = count_list ms (FRSListTotal l)"
  "(\<Sum>m\<leftarrow>ms. added (SFTPConnectTotal, [l]) (metric_call m)) = count_list ms (SFTPConnect l)"
  "(\<Sum>m\<leftarrow>ms. added (DownloadFilesTotal, [ns, name]) (metric_call m)) = count_list ms (DownloadFiles ns name)"
  "(\<Sum>m\<leftarrow>ms. added (DownloadBytesTotal, [ns, name]) (metric_call m)) =
     sum_list [n. DownloadBytes ns' name' n \<leftarrow> ms, ns' = ns \<and> name' = name]"
  "(\<Sum>m\<leftarrow>ms. added (K8sAPIErrorsTotal, vals) (metric_call m)) = 0"
  by (induction ms) (auto simp: added_event split: metric.splits)

lemma error_counts: "(\<Sum>e\<leftarrow>errs. if op = fst e \<and> code = snd e then 1 else 0) = count_list errs (op, code)"
  by (induction errs) auto

text \<open>The two gauges show what they were set to last.\<close>

lemma gauge_values:
  assumes "after_run ms errs sizes store"
  shows "value_of store FRSListSize_gauge [] = last (0 # [n. FRSListSize n \<leftarrow> ms])"
    and "value_of store SFTPConnectionsActive [] = last (0 # sizes)"
proof -
  have split: "fold (sample_effect k) (run_calls ms errs sizes) v =
      fold (sample_effect k) (map active_call sizes) (fold (sample_effect k) (map k8s_error_call errs)
        (fold (sample_effect k) (map metric_call ms) v))" for k v
    by (simp add: run_calls_def)
  have list: "fold (sample_effect (FRSListSize_gauge, [])) (map metric_call ms) None =
      (if [n. FRSListSize n \<leftarrow> ms] = [] then None else Some (last [n. FRSListSize n \<leftarrow> ms]))"
  proof (induction ms rule: rev_induct)
    case (snoc m ms)
    then show ?case
      by (cases m) (auto simp: sample_effect_def call_key_def collector_defs)
  qed simp
  have active: "fold (sample_effect (SFTPConnectionsActive, [])) (map active_call sizes) None =
      (if sizes = [] then None else Some (last sizes))"
  proof (induction sizes rule: rev_induct)
    case (snoc n sizes)
    have "sample_effect (SFTPConnectionsActive, []) (active_call n) v = Some n" for v
      by (simp add: sample_effect_def call_key_def active_call_def)
    then show ?case by simp
  qed simp
  have g: "FRSListSize_gauge \<noteq> K8sAPIErrorsTotal" "FRSListSize_gauge \<noteq> SFTPConnectionsActive"
    "SFTPConnectionsActive \<noteq> K8sAPIErrorsTotal" by (simp_all add: collector_defs)
  have other: "(FRSListSize_gauge, []) \<notin> call_keys (map active_call sizes)"
    "(FRSListSize_gauge, []) \<notin> call_keys (map k8s_error_call errs)"
    "(SFTPConnectionsActive, []) \<notin> call_keys (map metric_call ms)"
    "(SFTPConnectionsActive, []) \<notin> call_keys (map k8s_error_call errs)"
    using g by (auto simp: call_keys_def key_other image_iff dest: sym [THEN key_metric(8) [THEN notE]])
  show "value_of store FRSListSize_gauge [] = last (0 # [n. FRSListSize n \<leftarrow> ms])"
    using assms by (simp add: after_run_def value_of_def split untouched_value other list)
  show "value_of store SFTPConnectionsActive [] = last (0 # sizes)"
    using assms by (simp add: after_run_def value_of_def split untouched_value other active)
qed

text \<open>No line is listed twice.\<close>

lemma collect_distinct: "distinct (keys m) \<Longrightarrow> distinct (map (\<lambda>(n, vals, v). (n, vals)) (collect m c))"
proof -
  assume d: "distinct (keys m)"
  have "distinct (map (\<lambda>((c', vals), v). (co_name c, vals)) (filter (\<lambda>((c', vals), v). c' = c) m))"
    using d by (induction m) (auto simp: image_iff)
  then show ?thesis by (simp add: collect_def comp_def case_prod_unfold)
qed

lemma scrape_distinct:
  "distinct (map co_name reg) \<Longrightarrow> distinct (keys m) \<Longrightarrow> distinct (map (\<lambda>(n, vals, v). (n, vals)) (scrape reg m))"
proof (induction reg)
  case (Cons c reg)
  have name: "n = co_name c'" if "(n, t) \<in> set (collect m c')" for n t c' using that by (auto simp: collect_def split: if_splits)
  have other: "n \<in> co_name ` set reg" if "(n, t) \<in> set (scrape reg m)" for n t using that name by (fastforce simp: scrape_def)
  have "n \<noteq> n'" if "(n, t) \<in> set (collect m c)" "(n', t') \<in> set (scrape reg m)" for n t n' t'
    using name [OF that(1)] other [OF that(2)] Cons.prems(1) by auto
  then have "(\<lambda>(n, vals, v). (n, vals)) ` set (collect m c) \<inter> (\<lambda>(n, vals, v). (n, vals)) ` set (scrape reg m) = {}" by fastforce
  then show ?case using Cons collect_distinct [OF Cons.prems(2), of c] by (simp add: scrape_def)
qed (simp add: scrape_def)

lemma gauge_lines: "co_kind c = Gauge \<Longrightarrow> set (collect m c) = {(co_name c, [], value_of m c [])}"
  by (simp add: collect_def)

lemma vec_set:
  assumes "after_run ms errs sizes store" "co_kind c \<noteq> Gauge"
  shows "set (collect store c) = {(co_name c, vals, (\<Sum>m\<leftarrow>ms. added (c, vals) (metric_call m)) +
      (if c = K8sAPIErrorsTotal then \<Sum>e\<leftarrow>errs. if vals = [fst e, snd e] then 1 else 0 else 0)) | vals.
      (c, vals) \<in> call_keys (run_calls ms errs sizes)}"
  using vec_lines [OF assms] by fastforce

text \<open>The lines of each collector with labels.\<close>

lemma kinds: "co_kind HTTPRequestsTotal \<noteq> Gauge" "co_kind HTTPRequestDuration \<noteq> Gauge" "co_kind LoginAttemptsTotal \<noteq> Gauge"
  "co_kind FRSListTotal_vec \<noteq> Gauge" "co_kind FRSListSize_gauge = Gauge" "co_kind SFTPConnectionsActive = Gauge"
  "co_kind SFTPConnectTotal \<noteq> Gauge" "co_kind DownloadBytesTotal \<noteq> Gauge" "co_kind DownloadFilesTotal \<noteq> Gauge"
  "co_kind K8sAPIErrorsTotal \<noteq> Gauge"
  by (simp_all add: collector_defs)

lemma names: "co_name LoginAttemptsTotal = ''kfrs_login_attempts_total''" "co_name FRSListTotal_vec = ''kfrs_frs_list_total''"
  "co_name SFTPConnectTotal = ''kfrs_sftp_connect_total''" "co_name DownloadBytesTotal = ''kfrs_download_bytes_total''"
  "co_name DownloadFilesTotal = ''kfrs_download_files_total''" "co_name K8sAPIErrorsTotal = ''kfrs_k8s_api_errors_total''"
  "co_name FRSListSize_gauge = ''kfrs_frs_list_size''" "co_name SFTPConnectionsActive = ''kfrs_sftp_connections_active''"
  by (simp_all add: collector_defs)

lemma distinct_collectors:
  "LoginAttemptsTotal \<noteq> K8sAPIErrorsTotal" "FRSListTotal_vec \<noteq> K8sAPIErrorsTotal" "SFTPConnectTotal \<noteq> K8sAPIErrorsTotal"
  "DownloadFilesTotal \<noteq> K8sAPIErrorsTotal" "DownloadBytesTotal \<noteq> K8sAPIErrorsTotal" "HTTPRequestsTotal \<noteq> K8sAPIErrorsTotal"
  "HTTPRequestDuration \<noteq> K8sAPIErrorsTotal" "LoginAttemptsTotal \<noteq> SFTPConnectionsActive" "FRSListTotal_vec \<noteq> SFTPConnectionsActive"
  "SFTPConnectTotal \<noteq> SFTPConnectionsActive" "DownloadFilesTotal \<noteq> SFTPConnectionsActive"
  "DownloadBytesTotal \<noteq> SFTPConnectionsActive" "HTTPRequestsTotal \<noteq> SFTPConnectionsActive"
  "HTTPRequestDuration \<noteq> SFTPConnectionsActive" "K8sAPIErrorsTotal \<noteq> SFTPConnectionsActive"
  by (simp_all add: collector_defs)

lemma exported_lines:
  assumes "after_run ms errs sizes store"
  shows "set (collect store HTTPRequestsTotal) = {}" "set (collect store HTTPRequestDuration) = {}"
    "set (collect store LoginAttemptsTotal) =
       {(''kfrs_login_attempts_total'', [l], count_list ms (LoginAttempts l)) | l. LoginAttempts l \<in> set ms}"
    "set (collect store FRSListTotal_vec) =
       {(''kfrs_frs_list_total'', [l], count_list ms (FRSListTotal l)) | l. FRSListTotal l \<in> set ms}"
    "set (collect store SFTPConnectTotal) =
       {(''kfrs_sftp_connect_total'', [l], count_list ms (SFTPConnect l)) | l. SFTPConnect l \<in> set ms}"
    "set (collect store DownloadFilesTotal) =
       {(''kfrs_download_files_total'', [ns, name], count_list ms (DownloadFiles ns name)) | ns name. DownloadFiles ns name \<in> set ms}"
    "set (collect store DownloadBytesTotal) =
       {(''kfrs_download_bytes_total'', [ns, name], sum_list [n. DownloadBytes ns' name' n \<leftarrow> ms, ns' = ns \<and> name' = name]) | ns name.
        \<exists>n. DownloadBytes ns name n \<in> set ms}"
    "set (collect store K8sAPIErrorsTotal) =
       {(''kfrs_k8s_api_errors_total'', [op, code], count_list errs (op, code)) | op code. (op, code) \<in> set errs}"
  by (auto simp: vec_set [OF assms kinds(1)] vec_set [OF assms kinds(2)] vec_set [OF assms kinds(3)] vec_set [OF assms kinds(4)]
      vec_set [OF assms kinds(7)] vec_set [OF assms kinds(8)] vec_set [OF assms kinds(9)] vec_set [OF assms kinds(10)]
      run_keys key_metric names distinct_collectors added_counts error_counts) force+

text \<open>
  C33: the registration of the collectors does not panic, and neither does any call on them as long as the label
  values are UTF-8 (names that Kubernetes accepts are). A scrape then lists exactly what has been
  recorded, each sample once: every counter with the number of its events since the start, for the bytes
  downloaded from a session the sum over its downloads, for the errors of the Kubernetes API the number
  with that operation and code, and the two gauges with the values they were set to last, or 0.
  Nothing else is listed, in particular no sample of the two HTTP collectors, which nothing records.
  The three sources of calls use different collectors; they are put one after the other.
\<close>

theorem metrics_exported:
  assumes "\<forall>call \<in> set (map metric_call ms @ map k8s_error_call errs). \<forall>l \<in> set (fst (snd call)). valid_utf8 l"
  shows "\<exists>reg store. NewRegistry = Some reg \<and>
     record_all (map metric_call ms @ map k8s_error_call errs @ map active_call sizes) [] = Some store \<and>
     distinct (map (\<lambda>(n, vals, v). (n, vals)) (scrape reg store)) \<and>
     set (scrape reg store) =
       {(''kfrs_login_attempts_total'', [l], count_list ms (LoginAttempts l)) | l. LoginAttempts l \<in> set ms} \<union>
       {(''kfrs_frs_list_total'', [l], count_list ms (FRSListTotal l)) | l. FRSListTotal l \<in> set ms} \<union>
       {(''kfrs_sftp_connect_total'', [l], count_list ms (SFTPConnect l)) | l. SFTPConnect l \<in> set ms} \<union>
       {(''kfrs_download_files_total'', [ns, name], count_list ms (DownloadFiles ns name)) | ns name. DownloadFiles ns name \<in> set ms} \<union>
       {(''kfrs_download_bytes_total'', [ns, name], sum_list [n. DownloadBytes ns' name' n \<leftarrow> ms, ns' = ns \<and> name' = name]) | ns name.
        \<exists>n. DownloadBytes ns name n \<in> set ms} \<union>
       {(''kfrs_k8s_api_errors_total'', [op, code], count_list errs (op, code)) | op code. (op, code) \<in> set errs} \<union>
       {(''kfrs_frs_list_size'', [], last (0 # [n. FRSListSize n \<leftarrow> ms])), (''kfrs_sftp_connections_active'', [], last (0 # sizes))}"
proof -
  have "\<forall>call \<in> set (run_calls ms errs sizes). labelled call"
    using assms by (auto simp: run_calls_def calls_labelled valid_labels_def)
  then obtain store where store: "record_all (run_calls ms errs sizes) [] = Some store"
    using record_all_panics [of "run_calls ms errs sizes" "[]"] by fastforce
  have run: "after_run ms errs sizes store" using record_all_value [OF store] by (simp add: after_run_def)
  then have keys: "distinct (keys store)" by (simp add: after_run_def)
  obtain reg where reg: "NewRegistry = Some reg" by (simp add: NewRegistry_Some)
  have "distinct (map co_name (the NewRegistry))" by code_simp
  then have once: "distinct (map (\<lambda>(n, vals, v). (n, vals)) (scrape reg store))" using scrape_distinct [OF _ keys, of reg] unfolding reg option.sel by blast
  note lines = exported_lines [OF run] gauge_lines [OF kinds(5)] gauge_lines [OF kinds(6)] gauge_values [OF run]
  have "set (scrape reg store) = \<Union>(set (map (set \<circ> collect store) reg))" by (simp add: scrape_def)
  also have "\<dots> = set (collect store LoginAttemptsTotal) \<union> set (collect store FRSListTotal_vec) \<union>
      set (collect store SFTPConnectTotal) \<union> set (collect store DownloadFilesTotal) \<union> set (collect store DownloadBytesTotal) \<union>
      set (collect store K8sAPIErrorsTotal) \<union> (set (collect store FRSListSize_gauge) \<union> set (collect store SFTPConnectionsActive))"
    using reg exported_lines(1,2) [OF run] by (auto simp: NewRegistry_Some)
  finally have all: "set (scrape reg store) = \<dots>" .
  show ?thesis
    by (intro exI conjI, rule reg, rule store [unfolded run_calls_def], rule once)
      (use all in \<open>simp only: lines names Un_insert_left Un_empty_left\<close>)
qed

theorem metrics_exported_witness:
  "\<exists>reg store. NewRegistry = Some reg \<and>
     record_all (map metric_call [LoginAttempts ''failure'', LoginAttempts ''success'', LoginAttempts ''failure'',
         DownloadBytes ''db'' ''frs-1'' 5, FRSListSize 3, DownloadBytes ''db'' ''frs-1'' 7] @
       map k8s_error_call [(''list'', ''403'')] @ map active_call [1, 2]) [] = Some store \<and>
     (''kfrs_login_attempts_total'', [''failure''], 2) \<in> set (scrape reg store) \<and>
     (''kfrs_download_bytes_total'', [''db'', ''frs-1''], 12) \<in> set (scrape reg store) \<and>
     (''kfrs_frs_list_size'', [], 3) \<in> set (scrape reg store) \<and> (''kfrs_sftp_connections_active'', [], 2) \<in> set (scrape reg store)"
proof -
  let ?ms = "[LoginAttempts ''failure'', LoginAttempts ''success'', LoginAttempts ''failure'',
      DownloadBytes ''db'' ''frs-1'' 5, FRSListSize 3, DownloadBytes ''db'' ''frs-1'' 7]"
  have utf8: "\<forall>call \<in> set (map metric_call ?ms @ map k8s_error_call [(''list'', ''403'')]). \<forall>l \<in> set (fst (snd call)). valid_utf8 l"
    by code_simp
  obtain reg store where run: "NewRegistry = Some reg"
      "record_all (map metric_call ?ms @ map k8s_error_call [(''list'', ''403'')] @ map active_call [1, 2]) [] = Some store"
    and lines: "set (scrape reg store) =
       {(''kfrs_login_attempts_total'', [l], count_list ?ms (LoginAttempts l)) | l. LoginAttempts l \<in> set ?ms} \<union>
       {(''kfrs_frs_list_total'', [l], count_list ?ms (FRSListTotal l)) | l. FRSListTotal l \<in> set ?ms} \<union>
       {(''kfrs_sftp_connect_total'', [l], count_list ?ms (SFTPConnect l)) | l. SFTPConnect l \<in> set ?ms} \<union>
       {(''kfrs_download_files_total'', [ns, name], count_list ?ms (DownloadFiles ns name)) | ns name. DownloadFiles ns name \<in> set ?ms} \<union>
       {(''kfrs_download_bytes_total'', [ns, name], sum_list [n. DownloadBytes ns' name' n \<leftarrow> ?ms, ns' = ns \<and> name' = name]) | ns name.
        \<exists>n. DownloadBytes ns name n \<in> set ?ms} \<union>
       {(''kfrs_k8s_api_errors_total'', [op, code], count_list [(''list'', ''403'')] (op, code)) | op code. (op, code) \<in> set [(''list'', ''403'')]} \<union>
       {(''kfrs_frs_list_size'', [], last (0 # [n. FRSListSize n \<leftarrow> ?ms])), (''kfrs_sftp_connections_active'', [], last (0 # [1, 2]))}"
    using metrics_exported [OF utf8, of "[1, 2]"] by blast
  have "(''kfrs_login_attempts_total'', [''failure''], 2) \<in> set (scrape reg store)"
    "(''kfrs_download_bytes_total'', [''db'', ''frs-1''], 12) \<in> set (scrape reg store)"
    "(''kfrs_frs_list_size'', [], 3) \<in> set (scrape reg store)" "(''kfrs_sftp_connections_active'', [], 2) \<in> set (scrape reg store)"
    unfolding lines by auto
  then show ?thesis using run by blast
qed

end
