(* ===== verification/TestServer.thy ===== *)
theory TestServer
  imports SftpClient
begin

text \<open>
  internal/sftpclient/testserver.go: the in-process SFTP server that the tests run the client against: its
  start, the loop over the channels of an SSH connection and the file system it serves. The calls of the
  operating system, of the network and of the ssh and sftp packages are parameters.
\<close>

section \<open>The file system\<close>

record test_fs =
  fs_root :: string
  fs_brokenOpenDir :: "string list"

text \<open>\<open>filepath.Clean\<close> and \<open>filepath.Join\<close> on a Unix system are those of package path.\<close>

definition fs_real :: "test_fs \<Rightarrow> string \<Rightarrow> string" where
  "fs_real f p =
     (if p = [] \<or> p = ''/'' then fs_root f else path_join [fs_root f, path_join [''.'', path_clean p]])"

record test_os =
  os_readDir :: "string \<Rightarrow> string + (string + finfo) list"
  os_lstat :: "string \<Rightarrow> string + finfo"
  os_readlink :: "string \<Rightarrow> string + string"
  os_open :: "string \<Rightarrow> string + string"
  os_create :: "string \<Rightarrow> nat \<Rightarrow> string + string"

record dir_lister =
  dl_entries :: "finfo list"
  dl_closed :: bool

definition new_lister :: "finfo list \<Rightarrow> dir_lister" where
  "new_lister es = \<lparr>dl_entries = es, dl_closed = False\<rparr>"

text \<open>The loop over the directory entries: the first entry without information ends it.\<close>

fun infos :: "(string + finfo) list \<Rightarrow> string + finfo list" where
  "infos [] = Inr []"
| "infos (Inl e # rest) = Inl e"
| "infos (Inr i # rest) = (case infos rest of Inl e \<Rightarrow> Inl e | Inr is \<Rightarrow> Inr (i # is))"

definition fs_Filelist :: "test_os \<Rightarrow> test_fs \<Rightarrow> string \<Rightarrow> string \<Rightarrow> string + dir_lister" where
  "fs_Filelist os f m p =
     (if m = ''List'' then
        (if p \<in> set (fs_brokenOpenDir f) then Inl ''file does not exist''
         else (case os_readDir os (fs_real f p) of
                 Inl e \<Rightarrow> Inl e
               | Inr es \<Rightarrow> (case infos es of Inl e \<Rightarrow> Inl e | Inr is \<Rightarrow> Inr (new_lister is))))
      else if m = ''Stat'' then
        (case os_lstat os (fs_real f p) of Inl e \<Rightarrow> Inl e | Inr i \<Rightarrow> Inr (new_lister [i]))
      else Inl ''unsupported method'')"

definition fs_Fileread :: "test_os \<Rightarrow> test_fs \<Rightarrow> string \<Rightarrow> string + string" where
  "fs_Fileread os f p = os_open os (fs_real f p)"

text \<open>
  \<open>Filewrite\<close> opens the file for writing, created with the mode 0600 or truncated; \<open>Filecmd\<close> reports every
  command as done and does nothing.
\<close>

definition fs_Filewrite :: "test_os \<Rightarrow> test_fs \<Rightarrow> string \<Rightarrow> string + string" where
  "fs_Filewrite os f p = os_create os (fs_real f p) 384"

definition fs_Filecmd :: "test_fs \<Rightarrow> string \<Rightarrow> string \<Rightarrow> string option" where
  "fs_Filecmd f m p = None"

definition fs_Readlink :: "test_os \<Rightarrow> test_fs \<Rightarrow> string \<Rightarrow> string + string" where
  "fs_Readlink os f p = os_readlink os (fs_real f p)"

text \<open>\<open>ListAt\<close> with a buffer of \<open>n\<close> entries: the entries copied, whether it returns EOF, the lister afterwards.\<close>

definition ListAt :: "nat \<Rightarrow> int \<Rightarrow> dir_lister \<Rightarrow> (finfo list \<times> bool) \<times> dir_lister" where
  "ListAt n offset l =
     (if dl_closed l then (([], True), l)
      else if offset = 0
      then (let out = take n (dl_entries l) in ((out, length out < n), l\<lparr>dl_closed := True\<rparr>))
      else (([], True), l))"

definition lister_Close :: "dir_lister \<Rightarrow> dir_lister" where
  "lister_Close l = l\<lparr>dl_closed := True\<rparr>"

text \<open>What a sequence of calls, each with its buffer and offset, lists in all.\<close>

fun list_calls :: "(nat \<times> int) list \<Rightarrow> dir_lister \<Rightarrow> finfo list" where
  "list_calls [] l = []"
| "list_calls ((n, offset) # cs) l = (case ListAt n offset l of ((out, eof), l') \<Rightarrow> out @ list_calls cs l')"

section \<open>The server\<close>

text \<open>Signers and keys are types of the ssh package.\<close>

record ('g, 'k) test_server =
  ts_addr :: string
  ts_signer :: 'g
  ts_hostKey :: 'k
  ts_rootDir :: string
  ts_brokenOpenDir :: "string list"

definition WithBrokenOpenDir :: "string list \<Rightarrow> ('g, 'k) test_server \<Rightarrow> ('g, 'k) test_server" where
  "WithBrokenOpenDir paths ts = ts\<lparr>ts_brokenOpenDir := paths\<rparr>"

definition HostKeyString :: "('k \<Rightarrow> string) \<Rightarrow> ('g, 'k) test_server \<Rightarrow> string" where
  "HostKeyString marshal ts = marshal (ts_hostKey ts)"

text \<open>
  What the start calls: the files it makes, the two keys and their signers, in this order, and the
  listener. A failure of \<open>os.Symlink\<close> skips the test, any other one is fatal to it.
\<close>

datatype setup_call =
    WriteFile string string nat
  | Mkdir string nat
  | Symlink string string

datatype key_owner = HostOwner | UserOwner

record ('p, 'g) test_env =
  te_tempDir :: string
  te_file :: "setup_call \<Rightarrow> string option"
  te_generateKey :: "key_owner \<Rightarrow> string + 'p"
  te_newSigner :: "'p \<Rightarrow> string + 'g"
  te_listen :: "string \<Rightarrow> string + string"

datatype 'a start_outcome =
    Fatal string
  | Skipped string
  | Started 'a

definition setup_calls :: "string \<Rightarrow> setup_call list" where
  "setup_calls root =
     [WriteFile (path_join [root, ''hello.txt'']) ''hi'' 384,
      Mkdir (path_join [root, ''real-dir'']) 493,
      WriteFile (path_join [path_join [root, ''real-dir''], ''inside.txt'']) ''yes'' 384,
      Symlink ''real-dir'' (path_join [root, ''link to dir''])]"

text \<open>The first call that fails, and the calls made.\<close>

fun run_setup :: "(setup_call \<Rightarrow> string option) \<Rightarrow> setup_call list \<Rightarrow> (setup_call \<times> string) option \<times> setup_call list" where
  "run_setup file [] = (None, [])"
| "run_setup file (c # cs) =
     (case file c of
        Some e \<Rightarrow> (Some (c, e), [c])
      | None \<Rightarrow> (case run_setup file cs of (res, made) \<Rightarrow> (res, c # made)))"

definition new_key :: "('p, 'g) test_env \<Rightarrow> key_owner \<Rightarrow> string + 'g" where
  "new_key env owner = (case te_generateKey env owner of Inl e \<Rightarrow> Inl e | Inr priv \<Rightarrow> te_newSigner env priv)"

definition StartSFTPTestServer ::
  "('g \<Rightarrow> 'k) \<Rightarrow> ('p, 'g) test_env \<Rightarrow> ('g, 'k) test_server start_outcome \<times> setup_call list" where
  "StartSFTPTestServer publicKey env =
     (case run_setup (te_file env) (setup_calls (te_tempDir env)) of
        (Some (Symlink _ _, e), made) \<Rightarrow> (Skipped (''symlink unsupported in test env: '' @ e), made)
      | (Some (_, e), made) \<Rightarrow> (Fatal e, made)
      | (None, made) \<Rightarrow>
          (case new_key env HostOwner of
             Inl e \<Rightarrow> (Fatal e, made)
           | Inr host \<Rightarrow>
               (case new_key env UserOwner of
                  Inl e \<Rightarrow> (Fatal e, made)
                | Inr user \<Rightarrow>
                    (case te_listen env ''127.0.0.1:0'' of
                       Inl e \<Rightarrow> (Fatal e, made)
                     | Inr addr \<Rightarrow>
                         (Started \<lparr>ts_addr = addr, ts_signer = user, ts_hostKey = publicKey host,
                            ts_rootDir = te_tempDir env, ts_brokenOpenDir = []\<rparr>, made)))))"

definition PublicKeyCallback :: "('k \<Rightarrow> string) \<Rightarrow> ('g \<Rightarrow> 'k) \<Rightarrow> 'g \<Rightarrow> 'k \<Rightarrow> string option" where
  "PublicKeyCallback keyType publicKey user key =
     (if keyType key \<noteq> keyType (publicKey user) then Some ''key type mismatch'' else None)"

text \<open>
  \<open>handle\<close>: what arrives on a connection is the channels offered, each with its type, whether accepting it
  succeeds, and the requests on it with their type and payload; \<open>serves\<close> is the error \<open>Serve\<close> returns for the
  file systems it is given. The events of a channel are in the order of its goroutine, and the slice of a
  short payload panics, which ends the process.
\<close>

record offered_channel =
  oc_type :: string
  oc_accepts :: bool
  oc_requests :: "(string \<times> string) list"

datatype channel_event =
    Rejected
  | Reply bool
  | Served test_fs test_fs
  | ClosedChannel
  | ClosedServer
  | SliceOutOfRange

definition test_fs_of :: "('g, 'k) test_server \<Rightarrow> test_fs" where
  "test_fs_of ts = \<lparr>fs_root = ts_rootDir ts, fs_brokenOpenDir = ts_brokenOpenDir ts\<rparr>"

fun channel_requests ::
  "('g, 'k) test_server \<Rightarrow> (test_fs \<Rightarrow> string option) \<Rightarrow> (string \<times> string) list \<Rightarrow> channel_event list" where
  "channel_requests ts serves [] = []"
| "channel_requests ts serves ((kind, payload) # rest) =
     (if kind \<noteq> ''subsystem'' then Reply False # channel_requests ts serves rest
      else if length payload < 4 then [SliceOutOfRange]
      else if drop 4 payload \<noteq> ''sftp'' then channel_requests ts serves rest
      else [Reply True, Served \<lparr>fs_root = ts_rootDir ts, fs_brokenOpenDir = []\<rparr> (test_fs_of ts)] @
        (case serves (test_fs_of ts) of
           None \<Rightarrow> []
         | Some e \<Rightarrow> if e = ''EOF'' then [] else [ClosedChannel]) @
        ClosedServer # channel_requests ts serves rest)"

definition handle_channel ::
  "('g, 'k) test_server \<Rightarrow> (test_fs \<Rightarrow> string option) \<Rightarrow> offered_channel \<Rightarrow> channel_event list" where
  "handle_channel ts serves ch =
     (if oc_type ch \<noteq> ''session'' then [Rejected]
      else if \<not> oc_accepts ch then []
      else channel_requests ts serves (oc_requests ch))"

definition handle_conn ::
  "('g, 'k) test_server \<Rightarrow> (test_fs \<Rightarrow> string option) \<Rightarrow> offered_channel list option \<Rightarrow> channel_event list list" where
  "handle_conn ts serves handshake =
     (case handshake of None \<Rightarrow> [] | Some chans \<Rightarrow> map (handle_channel ts serves) chans)"

text \<open>The loop of \<open>Accept\<close>, which an error (of a closed listener) ends.\<close>

fun accept_loop ::
  "('g, 'k) test_server \<Rightarrow> (test_fs \<Rightarrow> string option) \<Rightarrow> offered_channel list option option list \<Rightarrow>
   channel_event list list list" where
  "accept_loop ts serves (Some handshake # conns) = handle_conn ts serves handshake # accept_loop ts serves conns"
| "accept_loop ts serves _ = []"

section \<open>Lemmas\<close>

lemma list_calls_closed: "dl_closed l \<Longrightarrow> list_calls cs l = []"
  by (induction cs l rule: list_calls.induct) (auto simp: ListAt_def)

text \<open>Absolute paths stay below the root; a relative one can leave it.\<close>

lemma path_join_dot:
  assumes "\<forall>s \<in> set segs. normal_seg s" "segs \<noteq> []"
  shows "path_join [''.'', abs_path segs] = join_with ''/'' segs"
proof -
  have sp: "split_on slash (''.'' @ slash # abs_path segs) = ''.'' # [] # segs"
    using split_join_with [of segs slash] assms by (simp add: normal_seg_def)
  have "clean_segs False (''.'' # [] # segs) = segs"
    using clean_segs_id [OF assms(1), of False] by (simp add: clean_segs_def clean_step_def)
  then show ?thesis
    using sp join_normal_neq_Nil [OF assms(2,1)] by (simp add: path_join_def path_clean_def)
qed

lemma fs_real_below:
  assumes "is_abs p" "\<forall>s \<in> set root. normal_seg s" "fs_root f = abs_path root"
  shows "\<exists>segs. (\<forall>s \<in> set segs. normal_seg s) \<and> fs_real f p = abs_path (root @ segs)"
proof -
  define segs where "segs = clean_segs True (split_on slash p)"
  have n: "\<forall>s \<in> set segs. normal_seg s" unfolding segs_def using clean_segs_normal by blast
  have c: "path_clean p = abs_path segs" unfolding segs_def by (rule path_clean_abs [OF assms(1)])
  have j: "path_join [abs_path root, join_with ''/'' segs] = abs_path (root @ segs)" if "segs \<noteq> []"
  proof -
    have "split_on slash (abs_path root @ slash # join_with ''/'' segs) = ([] # (if root = [] then [[]] else root)) @ segs"
      unfolding split_on_append split_abs_path [OF assms(2)]
      using split_join_with [of segs slash] n that by (simp add: normal_seg_def)
    moreover have "clean_segs True (([] # (if root = [] then [[]] else root)) @ segs) = root @ segs"
      using n assms(2) by (auto simp: clean_segs_def clean_step_def foldl_clean_id)
    ultimately have "clean_segs True (split_on slash (abs_path root @ slash # join_with ''/'' segs)) = root @ segs" by simp
    then show ?thesis by (simp add: path_join2_abs path_clean_abs)
  qed
  show ?thesis
  proof (cases "p = [] \<or> p = ''/''")
    case True
    then show ?thesis using assms(3) by (intro exI [of _ "[]"]) (auto simp: fs_real_def)
  next
    case False
    show ?thesis
    proof (cases "segs = []")
      case True
      have "path_join [''.'', ''/''] = ''.''" by code_simp
      moreover have "path_join [abs_path root, ''.''] = abs_path root"
      proof -
        have "clean_segs True (split_on slash (abs_path root @ slash # ''.'')) = root"
          unfolding split_on_append using assms(2)
          by (auto simp: split_abs_path clean_segs_def clean_step_def foldl_clean_id simp del: split_on.simps(2))
        then show ?thesis by (simp add: path_join2_abs path_clean_abs)
      qed
      ultimately show ?thesis using False True c assms(3) by (intro exI [of _ "[]"]) (simp add: fs_real_def)
    next
      case nonempty: False
      then show ?thesis
        using False c j n assms(3) path_join_dot [OF n nonempty] by (intro exI [of _ segs]) (simp add: fs_real_def)
    qed
  qed
qed

lemma fs_real_relative: "fs_real \<lparr>fs_root = ''/srv/root'', fs_brokenOpenDir = []\<rparr> ''../x'' = ''/srv/x''"
  by code_simp

text \<open>
  A server that has started has made its four files, in their order, below the temporary directory; a
  start that made fewer was fatal or skipped, and it skips only when the link is what failed.
\<close>

lemma run_setup_made:
  "run_setup file cs = (res, made) \<Longrightarrow>
     (case res of None \<Rightarrow> made = cs \<and> (\<forall>c \<in> set cs. file c = None)
      | Some (c, e) \<Rightarrow> (\<exists>rest. cs = made @ rest) \<and> made \<noteq> [] \<and> last made = c \<and> file c = Some e)"
  by (induction cs arbitrary: res made) (auto split: option.splits prod.splits)

lemma start_makes_files:
  assumes "StartSFTPTestServer publicKey env = (Started ts, made)"
  shows "made = setup_calls (te_tempDir env) \<and> ts_rootDir ts = te_tempDir env \<and> ts_brokenOpenDir ts = [] \<and>
    new_key env UserOwner = Inr (ts_signer ts)"
proof -
  obtain res m where r: "run_setup (te_file env) (setup_calls (te_tempDir env)) = (res, m)" by fastforce
  from run_setup_made [OF r] r assms show ?thesis
    by (auto simp: StartSFTPTestServer_def split: option.splits sum.splits setup_call.splits)
qed

lemma start_skips:
  assumes "StartSFTPTestServer publicKey env = (Skipped e, made)"
  shows "made = setup_calls (te_tempDir env) \<and>
    te_file env (Symlink ''real-dir'' (path_join [te_tempDir env, ''link to dir''])) \<noteq> None"
proof -
  obtain res m where r: "run_setup (te_file env) (setup_calls (te_tempDir env)) = (res, m)" by fastforce
  with assms obtain t l err where res: "res = Some (Symlink t l, err)" "m = made"
    by (auto simp: StartSFTPTestServer_def split: option.splits sum.splits setup_call.splits prod.splits)
  then have "\<exists>rest. setup_calls (te_tempDir env) = made @ rest" "made \<noteq> []" "last made = Symlink t l" "te_file env (Symlink t l) = Some err"
    using run_setup_made [OF r] by auto
  then show ?thesis
    by (auto simp: setup_calls_def append_eq_Cons_conv Cons_eq_append_conv split: if_splits)
qed

text \<open>Only what OPENDIR is asked for is broken by the configuration: reads and writes see none of it.\<close>

lemma served_roots:
  "Served a b \<in> set (handle_channel ts serves ch) \<Longrightarrow>
     fs_root a = ts_rootDir ts \<and> fs_brokenOpenDir a = [] \<and> b = test_fs_of ts \<and> oc_type ch = ''session''"
proof -
  have "Served a b \<in> set (channel_requests ts serves rs) \<Longrightarrow>
      fs_root a = ts_rootDir ts \<and> fs_brokenOpenDir a = [] \<and> b = test_fs_of ts" for rs
    by (induction ts serves rs rule: channel_requests.induct) (auto split: if_splits option.splits)
  then show "Served a b \<in> set (handle_channel ts serves ch) \<Longrightarrow>
      fs_root a = ts_rootDir ts \<and> fs_brokenOpenDir a = [] \<and> b = test_fs_of ts \<and> oc_type ch = ''session''" by (auto simp: handle_channel_def split: if_splits)
qed

section \<open>Properties\<close>

text \<open>
  A listing of the test server is complete exactly when its directory fits into the buffer of the
  first call: that call, at offset 0, ends the lister, and whatever calls follow list nothing more.
\<close>

lemma test_listing_first_buffer_only:
  assumes "fs_Filelist os f ''List'' p = Inr l"
  shows "list_calls ((n, 0) # cs) l = take n (dl_entries l) \<and>
    (list_calls ((n, 0) # cs) l = dl_entries l \<longleftrightarrow> length (dl_entries l) \<le> n)"
proof -
  have "\<not> dl_closed l" using assms by (auto simp: fs_Filelist_def new_lister_def split: if_splits sum.splits)
  then show ?thesis
    using list_calls_closed [of "l\<lparr>dl_closed := True\<rparr>" cs] by (auto simp: ListAt_def Let_def)
qed

definition demo_os :: test_os where
  "demo_os = \<lparr>os_readDir = (\<lambda>d. Inr [Inr (junction ''a''), Inr (junction ''b'')]), os_lstat = (\<lambda>p. Inl ''no''),
     os_readlink = (\<lambda>p. Inl ''no''), os_open = (\<lambda>p. Inl ''no''), os_create = (\<lambda>p m. Inl ''no'')\<rparr>"

lemma test_listing_first_buffer_only_witness:
  "list_calls [(1, 0), (1, 1)] (new_lister [junction ''a'', junction ''b'']) = [junction ''a'']"
proof -
  have "fs_Filelist demo_os \<lparr>fs_root = ''/srv'', fs_brokenOpenDir = []\<rparr> ''List'' ''/d'' =
      Inr (new_lister [junction ''a'', junction ''b''])"
    by (simp add: fs_Filelist_def demo_os_def)
  from test_listing_first_buffer_only [OF this, of 1 "[(1, 1)]"] show ?thesis by (simp add: new_lister_def)
qed

end
