(* ===== verification/Spec2Isabelle.thy ===== *)
theory Spec2Isabelle
  imports Helper Journey ListingRace Liveness Metrics TestServer
begin

text \<open>
  Verification library of the Kasten FRS web helper, a Go program that lets a browser create Kasten
  FileRecoverySessions (FRS) in a Kubernetes cluster and browse and download their files, which a pod
  of the session serves over SFTP. Every theory models Go code under src/; the names of definitions
  are those of the code where HOL leaves them free.

  \<^bold>\<open>The program.\<close> cmd/helper/main.go reads the configuration, builds a Kubernetes client, runs a
  preflight, loads or generates an SSH key pair kept in a Secret and serves HTTP. A request goes
  through the mux of main, the middleware (security headers, access log, recovery from panics), the
  router and, but for login, logout, probes and assets, the gate of the cookie sessions. The handlers
  call the Kubernetes API through the interface FRSProvider, keep SFTP sessions in a pool keyed by
  browser session and FRS, and remember in a watch map the FRS that the wizard created, each with a
  goroutine that waits for it. The state of the running program is the record \<open>server_state\<close>:
  the pool, what stands behind its handles, the watch map, the watchers still running, the gauge of
  active connections and the metrics recorded.

  \<^bold>\<open>Theories and code.\<close>
  \<^item> Prelude: Go's strings, times and results; the collections \<open>wf_rules\<close> and \<open>find_simps\<close>.
  \<^item> GoPath, GoText: packages path, strconv, encoding/base64, net/url as far as the code uses them.
  \<^item> Simulation: reachable states, invariants, infinite runs with weak fairness, and the locale
    \<open>simulation\<close> of a detailed transition system that refines an abstract one; interpreted for the wizard
    (Router), the pool (Lifetime) and both under overlapping requests (Interleaving).
  \<^item> ExpiringMap: Go maps as association lists with distinct keys, and the locale
    \<open>expiring_store\<close> of a store whose entries age; interpreted by the pool and by the watch map.
  \<^item> SortSlice: the contract of sort.Slice, whose algorithm is a parameter.
  \<^item> SftpClient: internal/sftpclient/client.go, that is validatePath, the wrapped file information,
    resolveAbsoluteTarget, ancestorWalkResolve, Session.ListDir, Open and Stat. The locales
    \<open>link_resolver\<close>, \<open>resolver_chain\<close> and \<open>dir_lister\<close> state what a listing needs of a way to resolve
    links; the code's two ways and their chain are interpretations.
  \<^item> ListingRace: resolveAbsoluteTarget cut at its accesses to the learned chroot depth of the session,
    which nothing protects, and the interleavings of any number of resolutions on one session.
  \<^item> Dial: the rest of that file, NewClient, ParseHostKeySignature and Client.Dial.
  \<^item> Pool: internal/sftpclient/pool.go; a session is a handle, the handles closed are logged.
  \<^item> Frs, RestorePoints, Scheme: internal/k8s/frs.go, restorepoints.go, client.go, credentials.go, scheme.go. The
    goroutine-free WaitForReady is a loop over polls with the clock and the context as functions.
  \<^item> Watch: the watch map of internal/handlers/wizard.go, its sweeper and its watchers, as the
    transition system \<open>wizard_step\<close>.
  \<^item> Http, Auth: what the handlers use of net/http, http.Redirect included; internal/auth/session.go and
    auth.go. The locale
    \<open>request_gate\<close> is the contract of a middleware that lets a request through or does nothing.
  \<^item> Config, KeyMgr: internal/config/config.go and internal/keymgr/keymgr.go.
  \<^item> PathView, ZipWalk, Handlers, Wizard: the helpers, the archive walk and the handlers of
    internal/handlers/handlers.go, wizard.go and sessions.go.
  \<^item> Router: the routes with the precedence of Go 1.22 patterns, the file server on the embedded files
    of web/embed.go with its errors and relative redirects, \<open>serve\<close>, and the transition system
    \<open>server_step\<close> of requests, watchers that end and ticks of the sweeper in any order.
  \<^item> Headers: the locale \<open>header_policy\<close> of a condition on header fields that every response of the
    router meets, interpreted for the middleware's headers and for the locations.
  \<^item> Lifetime: the connections of the running server over time, on top of Router. Journey: what one
    browser meets across its requests, and where its connections lead. Interleaving: the server when requests overlap, with every handler
    that writes shared state cut at each access to it (\<open>il_step\<close>). Liveness: its infinite runs.
  \<^item> Metrics: internal/metrics/metrics.go and what the calls on the collectors export, with the panics of
    client_golang on labels that are too many, too few or no UTF-8.
  \<^item> Middleware: internal/logging/logging.go, internal/server/middleware.go and the chain of main.
    A handler is the list of calls it makes on its ResponseWriter, ended early by a panic; the writer of
    net/http executes them and, for a HEAD request, counts a body it does not send.
  \<^item> Startup, Helper: internal/startup/preflight.go; cmd/helper/main.go and internal/server/server.go.
  \<^item> TestServer: internal/sftpclient/testserver.go, its start, its accept and channel loops, its file system.

  \<^bold>\<open>What the properties show.\<close>
  \<^item> Access: a request the gate refuses changes no session, connection, watch entry or watcher and sees
    nothing but the login form and the assets (C1); browser sessions do not touch each other's connections
    (C3); a cookie that is accepted was issued, even to one who has seen CSRF tokens (C6), and a login opens
    the gate exactly for its lifetime (C7); no redirect leads off the site (C8).
  \<^item> Connections: a handle taken from the pool is open and not shared (C2); what was dialled is what is
    browsed, whatever others do in between short of deleting it (C4); deleting an FRS releases exactly its
    connections (C5); a connection leads only to a host that has proved the key its FRS publishes; every
    connection ever opened is pooled, closed once or leaked by a reconnect, also when
    requests overlap, by a refinement of the pool's operations; an idle one is not closed before its
    browser returns or its FRS is deleted; the gauge of active connections is an upper bound as long as
    requests do not overlap, and may be one short when they do.
  \<^item> Files: a listing keeps the server's entries and gives links only paths that exist (C9), found with
    the least chroot depth; listings that overlap on one session keep that, but can panic; paths are
    validated exactly; the names in an archive have no parent segment (C10) and lie under its root when
    the server reports base names; the walk ends when a rank falls along the directories, and does
    not among directories that lead back to each other.
  \<^item> Kubernetes: the listings of sessions and machines are exact and do not depend on sort.Slice or on
    the order of map iteration; WaitForReady returns, and succeeds exactly when a poll sees Ready; both
    forms of the details document are read back.
  \<^item> Wizard: in every interleaving an entry is pending with its watcher or in a terminal state, and the
    server refines this system however requests overlap; a browser that polls for a session is told what
    the cluster said in time as long as the watch entry stays, and is answered in the end, if watchers end
    and the entry is not removed before the cluster has decided; a deleted session reappears when
    its watcher ends.
  \<^item> Program: it starts exactly when its parts can be had, wired to what was configured, never panics on
    the way, and its exit status tells how it went; the key pair is
    stable; the security headers are on every response behind the middleware, and an access line tells the
    status, the bytes written and the request id of a response whose handler has not panicked; panics
    are contained; recording metrics panics on no label that is UTF-8, and a scrape lists
    exactly what was recorded.
  Several of these are properties the authors will not have meant: they state precisely what the code
  does where a comment or the intent says otherwise.

  \<^bold>\<open>Bounds and fuel.\<close> The depth of junction resolution is at most 5 (\<open>maxChrootDepth\<close>) and of the
  ancestor walk at most 5 probes (depths 0 to \<open>maxJunctionDepth\<close> = 4), as in the code; both recursions end by a
  measure. WaitForReady takes fuel, one unit for a poll: timeout / 500 ms + 2 polls are enough when the
  clock advances with the sleeps. The archive walk takes fuel, one unit for a level of directories: the
  rank of its root plus two is enough; nothing in the code bounds it, so \<open>None\<close> stands for not returning.
  Times and durations are integers in nanoseconds, with the saturation of \<open>Time.Sub\<close> at 64 bits; file modes
  are words of 32 bits.

  \<^bold>\<open>Parameters.\<close> The API server and client-go, package unstructured, RFC 3339 parsing and JSON decoding, the
  ssh and sftp packages and the SFTP server, HMAC-SHA256, random bytes, the clock, the operating system of the test
  server. What the properties need of them is a named hypothesis (\<open>slice_sorter\<close>,
  \<open>secret_service_ok\<close>, \<open>ssh_lib_ok\<close>, and that an SSH dial honours a fixed host key), with an instance in the witness.

  \<^bold>\<open>Fairness and atomicity.\<close> An operation under a mutex is one step, and so is an access to the chroot
  depth, which has none. In Router and Lifetime a whole request is one step of the server; Interleaving takes
  requests apart and proves that the pieces, run alone, are the handlers. Liveness assumes of a run that a
  watcher which could end again and again does end, which WaitForReady's own termination justifies.

  \<^bold>\<open>Not modelled.\<close> The HTML templates, scripts and
  styles under web/ are data: a page is a constructor with the values its template is executed on, an embedded
  file one with its name. Left out
  of modelled files: the bytes of gzip, tar and log lines; the goroutine that listens and the choice between
  signals in main.go and server.go; plain getters; a client that hangs up during a download; conditional
  requests and ranges on the assets, and the Content-Length of a response but where a handler sets it.
\<close>

end
